(* ===== verification/Rust_Std.thy ===== *)
theory Rust_Std
  imports Prelude
begin

text \<open>
  The parts of the Rust standard library the program's text formats use: strings as UTF-8 bytes
  (\<open>as_bytes\<close>, \<open>from_utf8\<close>, character boundaries), the \<open>Display\<close> of integers, \<open>str::parse\<close> and
  \<open>from_str_radix\<close> with their four error kinds, hexadecimal digits, and \<open>split\<close>,
  \<open>strip_prefix\<close> and their kin. The lemmas are the print/parse round trips.
\<close>

section \<open>Strings and bytes\<close>

definition char_byte :: "char \<Rightarrow> u8" where
  "char_byte c = of_char c"

definition byte_char :: "u8 \<Rightarrow> char" where
  "byte_char b = char_of (unat b)"

abbreviation as_bytes :: "string \<Rightarrow> bytes" where
  "as_bytes s \<equiv> map char_byte s"

abbreviation chars_of :: "bytes \<Rightarrow> string" where
  "chars_of bs \<equiv> map byte_char bs"

lemma unat_char_byte: "unat (char_byte c) = of_char c"
proof -
  have "of_char c < (256 :: nat)"
    using of_char_mod_256 [of c, where ?'a = nat] by (metis mod_less_divisor zero_less_numeral)
  moreover have "char_byte c = of_nat (of_char c)"
    by (simp add: char_byte_def of_nat_of_char)
  ultimately show ?thesis
    by (simp add: unat_of_nat)
qed

lemma byte_char_byte [simp, codec]: "byte_char (char_byte c) = c"
  by (simp add: byte_char_def unat_char_byte)

lemma char_byte_char [simp, codec]: "char_byte (byte_char b) = b"
proof -
  have "unat b < 256" using unsigned_less [of b] by simp
  then have "unat (char_byte (byte_char b)) = unat b"
    by (simp add: unat_char_byte byte_char_def)
  then show ?thesis by (rule unsigned_word_eqI)
qed

lemma char_byte_eq_iff [simp]: "char_byte c = char_byte d \<longleftrightarrow> c = d"
  by (metis byte_char_byte)

lemma byte_char_comp [simp]: "byte_char \<circ> char_byte = id"
  by (simp add: fun_eq_iff)

lemma chars_of_as_bytes [simp, codec]: "chars_of (as_bytes s) = s"
  by simp

text \<open>The validity check of \<open>std::str::from_utf8\<close> (RFC 3629).\<close>

definition cont_byte :: "u8 \<Rightarrow> bool" where
  "cont_byte b \<longleftrightarrow> 0x80 \<le> b \<and> b \<le> 0xBF"

fun utf8_valid :: "bytes \<Rightarrow> bool" where
  "utf8_valid [] = True"
| "utf8_valid (a # bs) =
     (if a < 0x80 then utf8_valid bs
      else if 0xC2 \<le> a \<and> a \<le> 0xDF then
        (case bs of b # cs \<Rightarrow> cont_byte b \<and> utf8_valid cs | _ \<Rightarrow> False)
      else if 0xE0 \<le> a \<and> a \<le> 0xEF then
        (case bs of b # c # ds \<Rightarrow>
             (if a = 0xE0 then 0xA0 \<le> b \<and> b \<le> 0xBF
              else if a = 0xED then 0x80 \<le> b \<and> b \<le> 0x9F else cont_byte b)
             \<and> cont_byte c \<and> utf8_valid ds
         | _ \<Rightarrow> False)
      else if 0xF0 \<le> a \<and> a \<le> 0xF4 then
        (case bs of b # c # d # es \<Rightarrow>
             (if a = 0xF0 then 0x90 \<le> b \<and> b \<le> 0xBF
              else if a = 0xF4 then 0x80 \<le> b \<and> b \<le> 0x8F else cont_byte b)
             \<and> cont_byte c \<and> cont_byte d \<and> utf8_valid es
         | _ \<Rightarrow> False)
      else False)"

definition from_utf8 :: "bytes \<Rightarrow> string option" where
  "from_utf8 bs = (if utf8_valid bs then Some (chars_of bs) else None)"

text \<open>The type invariant of \<open>String\<close> and \<open>&str\<close>.\<close>

definition str_ok :: "string \<Rightarrow> bool" where
  "str_ok s \<longleftrightarrow> utf8_valid (as_bytes s)"

lemma from_utf8_as_bytes [codec]: "str_ok s \<Longrightarrow> from_utf8 (as_bytes s) = Some s"
  by (simp add: from_utf8_def str_ok_def)

lemma utf8_valid_ascii: "\<forall>b \<in> set bs. b < 0x80 \<Longrightarrow> utf8_valid bs"
  by (induction bs) auto

text \<open>\<open>str::is_char_boundary\<close>: slicing a \<open>&str\<close> elsewhere panics.\<close>

definition is_char_boundary :: "string \<Rightarrow> nat \<Rightarrow> bool" where
  "is_char_boundary s i \<longleftrightarrow>
     i = 0 \<or> i = length s \<or> (i < length s \<and> \<not> cont_byte (char_byte (s ! i)))"

definition str_slice :: "nat \<Rightarrow> nat \<Rightarrow> string \<Rightarrow> (string, 'e) result" where
  "str_slice a b s =
     (if a \<le> b \<and> b \<le> length s \<and> is_char_boundary s a \<and> is_char_boundary s b
      then Ok (subslice a b s) else Panic)"

section \<open>Printing integers\<close>

definition digit_char :: "nat \<Rightarrow> char" where
  "digit_char d = char_of (48 + d)"

fun show_nat :: "nat \<Rightarrow> string" where
  "show_nat n = (if n < 10 then [digit_char n] else show_nat (n div 10) @ [digit_char (n mod 10)])"

declare show_nat.simps [simp del]

definition show_u64 :: "u64 \<Rightarrow> string" where
  "show_u64 w = show_nat (unat w)"

definition show_i64 :: "u64 \<Rightarrow> string" where
  "show_i64 w = (if sint w < 0 then CHR ''-'' # show_nat (nat (- sint w)) else show_nat (nat (sint w)))"

text \<open>\<open>{:02}\<close>: at least two digits.\<close>

definition pad2 :: "nat \<Rightarrow> string" where
  "pad2 n = (if n < 10 then CHR ''0'' # show_nat n else show_nat n)"

lemma show_nat_neq_Nil [simp]: "show_nat n \<noteq> []"
  by (subst show_nat.simps) simp

section \<open>Parsing integers\<close>

datatype parse_error = Empty | InvalidDigit | PosOverflow | NegOverflow

fun show_parse_error :: "parse_error \<Rightarrow> string" where
  "show_parse_error Empty = ''cannot parse integer from empty string''"
| "show_parse_error InvalidDigit = ''invalid digit found in string''"
| "show_parse_error PosOverflow = ''number too large to fit in target type''"
| "show_parse_error NegOverflow = ''number too small to fit in target type''"

text \<open>\<open>char::to_digit(radix)\<close>.\<close>

definition to_digit :: "nat \<Rightarrow> char \<Rightarrow> nat option" where
  "to_digit r c =
     (let n = of_char c;
          v = (if 48 \<le> n \<and> n \<le> 57 then n - 48
               else if 97 \<le> n \<and> n \<le> 122 then n - 87
               else if 65 \<le> n \<and> n \<le> 90 then n - 55 else r)
      in if v < r then Some v else None)"

text \<open>
  The digit loop of \<open>from_str_radix\<close>: \<open>m\<close> bounds the magnitude, \<open>ov\<close> is the error that
  \<open>checked_mul\<close> / \<open>checked_add\<close> (or \<open>checked_sub\<close>) raises beyond it. The digit is inspected
  before the overflow, so an invalid character is reported first.
\<close>

fun parse_digits :: "nat \<Rightarrow> nat \<Rightarrow> parse_error \<Rightarrow> nat \<Rightarrow> string \<Rightarrow> (nat, parse_error) result" where
  "parse_digits r m ov acc [] = Ok acc"
| "parse_digits r m ov acc (c # cs) =
     (case to_digit r c of
        None \<Rightarrow> Err InvalidDigit
      | Some d \<Rightarrow> if m < acc * r + d then Err ov else parse_digits r m ov (acc * r + d) cs)"

text \<open>\<open>uN::from_str_radix(s, r)\<close> with maximum \<open>m\<close>: one leading \<open>+\<close> is accepted.\<close>

definition parse_uint :: "nat \<Rightarrow> nat \<Rightarrow> string \<Rightarrow> (nat, parse_error) result" where
  "parse_uint r m s =
     (case s of
        [] \<Rightarrow> Err Empty
      | c # cs \<Rightarrow>
          if (c = CHR ''+'' \<or> c = CHR ''-'') \<and> cs = [] then Err InvalidDigit
          else if c = CHR ''+'' then parse_digits r m PosOverflow 0 cs
          else parse_digits r m PosOverflow 0 s)"

definition parse_u64 :: "string \<Rightarrow> (u64, parse_error) result" where
  "parse_u64 s = and_then (parse_uint 10 (2 ^ 64 - 1) s) (\<lambda>n. Ok (of_nat n))"

text \<open>\<open>usize\<close> values count bytes in memory; they are kept as \<^typ>\<open>nat\<close> below \<open>2 ^ 64\<close>.\<close>

definition parse_usize :: "string \<Rightarrow> (nat, parse_error) result" where
  "parse_usize s = parse_uint 10 (2 ^ 64 - 1) s"

definition parse_i64 :: "string \<Rightarrow> (u64, parse_error) result" where
  "parse_i64 s =
     (case s of
        [] \<Rightarrow> Err Empty
      | c # cs \<Rightarrow>
          if (c = CHR ''+'' \<or> c = CHR ''-'') \<and> cs = [] then Err InvalidDigit
          else if c = CHR ''+'' then
            and_then (parse_digits 10 (2 ^ 63 - 1) PosOverflow 0 cs) (\<lambda>n. Ok (of_nat n))
          else if c = CHR ''-'' then
            and_then (parse_digits 10 (2 ^ 63) NegOverflow 0 cs) (\<lambda>n. Ok (- of_nat n))
          else and_then (parse_digits 10 (2 ^ 63 - 1) PosOverflow 0 s) (\<lambda>n. Ok (of_nat n)))"

section \<open>Print/parse round trips\<close>

lemma of_char_digit_char: "d < 10 \<Longrightarrow> of_char (digit_char d) = 48 + d"
  by (simp add: digit_char_def)

lemma to_digit_digit_char [codec]: "d < 10 \<Longrightarrow> 10 \<le> r \<Longrightarrow> to_digit r (digit_char d) = Some d"
  by (simp add: to_digit_def of_char_digit_char)

lemma digit_char_neq [simp]:
  assumes "d < 10"
  shows "digit_char d \<noteq> CHR ''+''" and "digit_char d \<noteq> CHR ''-''" and "digit_char d \<noteq> CHR '':''"
    and "digit_char d \<noteq> CHR ''e''" and "digit_char d \<noteq> CHR ''|''"
proof -
  have eq: "(digit_char d = c) = (48 + d = of_char c)" for c
    using of_char_digit_char [OF assms] by (metis of_char_eq_iff)
  from assms show "digit_char d \<noteq> CHR ''+''" and "digit_char d \<noteq> CHR ''-''"
    and "digit_char d \<noteq> CHR '':''" and "digit_char d \<noteq> CHR ''e''" and "digit_char d \<noteq> CHR ''|''"
    by (simp_all add: eq)
qed

definition is_digit :: "char \<Rightarrow> bool" where
  "is_digit c \<longleftrightarrow> (let n = of_char c :: nat in 48 \<le> n \<and> n \<le> 57)"

lemma is_digit_digit_char: "d < 10 \<Longrightarrow> is_digit (digit_char d)"
  by (simp add: is_digit_def of_char_digit_char)

lemma show_nat_digits: "c \<in> set (show_nat n) \<Longrightarrow> is_digit c"
proof (induction n rule: show_nat.induct)
  case (1 n)
  show ?case
  proof (cases "n < 10")
    case True
    with "1.prems" show ?thesis
      by (simp add: show_nat.simps [of n] is_digit_digit_char)
  next
    case False
    with "1" show ?thesis
      by (auto simp: show_nat.simps [of n] is_digit_digit_char)
  qed
qed

lemma is_digit_neq:
  "is_digit c \<Longrightarrow> c \<noteq> CHR ''+'' \<and> c \<noteq> CHR ''-'' \<and> c \<noteq> CHR '':'' \<and> c \<noteq> CHR ''e'' \<and> c \<noteq> CHR ''|''"
  by (auto simp: is_digit_def Let_def)

lemma parse_digits_append:
  "parse_digits r m ov a (xs @ ys) =
     and_then (parse_digits r m ov a xs) (\<lambda>b. parse_digits r m ov b ys)"
  by (induction r m ov a xs rule: parse_digits.induct) (auto split: option.splits)

lemma parse_digits_show_nat [codec]: "n \<le> m \<Longrightarrow> parse_digits 10 m ov 0 (show_nat n) = Ok n"
proof (induction n rule: show_nat.induct)
  case (1 n)
  show ?case
  proof (cases "n < 10")
    case True
    with "1.prems" show ?thesis
      by (simp add: show_nat.simps [of n] to_digit_digit_char)
  next
    case False
    then have *: "show_nat n = show_nat (n div 10) @ [digit_char (n mod 10)]"
      by (subst show_nat.simps) simp
    have "n div 10 \<le> m"
      using "1.prems" by (meson div_le_dividend le_trans)
    with False "1.IH" have "parse_digits 10 m ov 0 (show_nat (n div 10)) = Ok (n div 10)"
      by simp
    then show ?thesis
      using "1.prems" by (simp add: * parse_digits_append to_digit_digit_char)
  qed
qed

lemma show_nat_Cons_digit: "show_nat n = c # cs \<Longrightarrow> is_digit c"
  using show_nat_digits [of c n] by simp

lemma parse_uint_show_nat [codec]: "n \<le> m \<Longrightarrow> parse_uint 10 m (show_nat n) = Ok n"
  using parse_digits_show_nat [of n m PosOverflow] show_nat_digits [of _ n]
  by (cases "show_nat n") (auto simp: parse_uint_def dest: is_digit_neq)

lemma parse_usize_show_nat [codec]: "n < 2 ^ 64 \<Longrightarrow> parse_usize (show_nat n) = Ok n"
  by (simp add: parse_usize_def parse_uint_show_nat)

lemma unat_le_u64: "unat (w :: u64) \<le> 2 ^ 64 - 1"
proof -
  have "unat w < 2 ^ LENGTH(64)" by (rule unsigned_less)
  then show ?thesis by simp
qed

lemma parse_u64_show_u64 [codec]: "parse_u64 (show_u64 w) = Ok w"
  using parse_uint_show_nat [OF unat_le_u64, of w] by (simp add: parse_u64_def show_u64_def)

lemma parse_i64_show_i64 [codec]: "parse_i64 (show_i64 w) = Ok w"
proof (cases "sint w < 0")
  case True
  have "- (2 ^ 63) \<le> sint w" using sint_ge [of w] by simp
  then have "nat (- sint w) \<le> 2 ^ 63" by simp
  from parse_digits_show_nat [OF this, of NegOverflow] True show ?thesis
    by (simp add: parse_i64_def show_i64_def)
next
  case False
  have "sint w < 2 ^ 63" using sint_lt [of w] by simp
  then have le: "nat (sint w) \<le> 2 ^ 63 - 1" by simp
  from parse_digits_show_nat [OF le, of PosOverflow] show_nat_digits [of _ "nat (sint w)"] False
  show ?thesis
    by (cases "show_nat (nat (sint w))")
      (auto simp: parse_i64_def show_i64_def dest: is_digit_neq)
qed

lemma parse_uint_bound: "parse_uint r m s = Ok n \<Longrightarrow> n \<le> m"
proof -
  have *: "parse_digits r m ov a s = Ok n \<Longrightarrow> a \<le> m \<Longrightarrow> n \<le> m" for ov a s
    by (induction r m ov a s rule: parse_digits.induct) (auto split: option.splits if_splits)
  show "parse_uint r m s = Ok n \<Longrightarrow> n \<le> m"
    using * [of _ 0] by (auto simp: parse_uint_def simp del: parse_digits.simps split: list.splits if_splits)
qed

lemma parse_digits_not_Panic [simp]: "parse_digits r m ov a s \<noteq> Panic"
  by (induction r m ov a s rule: parse_digits.induct) (auto split: option.splits)

lemma parse_uint_not_Panic [simp]: "parse_uint r m s \<noteq> Panic"
  by (auto simp: parse_uint_def simp del: parse_digits.simps split: list.splits)

lemma parse_i64_not_Panic [simp]: "parse_i64 s \<noteq> Panic"
  by (auto simp: parse_i64_def and_then_Panic_iff simp del: parse_digits.simps split: list.splits)

lemma parse_u64_not_Panic [simp]: "parse_u64 s \<noteq> Panic"
  by (auto simp: parse_u64_def and_then_Panic_iff)

section \<open>Splitting and trimming\<close>

text \<open>\<open>str::split(c)\<close> on an ASCII character; the list is never empty.\<close>

fun split_on :: "'a \<Rightarrow> 'a list \<Rightarrow> 'a list list" where
  "split_on c [] = [[]]"
| "split_on c (x # xs) =
     (if x = c then [] # split_on c xs
      else (case split_on c xs of [] \<Rightarrow> [[x]] | y # ys \<Rightarrow> (x # y) # ys))"

text \<open>\<open>rsplit(c).next()\<close>: the part after the last \<open>c\<close>.\<close>

definition rsplit_first :: "'a \<Rightarrow> 'a list \<Rightarrow> 'a list" where
  "rsplit_first c s = last (split_on c s)"

definition starts_with :: "'a list \<Rightarrow> 'a list \<Rightarrow> bool" where
  "starts_with p s \<longleftrightarrow> take (length p) s = p"

definition ends_with :: "'a list \<Rightarrow> 'a list \<Rightarrow> bool" where
  "ends_with p s \<longleftrightarrow> starts_with (rev p) (rev s)"

definition strip_prefix :: "'a list \<Rightarrow> 'a list \<Rightarrow> 'a list option" where
  "strip_prefix p s = (if starts_with p s then Some (drop (length p) s) else None)"

definition strip_suffix :: "'a list \<Rightarrow> 'a list \<Rightarrow> 'a list option" where
  "strip_suffix p s = (if ends_with p s then Some (take (length s - length p) s) else None)"

lemma split_on_neq_Nil [simp]: "split_on c s \<noteq> []"
  by (induction c s rule: split_on.induct) (auto split: list.splits)

lemma split_on_none [codec]: "c \<notin> set s \<Longrightarrow> split_on c s = [s]"
  by (induction c s rule: split_on.induct) auto

lemma split_on_append [codec]: "c \<notin> set xs \<Longrightarrow> split_on c (xs @ c # ys) = xs # split_on c ys"
  by (induction xs) auto

lemma split_on_parts: "p \<in> set (split_on c s) \<Longrightarrow> c \<notin> set p"
  by (induction c s arbitrary: p rule: split_on.induct) (auto split: list.splits if_splits)

lemma split_on_append_gen: "split_on c (xs @ c # ys) = split_on c xs @ split_on c ys"
  by (induction xs) (auto split: list.splits)

lemma rsplit_first_append: "c \<notin> set ys \<Longrightarrow> rsplit_first c (xs @ c # ys) = ys"
  by (simp add: rsplit_first_def split_on_append_gen split_on_none)

lemma strip_prefix_append [codec, simp]: "strip_prefix p (p @ s) = Some s"
  by (simp add: strip_prefix_def starts_with_def)

lemma ends_with_append [simp]: "ends_with p (s @ p)"
  by (simp add: ends_with_def starts_with_def)

lemma strip_suffix_append [codec, simp]: "strip_suffix p (s @ p) = Some s"
  by (simp add: strip_suffix_def)

text \<open>\<open>str::trim\<close>, \<open>to_lowercase\<close> and \<open>eq_ignore_ascii_case\<close>, on ASCII.\<close>

definition is_ws :: "char \<Rightarrow> bool" where
  "is_ws c \<longleftrightarrow> c = CHR '' '' \<or> (let n = of_char c :: nat in 9 \<le> n \<and> n \<le> 13)"

definition trim :: "string \<Rightarrow> string" where
  "trim s = rev (dropWhile is_ws (rev (dropWhile is_ws s)))"

definition ascii_lower :: "char \<Rightarrow> char" where
  "ascii_lower c = (let n = of_char c :: nat in if 65 \<le> n \<and> n \<le> 90 then char_of (n + 32) else c)"

definition is_ascii_alphabetic :: "char \<Rightarrow> bool" where
  "is_ascii_alphabetic c \<longleftrightarrow> (let n = of_char c :: nat in 65 \<le> n \<and> n \<le> 90 \<or> 97 \<le> n \<and> n \<le> 122)"

text \<open>\<open>str::contains\<close> and \<open>str::find\<close> of a substring.\<close>

fun find_sub :: "'a list \<Rightarrow> 'a list \<Rightarrow> nat option" where
  "find_sub p [] = (if p = [] then Some 0 else None)"
| "find_sub p (x # xs) = (if starts_with p (x # xs) then Some 0 else map_option Suc (find_sub p xs))"

definition contains :: "'a list \<Rightarrow> 'a list \<Rightarrow> bool" where
  "contains p s \<longleftrightarrow> find_sub p s \<noteq> None"

section \<open>Lossy decoding and minima\<close>

text \<open>
  The next step of \<open>String::from_utf8_lossy\<close>: the length of a valid character, or of the longest
  prefix of one that is cut off, which the replacement character stands for.
\<close>

definition utf8_step :: "u8 \<Rightarrow> bytes \<Rightarrow> nat \<times> bool" where
  "utf8_step a bs =
     (let b = (case bs of b # _ \<Rightarrow> b | _ \<Rightarrow> 0); c = (case bs of _ # c # _ \<Rightarrow> c | _ \<Rightarrow> 0);
          d = (case bs of _ # _ # d # _ \<Rightarrow> d | _ \<Rightarrow> 0)
      in if a < 0x80 then (1, True)
         else if 0xC2 \<le> a \<and> a \<le> 0xDF then (if cont_byte b then (2, True) else (1, False))
         else if 0xE0 \<le> a \<and> a \<le> 0xEF then
           (if \<not> (if a = 0xE0 then 0xA0 \<le> b \<and> b \<le> 0xBF else if a = 0xED then 0x80 \<le> b \<and> b \<le> 0x9F else cont_byte b)
            then (1, False) else if \<not> cont_byte c then (2, False) else (3, True))
         else if 0xF0 \<le> a \<and> a \<le> 0xF4 then
           (if \<not> (if a = 0xF0 then 0x90 \<le> b \<and> b \<le> 0xBF else if a = 0xF4 then 0x80 \<le> b \<and> b \<le> 0x8F else cont_byte b)
            then (1, False) else if \<not> cont_byte c then (2, False) else if \<not> cont_byte d then (3, False) else (4, True))
         else (1, False))"

lemma utf8_step_pos: "0 < fst (utf8_step a bs)"
  by (simp add: utf8_step_def Let_def)

function from_utf8_lossy :: "bytes \<Rightarrow> string" where
  "from_utf8_lossy [] = []"
| "from_utf8_lossy (a # bs) =
     (let (n, ok) = utf8_step a bs
      in (if ok then chars_of (take n (a # bs)) else chars_of [0xEF, 0xBF, 0xBD]) @ from_utf8_lossy (drop (n - 1) bs))"
  by pat_completeness auto
termination
  by (relation "measure length") auto

text \<open>\<open>iter().min_by_key(f)\<close>: the first element of least key.\<close>

fun min_by_key :: "('a \<Rightarrow> 'b::linorder) \<Rightarrow> 'a list \<Rightarrow> 'a option" where
  "min_by_key f [] = None"
| "min_by_key f (x # xs) =
     (case min_by_key f xs of None \<Rightarrow> Some x | Some y \<Rightarrow> if f x \<le> f y then Some x else Some y)"

lemma min_by_key_None: "min_by_key f xs = None \<longleftrightarrow> xs = []"
  by (cases xs) (auto split: option.splits)

lemma min_by_key_Some: "min_by_key f xs = Some y \<Longrightarrow> y \<in> set xs \<and> (\<forall>x \<in> set xs. f y \<le> f x)"
  by (induction xs arbitrary: y) (fastforce split: option.splits if_splits simp: min_by_key_None)+

text \<open>\<open>join\<close> of a slice of strings.\<close>

fun join :: "'a list \<Rightarrow> 'a list list \<Rightarrow> 'a list" where
  "join sep [] = []"
| "join sep [x] = x"
| "join sep (x # y # ys) = x @ sep @ join sep (y # ys)"

end
