(* ===== verification/Core_Types.thy ===== *)
theory Core_Types
  imports Rust_Std
begin

text \<open>
  The basic data of the crate qvs-core (\<open>error.rs\<close>, \<open>constants.rs\<close>, \<open>types.rs\<close>): the error
  type, info hashes and node ids with their hexadecimal text form, addresses and peers, pieces
  and announce events. A \<open>[u8; 20]\<close> is a byte list; \<open>arr20\<close> is its
  type invariant.
\<close>

section \<open>Errors and constants\<close>

datatype qvod_error =
    Network string
  | Protocol string
  | MetadataParse
  | DhtTimeout
  | DhtRoutingFailed string
  | TrackerTimeout
  | TrackerProtocol string
  | ResourceNotFound bytes
  | NoPeers
  | NatFailed
  | CacheFull
  | CacheCorrupted string
  | UnsupportedFormat string
  | Decode string
  | InvalidUri string
  | Bencode string
  | PieceVerificationFailed u32 bytes bytes
  | ConnectionLimitReached
  | Timeout string
  | Cancelled
  | Server string

definition PIECE_LENGTH :: u64 where "PIECE_LENGTH = 262144"
definition BLOCK_LENGTH :: u64 where "BLOCK_LENGTH = 16384"
definition MAX_PEER_CONNECTIONS :: u32 where "MAX_PEER_CONNECTIONS = 50"
definition DEFAULT_PORT :: u16 where "DEFAULT_PORT = 8621"

section \<open>Info hashes and node ids\<close>

definition arr20 :: "bytes \<Rightarrow> bool" where
  "arr20 bs \<longleftrightarrow> length bs = 20"

datatype info_hash = InfoHash (ih_bytes: bytes)

datatype node_id = NodeId (nid_bytes: bytes)

text \<open>\<open>{b:02x}\<close>: two lower-case hexadecimal digits.\<close>

definition hex_char :: "nat \<Rightarrow> char" where
  "hex_char d = (if d < 10 then char_of (48 + d) else char_of (87 + d))"

definition hex_byte :: "u8 \<Rightarrow> string" where
  "hex_byte b = [hex_char (unat (drop_bit 4 b)), hex_char (unat (b AND 0x0F))]"

definition show_info_hash :: "info_hash \<Rightarrow> string" where
  "show_info_hash h = concat (map hex_byte (ih_bytes h))"

definition show_node_id :: "node_id \<Rightarrow> string" where
  "show_node_id n = concat (map hex_byte (nid_bytes n))"

text \<open>
  The loop of \<open>InfoHash::from_str\<close> over \<open>i\<close>: slices \<open>s[2i..2i+2]\<close> (a panic off a character
  boundary) and \<open>u8::from_str_radix(.., 16)\<close>. \<open>hex_decode\<close> of \<open>util.rs\<close> runs the same loop.
\<close>

fun hex_pairs :: "(parse_error \<Rightarrow> 'e) \<Rightarrow> string \<Rightarrow> nat list \<Rightarrow> (bytes, 'e) result" where
  "hex_pairs err s [] = Ok []"
| "hex_pairs err s (i # is) =
     and_then (str_slice (2 * i) (2 * i + 2) s) (\<lambda>p.
     and_then (map_err err (parse_uint 16 255 p)) (\<lambda>b.
     and_then (hex_pairs err s is) (\<lambda>bs. Ok (of_nat b # bs))))"

definition parse_info_hash :: "string \<Rightarrow> (info_hash, qvod_error) result" where
  "parse_info_hash s =
     (if length s \<noteq> 40 then Err (InvalidUri ''info_hash must be 40 hex characters'')
      else and_then (hex_pairs (\<lambda>e. InvalidUri (''hex decode: '' @ show_parse_error e)) s [0..<20])
             (\<lambda>bs. Ok (InfoHash bs)))"

definition xor_distance :: "node_id \<Rightarrow> node_id \<Rightarrow> bytes" where
  "xor_distance a b = map2 (XOR) (nid_bytes a) (nid_bytes b)"

text \<open>\<open>u8::leading_zeros\<close> and \<open>NodeId::leading_zeros\<close>, its loop over the bytes.\<close>

definition u8_leading_zeros :: "u8 \<Rightarrow> nat" where
  "u8_leading_zeros b = length (takeWhile (\<lambda>i. \<not> bit b i) (rev [0..<8]))"

fun bytes_leading_zeros :: "bytes \<Rightarrow> nat" where
  "bytes_leading_zeros [] = 0"
| "bytes_leading_zeros (b # bs) =
     (if b = 0 then 8 + bytes_leading_zeros bs else u8_leading_zeros b)"

definition node_leading_zeros :: "node_id \<Rightarrow> nat" where
  "node_leading_zeros n = bytes_leading_zeros (nid_bytes n)"

section \<open>Addresses and peers\<close>

datatype ip_addr = V4 bytes | V6 bytes

record socket_addr =
  sa_ip :: ip_addr
  sa_port :: u16

text \<open>A \<open>Duration\<close> is its number of nanoseconds.\<close>

record peer_info =
  pi_peer_id :: bytes
  pi_addr :: socket_addr
  pi_is_firewalled :: bool
  pi_bw_up :: u32
  pi_bw_down :: u32
  pi_location :: "string option"
  pi_latency :: nat

section \<open>Pieces, blocks and announce events\<close>

datatype piece_priority = Critical | High | Normal | Low

fun priority_rank :: "piece_priority \<Rightarrow> nat" where
  "priority_rank Critical = 0"
| "priority_rank High = 1"
| "priority_rank Normal = 2"
| "priority_rank Low = 3"

text \<open>The derived \<open>Ord\<close> of \<open>PiecePriority\<close>.\<close>

instantiation piece_priority :: linorder
begin

definition "p \<le> q \<longleftrightarrow> priority_rank p \<le> priority_rank q"
definition "p < q \<longleftrightarrow> priority_rank p < priority_rank q"

instance
proof
  fix p q :: piece_priority
  show "p \<le> q \<Longrightarrow> q \<le> p \<Longrightarrow> p = q"
    by (cases p; cases q) (simp_all add: less_eq_piece_priority_def)
qed (auto simp: less_eq_piece_priority_def less_piece_priority_def)

end

record piece_info =
  pc_index :: u32
  pc_hash :: bytes
  pc_priority :: piece_priority
  pc_length :: u64

record block_request =
  br_piece_index :: u32
  br_begin :: u32
  br_length :: u32

datatype announce_event = Started | Completed | Stopped | EmptyEvent

fun announce_event_str :: "announce_event \<Rightarrow> string" where
  "announce_event_str Started = ''started''"
| "announce_event_str Completed = ''completed''"
| "announce_event_str Stopped = ''stopped''"
| "announce_event_str EmptyEvent = ''empty''"

record swarm_status =
  sw_complete :: u32
  sw_incomplete :: u32
  sw_downloaded :: u32

text \<open>An \<open>Instant\<close> is its number of nanoseconds on the monotonic clock.\<close>

record kbucket_entry =
  kb_node_id :: node_id
  kb_addr :: socket_addr
  kb_last_seen :: nat
  kb_latency :: nat
  kb_is_firewalled :: bool

section \<open>Hexadecimal round trip\<close>

lemma of_char_hex_char:
  "d < 16 \<Longrightarrow> of_char (hex_char d) = (if d < 10 then 48 + d else 87 + d)"
  by (simp add: hex_char_def)

lemma to_digit_hex_char: "d < 16 \<Longrightarrow> to_digit 16 (hex_char d) = Some d"
  by (auto simp: to_digit_def of_char_hex_char)

lemma hex_char_ascii: "d < 16 \<Longrightarrow> \<not> cont_byte (char_byte (hex_char d))"
  by (auto simp: cont_byte_def word_le_nat_alt unat_char_byte of_char_hex_char)

lemma hex_char_no_sign: "d < 16 \<Longrightarrow> hex_char d \<noteq> CHR ''+'' \<and> hex_char d \<noteq> CHR ''-''"
  using of_char_hex_char [of d] by (auto split: if_splits)

lemma nibbles:
  "unat (drop_bit 4 (b :: u8)) < 16" "unat (b AND 0x0F) < 16"
  "unat (drop_bit 4 b) * 16 + unat (b AND 0x0F) = unat b"
proof -
  have hi: "unat (drop_bit 4 b) = unat b div 16"
    by (simp add: drop_bit_eq_div unat_div_distrib)
  have "b AND 0x0F = take_bit 4 b"
    by (simp add: take_bit_eq_mask mask_numeral)
  then have lo: "unat (b AND 0x0F) = unat b mod 16"
    by (simp add: take_bit_eq_mod unat_mod_distrib)
  have "unat b < 2 ^ LENGTH(8)" by (rule unsigned_less)
  then have "unat b < 256" by simp
  with hi lo show "unat (drop_bit 4 b) < 16" and "unat (b AND 0x0F) < 16"
    and "unat (drop_bit 4 b) * 16 + unat (b AND 0x0F) = unat b"
    by (auto simp: less_mult_imp_div_less)
qed

lemma parse_hex_byte [codec]: "parse_uint 16 255 (hex_byte b) = Ok (unat b)"
proof -
  have "unat b < 2 ^ LENGTH(8)" by (rule unsigned_less)
  with nibbles [of b] show ?thesis
    by (simp add: parse_uint_def hex_byte_def to_digit_hex_char hex_char_no_sign)
qed

lemma length_concat_hex [shape]: "length (concat (map hex_byte bs)) = 2 * length bs"
  by (induction bs) (simp_all add: hex_byte_def)

lemma concat_hex_no_cont: "c \<in> set (concat (map hex_byte bs)) \<Longrightarrow> \<not> cont_byte (char_byte c)"
  by (auto simp: hex_byte_def hex_char_ascii nibbles(1,2))

lemma hex_pairs_concat:
  fixes err :: "parse_error \<Rightarrow> 'e"
  assumes "length pre = 2 * k" and "\<forall>c \<in> set pre. \<not> cont_byte (char_byte c)"
  shows "hex_pairs err (pre @ concat (map hex_byte bs)) [k..<k + length bs] = Ok bs"
  using assms
proof (induction bs arbitrary: pre k)
  case Nil
  then show ?case by simp
next
  case (Cons b bs)
  define s where "s = pre @ concat (map hex_byte (b # bs))"
  have ascii: "c \<in> set s \<Longrightarrow> \<not> cont_byte (char_byte c)" for c
    using Cons.prems(2) concat_hex_no_cont [of c "b # bs"] by (auto simp: s_def)
  have len: "length s = 2 * k + 2 + 2 * length bs"
    using Cons.prems(1) by (simp add: s_def length_concat_hex hex_byte_def)
  have "is_char_boundary s i" if "i \<le> length s" for i
    using that ascii nth_mem [of i s] by (auto simp: is_char_boundary_def)
  moreover have "subslice (2 * k) (2 * k + 2) s = hex_byte b"
    using Cons.prems(1) by (simp add: s_def subslice_def hex_byte_def)
  ultimately have sl: "str_slice (2 * k) (2 * k + 2) s = (Ok (hex_byte b) :: (string, 'e) result)"
    by (simp add: str_slice_def len)
  have "hex_pairs err ((pre @ hex_byte b) @ concat (map hex_byte bs)) [Suc k..<Suc k + length bs] = Ok bs"
    using Cons.prems concat_hex_no_cont [of _ "[b]"] by (intro Cons.IH) (auto simp: hex_byte_def)
  then have "hex_pairs err s [Suc k..<Suc k + length bs] = Ok bs"
    by (simp add: s_def)
  moreover have "[k..<k + length (b # bs)] = k # [Suc k..<Suc k + length bs]"
    by (subst upt_conv_Cons) (simp_all del: upt_Suc)
  ultimately have "hex_pairs err s [k..<k + length (b # bs)] = Ok (b # bs)"
    using sl by (simp add: parse_hex_byte del: upt_Suc)
  then show ?case by (simp only: s_def)
qed

lemma hex_pairs_all [codec]:
  "length bs = n \<Longrightarrow> hex_pairs err (concat (map hex_byte bs)) [0..<n] = Ok bs"
  using hex_pairs_concat [of "[]" 0 err bs] by simp

lemma hex_pairs_length: "hex_pairs err s is = Ok bs \<Longrightarrow> length bs = length is"
  by (induction err s "is" arbitrary: bs rule: hex_pairs.induct) (auto simp: and_then_Ok_iff)

lemma parse_show_info_hash [codec]: "arr20 (ih_bytes h) \<Longrightarrow> parse_info_hash (show_info_hash h) = Ok h"
  by (cases h) (simp add: hex_pairs_all parse_info_hash_def show_info_hash_def length_concat_hex arr20_def)

lemma show_info_hash_inj: "arr20 (ih_bytes h) \<Longrightarrow> arr20 (ih_bytes k) \<Longrightarrow> show_info_hash h = show_info_hash k \<Longrightarrow> h = k"
  by (metis parse_show_info_hash result.inject(1))

lemma parse_info_hash_arr20: "parse_info_hash s = Ok h \<Longrightarrow> arr20 (ih_bytes h)"
  by (auto simp: parse_info_hash_def arr20_def and_then_Ok_iff dest: hex_pairs_length split: if_splits)

lemma parse_info_hash_sign: "parse_info_hash (concat (replicate 20 ''+a'')) = Ok (InfoHash (replicate 20 10))"
  by code_simp

section \<open>The text of errors\<close>

definition utf8_text :: "nat list \<Rightarrow> string" where
  "utf8_text bs = map char_of bs"

fun show_error :: "qvod_error \<Rightarrow> string" where
  "show_error (Network s) = utf8_text [0xE7, 0xBD, 0x91, 0xE7, 0xBB, 0x9C, 0xE9, 0x94, 0x99, 0xE8, 0xAF, 0xAF] @ '': '' @ s"
| "show_error (Protocol s) = utf8_text [0xE5, 0x8D, 0x8F, 0xE8, 0xAE, 0xAE, 0xE9, 0x94, 0x99, 0xE8, 0xAF, 0xAF] @ '': '' @ s"
| "show_error MetadataParse = utf8_text [0xE5, 0x85, 0x83, 0xE6, 0x95, 0xB0, 0xE6, 0x8D, 0xAE, 0xE8, 0xA7, 0xA3, 0xE6, 0x9E, 0x90, 0xE5, 0xA4, 0xB1, 0xE8, 0xB4, 0xA5]"
| "show_error DhtTimeout = utf8_text [0x44, 0x48, 0x54, 0x20, 0xE8, 0xB6, 0x85, 0xE6, 0x97, 0xB6]"
| "show_error (DhtRoutingFailed s) = utf8_text [0x44, 0x48, 0x54, 0x20, 0xE8, 0xB7, 0xAF, 0xE7, 0x94, 0xB1, 0xE5, 0xA4, 0xB1, 0xE8, 0xB4, 0xA5] @ '': '' @ s"
| "show_error TrackerTimeout = utf8_text [0x54, 0x72, 0x61, 0x63, 0x6B, 0x65, 0x72, 0x20, 0xE8, 0xBF, 0x9E, 0xE6, 0x8E, 0xA5, 0xE8, 0xB6, 0x85, 0xE6, 0x97, 0xB6]"
| "show_error (TrackerProtocol s) = utf8_text [0x54, 0x72, 0x61, 0x63, 0x6B, 0x65, 0x72, 0x20, 0xE5, 0x8D, 0x8F, 0xE8, 0xAE, 0xAE, 0xE9, 0x94, 0x99, 0xE8, 0xAF, 0xAF] @ '': '' @ s"
| "show_error (ResourceNotFound h) = utf8_text [0xE8, 0xB5, 0x84, 0xE6, 0xBA, 0x90, 0xE4, 0xB8, 0x8D, 0xE5, 0xAD, 0x98, 0xE5, 0x9C, 0xA8] @ '': '' @ show_info_hash (InfoHash h)"
| "show_error NoPeers = utf8_text [0xE6, 0xB2, 0xA1, 0xE6, 0x9C, 0x89, 0xE5, 0x8F, 0xAF, 0xE7, 0x94, 0xA8, 0xE7, 0x9A, 0x84, 0x20, 0x70, 0x65, 0x65, 0x72]"
| "show_error NatFailed = utf8_text [0x4E, 0x41, 0x54, 0x20, 0xE7, 0xA9, 0xBF, 0xE9, 0x80, 0x8F, 0xE5, 0xA4, 0xB1, 0xE8, 0xB4, 0xA5]"
| "show_error CacheFull = utf8_text [0xE7, 0xBC, 0x93, 0xE5, 0xAD, 0x98, 0xE7, 0xA9, 0xBA, 0xE9, 0x97, 0xB4, 0xE4, 0xB8, 0x8D, 0xE8, 0xB6, 0xB3]"
| "show_error (CacheCorrupted s) = utf8_text [0xE7, 0xBC, 0x93, 0xE5, 0xAD, 0x98, 0xE6, 0x8D, 0x9F, 0xE5, 0x9D, 0x8F] @ '': '' @ s"
| "show_error (UnsupportedFormat s) = utf8_text [0xE4, 0xB8, 0x8D, 0xE6, 0x94, 0xAF, 0xE6, 0x8C, 0x81, 0xE7, 0x9A, 0x84, 0xE6, 0xA0, 0xBC, 0xE5, 0xBC, 0x8F] @ '': '' @ s"
| "show_error (Decode s) = utf8_text [0xE8, 0xA7, 0xA3, 0xE7, 0xA0, 0x81, 0xE9, 0x94, 0x99, 0xE8, 0xAF, 0xAF] @ '': '' @ s"
| "show_error (InvalidUri s) = utf8_text [0xE6, 0x97, 0xA0, 0xE6, 0x95, 0x88, 0x20, 0x55, 0x52, 0x49] @ '': '' @ s"
| "show_error (Bencode s) = utf8_text [0x42, 0x65, 0x6E, 0x63, 0x6F, 0x64, 0x65, 0x20, 0xE9, 0x94, 0x99, 0xE8, 0xAF, 0xAF] @ '': '' @ s"
| "show_error (PieceVerificationFailed index expected got) = utf8_text [0x50, 0x69, 0x65, 0x63, 0x65, 0x20, 0xE6, 0xA0, 0xA1, 0xE9, 0xAA, 0x8C, 0xE5, 0xA4, 0xB1, 0xE8, 0xB4, 0xA5] @ '' index='' @ show_nat (unat index)"
| "show_error ConnectionLimitReached = utf8_text [0xE8, 0xBE, 0xBE, 0xE5, 0x88, 0xB0, 0xE6, 0x9C, 0x80, 0xE5, 0xA4, 0xA7, 0xE8, 0xBF, 0x9E, 0xE6, 0x8E, 0xA5, 0xE6, 0x95, 0xB0]"
| "show_error (Timeout s) = utf8_text [0xE8, 0xB6, 0x85, 0xE6, 0x97, 0xB6] @ '': '' @ s"
| "show_error Cancelled = utf8_text [0xE6, 0x93, 0x8D, 0xE4, 0xBD, 0x9C, 0xE5, 0xB7, 0xB2, 0xE5, 0x8F, 0x96, 0xE6, 0xB6, 0x88]"
| "show_error (Server s) = utf8_text [0xE6, 0x9C, 0x8D, 0xE5, 0x8A, 0xA1, 0xE5, 0x99, 0xA8, 0xE9, 0x94, 0x99, 0xE8, 0xAF, 0xAF] @ '': '' @ s"

end
