(* ===== verification/Float64.thy ===== *)
theory Float64
  imports Prelude "HOL-Library.Log_Nat"
begin

text \<open>
  \<open>f64\<close>: a finite value is the rational it stands for. An operation is the exact one followed by
  rounding to the nearest value, ties to even. Infinities and NaN are not in the model: the
  components that use it prove the bounds that exclude them.
\<close>

type_synonym f64 = rat

section \<open>Rounding to an integer\<close>

definition round_even :: "rat \<Rightarrow> int" where
  "round_even x =
     (let f = \<lfloor>x\<rfloor>; r = x - of_int f
      in if r < 1 / 2 then f else if 1 / 2 < r then f + 1 else if even f then f else f + 1)"

lemma round_even_int [simp]: "round_even (of_int n) = n"
  by (simp add: round_even_def)

lemma round_even_cases: "round_even x = \<lfloor>x\<rfloor> \<or> round_even x = \<lfloor>x\<rfloor> + 1"
  by (simp add: round_even_def Let_def)

lemma round_even_mono: "x \<le> y \<Longrightarrow> round_even x \<le> round_even y"
proof -
  assume le: "x \<le> y"
  then have "\<lfloor>x\<rfloor> \<le> \<lfloor>y\<rfloor>" by (rule floor_mono)
  then consider "\<lfloor>x\<rfloor> < \<lfloor>y\<rfloor>" | "\<lfloor>x\<rfloor> = \<lfloor>y\<rfloor>" by linarith
  then show ?thesis
  proof cases
    case 1
    then show ?thesis using round_even_cases [of x] round_even_cases [of y] by linarith
  next
    case 2
    with le show ?thesis by (auto simp: round_even_def Let_def)
  qed
qed

section \<open>The binary exponent\<close>

definition exponent2 :: "rat \<Rightarrow> int" where
  "exponent2 q =
     (let (n, d) = quotient_of q;
          k = int (floorlog 2 (nat n)) - int (floorlog 2 (nat d))
      in if 2 powi k \<le> q then k else k - 1)"

lemma exponent2_unique:
  assumes "2 powi i \<le> (q::rat)" "q < 2 powi (i + 1)" "2 powi j \<le> q" "q < 2 powi (j + 1)"
  shows "i = j"
proof (rule ccontr)
  assume "i \<noteq> j"
  then consider "i + 1 \<le> j" | "j + 1 \<le> i" by linarith
  then show False
  proof cases
    case 1
    then have "(2::rat) powi (i + 1) \<le> 2 powi j" by (intro power_int_increasing) auto
    with assms show False by linarith
  next
    case 2
    then have "(2::rat) powi (j + 1) \<le> 2 powi i" by (intro power_int_increasing) auto
    with assms show False by linarith
  qed
qed

lemma exponent2_bounds:
  assumes "0 < q"
  shows "2 powi exponent2 q \<le> q \<and> q < 2 powi (exponent2 q + 1)"
proof -
  obtain n d where nd: "quotient_of q = (n, d)" by fastforce
  then have d: "0 < d" and q: "q = of_int n / of_int d"
    by (auto simp: quotient_of_denom_pos quotient_of_div)
  with assms have n: "0 < n" by (simp add: zero_less_divide_iff)
  let ?a = "floorlog 2 (nat n)" and ?b = "floorlog 2 (nat d)"
  have na: "2 ^ (?a - 1) \<le> nat n" "nat n < 2 ^ ?a" and db: "2 ^ (?b - 1) \<le> nat d" "nat d < 2 ^ ?b"
    using floorlog_bounds [of "nat n" 2] floorlog_bounds [of "nat d" 2] n d by auto
  have ab: "0 < ?a" "0 < ?b" using n d by (simp_all add: floorlog_def)
  have N: "2 powi (int ?a - 1) \<le> (of_int n :: rat)" "(of_int n :: rat) < 2 powi int ?a"
  proof -
    have "int ?a - 1 = int (?a - 1)" using ab by linarith
    moreover have "(2::rat) ^ (?a - 1) = of_nat (2 ^ (?a - 1))" "(2::rat) ^ ?a = of_nat (2 ^ ?a)" by simp_all
    moreover have "(of_int n :: rat) = of_nat (nat n)" using n by simp
    ultimately show "2 powi (int ?a - 1) \<le> (of_int n :: rat)" "(of_int n :: rat) < 2 powi int ?a"
      using na by (simp_all only: power_int_of_nat of_nat_le_iff of_nat_less_iff)
  qed
  have D: "2 powi (int ?b - 1) \<le> (of_int d :: rat)" "(of_int d :: rat) < 2 powi int ?b"
  proof -
    have "int ?b - 1 = int (?b - 1)" using ab by linarith
    moreover have "(2::rat) ^ (?b - 1) = of_nat (2 ^ (?b - 1))" "(2::rat) ^ ?b = of_nat (2 ^ ?b)" by simp_all
    moreover have "(of_int d :: rat) = of_nat (nat d)" using d by simp
    ultimately show "2 powi (int ?b - 1) \<le> (of_int d :: rat)" "(of_int d :: rat) < 2 powi int ?b"
      using db by (simp_all only: power_int_of_nat of_nat_le_iff of_nat_less_iff)
  qed
  let ?k = "int ?a - int ?b"
  have up: "q < 2 powi (?k + 1)"
  proof -
    have "2 powi (?k + 1) * (2::rat) powi (int ?b - 1) = 2 powi int ?a"
      by (subst power_int_add [symmetric]) auto
    moreover have "(2::rat) powi (?k + 1) * 2 powi (int ?b - 1) \<le> 2 powi (?k + 1) * of_int d"
      using D(1) by (intro mult_left_mono) auto
    ultimately have "of_int n < (2::rat) powi (?k + 1) * of_int d" using N(2) by linarith
    then show ?thesis using d by (simp add: q divide_less_eq mult.commute)
  qed
  have lo: "2 powi (?k - 1) \<le> q"
  proof -
    have "2 powi (?k - 1) * (2::rat) powi int ?b = 2 powi (int ?a - 1)"
      by (subst power_int_add [symmetric]) auto
    moreover have "(2::rat) powi (?k - 1) * of_int d \<le> 2 powi (?k - 1) * 2 powi int ?b"
      using D(2) by (intro mult_left_mono) auto
    ultimately have "(2::rat) powi (?k - 1) * of_int d \<le> of_int n" using N(1) by linarith
    then show ?thesis using d by (simp add: q le_divide_eq mult.commute)
  qed
  show ?thesis using up lo by (auto simp: exponent2_def nd Let_def not_le)
qed

lemma exponent2_eq: "2 powi i \<le> q \<Longrightarrow> q < 2 powi (i + 1) \<Longrightarrow> exponent2 q = i"
  using exponent2_bounds [of q] exponent2_unique [of i q "exponent2 q"]
  by (metis less_le_trans zero_less_numeral zero_less_power_int)

section \<open>Rounding to the bits of the significand\<close>

text \<open>
  A format has \<open>p + 1\<close> bits of significand. The exponent of the last bit is \<open>p\<close> below that of the value;
  subnormal values share the smallest, \<open>m\<close>.
\<close>

definition ulp_exponent :: "nat \<Rightarrow> int \<Rightarrow> rat \<Rightarrow> int" where
  "ulp_exponent p m q = max (exponent2 q - int p) m"

definition round_pos :: "nat \<Rightarrow> int \<Rightarrow> rat \<Rightarrow> rat" where
  "round_pos p m q = of_int (round_even (q / 2 powi ulp_exponent p m q)) * 2 powi ulp_exponent p m q"

definition round_float :: "nat \<Rightarrow> int \<Rightarrow> rat \<Rightarrow> rat" where
  "round_float p m q = (if q = 0 then 0 else if 0 < q then round_pos p m q else - round_pos p m (- q))"

definition f64_round :: "rat \<Rightarrow> f64" where
  "f64_round q = round_float 52 (- 1074) q"

definition f64_add :: "f64 \<Rightarrow> f64 \<Rightarrow> f64" where "f64_add x y = f64_round (x + y)"
definition f64_sub :: "f64 \<Rightarrow> f64 \<Rightarrow> f64" where "f64_sub x y = f64_round (x - y)"
definition f64_mul :: "f64 \<Rightarrow> f64 \<Rightarrow> f64" where "f64_mul x y = f64_round (x * y)"

text \<open>Division by a value other than 0.\<close>

definition f64_div :: "f64 \<Rightarrow> f64 \<Rightarrow> f64" where "f64_div x y = f64_round (x / y)"

text \<open>The casts from and to the unsigned integers (\<open>as\<close> truncates and saturates).\<close>

definition f64_of_nat :: "nat \<Rightarrow> f64" where "f64_of_nat n = f64_round (of_nat n)"

definition f64_to_u32 :: "f64 \<Rightarrow> u32" where
  "f64_to_u32 x = of_int (min (max \<lfloor>x\<rfloor> 0) (2 ^ 32 - 1))"

definition f64_to_u64 :: "f64 \<Rightarrow> u64" where
  "f64_to_u64 x = of_int (min (max \<lfloor>x\<rfloor> 0) (2 ^ 64 - 1))"

lemma round_pos_pos: "0 < q \<Longrightarrow> 0 \<le> round_pos p m q"
  using round_even_mono [of 0 "q / 2 powi ulp_exponent p m q"] round_even_int [of 0]
  by (simp add: round_pos_def)

text \<open>A value with an exponent no smaller than that of the last bit is exact.\<close>

lemma round_pos_exact:
  assumes "q = of_int n * 2 powi e" and "ulp_exponent p m q \<le> e"
  shows "round_pos p m q = q"
proof -
  let ?u = "ulp_exponent p m q"
  have "q / 2 powi ?u = of_int n * 2 powi (e - ?u)"
    by (subst (1) assms(1)) (simp add: power_int_diff)
  also have "\<dots> = of_int (n * 2 ^ nat (e - ?u))"
    using assms(2) by (simp add: power_int_def)
  finally have "round_even (q / 2 powi ?u) = n * 2 ^ nat (e - ?u)" by (simp only: round_even_int)
  moreover have "of_int (n * 2 ^ nat (e - ?u)) * 2 powi ?u = of_int n * ((2::rat) powi (e - ?u) * 2 powi ?u)"
    using assms(2) by (simp add: power_int_def [of _ "e - ?u"])
  then have "of_int (n * 2 ^ nat (e - ?u)) * 2 powi ?u = q"
    by (subst (asm) power_int_add [symmetric]) (auto simp: assms(1) [symmetric])
  ultimately show ?thesis by (simp only: round_pos_def)
qed

lemma power_exact: "m \<le> i \<Longrightarrow> round_pos p m (2 powi i) = 2 powi i"
  using exponent2_eq [of i "2 powi i"] power_int_strict_increasing [of i "i + 1" "2::rat"]
  by (intro round_pos_exact [of _ 1 i]) (simp_all add: ulp_exponent_def)

lemma round_float_int:
  assumes "\<bar>n\<bar> \<le> 2 ^ (p + 1)" and "m \<le> 0"
  shows "round_float p m (of_int n) = of_int n"
proof -
  have *: "round_pos p m (of_int k) = of_int k" if k: "0 < k" "k \<le> 2 ^ (p + 1)" for k :: int
  proof (cases "k = 2 ^ (p + 1)")
    case True
    then have "(of_int k :: rat) = 2 powi int (p + 1)" by (simp only: power_int_of_nat of_int_power of_int_numeral)
    then show ?thesis using power_exact [of m "int (p + 1)" p] assms(2) by simp
  next
    case False
    have "exponent2 (of_int k) < int (p + 1)"
    proof (rule ccontr)
      assume "\<not> exponent2 (of_int k) < int (p + 1)"
      then have "(2::rat) powi int (p + 1) \<le> 2 powi exponent2 (of_int k)" by (intro power_int_increasing) auto
      also have "\<dots> \<le> of_int k" using exponent2_bounds [of "of_int k"] k by simp
      finally have "(of_int (2 ^ (p + 1)) :: rat) \<le> of_int k" by (simp only: power_int_of_nat of_int_power of_int_numeral)
      then have "2 ^ (p + 1) \<le> k" by (simp only: of_int_le_iff)
      with k False show False by simp
    qed
    then show ?thesis using assms(2) by (intro round_pos_exact [of _ k 0]) (simp_all add: ulp_exponent_def)
  qed
  show ?thesis using assms(1) * [of n] * [of "- n"] by (auto simp: round_float_def)
qed

lemma round_pos_mono:
  assumes "0 < x" "x \<le> y"
  shows "round_pos p m x \<le> round_pos p m y"
proof (cases "ulp_exponent p m x = ulp_exponent p m y")
  case True
  have "x / 2 powi ulp_exponent p m y \<le> y / 2 powi ulp_exponent p m y"
    using assms by (intro divide_right_mono) auto
  from round_even_mono [OF this] True show ?thesis
    by (simp add: round_pos_def mult_right_mono)
next
  case False
  have "exponent2 x \<le> exponent2 y"
  proof (rule ccontr)
    assume "\<not> exponent2 x \<le> exponent2 y"
    then have "(2::rat) powi (exponent2 y + 1) \<le> 2 powi exponent2 x" by (intro power_int_increasing) auto
    then show False using exponent2_bounds [of x] exponent2_bounds [of y] assms by linarith
  qed
  with False have e: "exponent2 x + 1 \<le> exponent2 y" "ulp_exponent p m y = exponent2 y - int p"
    "m \<le> exponent2 y - int p" "ulp_exponent p m x \<le> exponent2 y"
    by (auto simp: ulp_exponent_def max_def split: if_splits)
  let ?u = "ulp_exponent p m x" and ?v = "ulp_exponent p m y"
  have "x < 2 powi exponent2 y"
  proof -
    have "(2::rat) powi (exponent2 x + 1) \<le> 2 powi exponent2 y" using e by (intro power_int_increasing) auto
    then show ?thesis using exponent2_bounds [of x] assms by linarith
  qed
  then have "x / 2 powi ?u \<le> 2 powi exponent2 y / 2 powi ?u" by (intro divide_right_mono) auto
  also have "\<dots> = of_int (2 ^ nat (exponent2 y - ?u))"
    using e by (simp add: power_int_def [of _ "exponent2 y - ?u"] flip: power_int_diff)
  finally have "round_even (x / 2 powi ?u) \<le> 2 ^ nat (exponent2 y - ?u)"
    using round_even_mono round_even_int by metis
  then have "of_int (round_even (x / 2 powi ?u)) \<le> (2::rat) powi (exponent2 y - ?u)"
    using e by (simp add: power_int_def)
  then have "round_pos p m x \<le> 2 powi (exponent2 y - ?u) * 2 powi ?u"
    unfolding round_pos_def by (intro mult_right_mono) auto
  also have "\<dots> = 2 powi exponent2 y" by (subst power_int_add [symmetric]) auto
  also have "\<dots> \<le> round_pos p m y"
  proof -
    have "2 powi exponent2 y / 2 powi ?v \<le> y / 2 powi ?v"
      using exponent2_bounds [of y] assms by (intro divide_right_mono) auto
    moreover have "2 powi exponent2 y / (2::rat) powi ?v = of_int (2 ^ p)"
      using e by (simp flip: power_int_diff)
    ultimately have "2 ^ p \<le> round_even (y / 2 powi ?v)"
      using round_even_mono round_even_int by metis
    then have "(2::rat) ^ p \<le> of_int (round_even (y / 2 powi ?v))"
      by (metis of_int_le_iff of_int_numeral of_int_power)
    then have "(2::rat) ^ p * 2 powi ?v \<le> round_pos p m y"
      unfolding round_pos_def by (intro mult_right_mono) auto
    moreover have "(2::rat) ^ p * 2 powi ?v = 2 powi exponent2 y"
    proof -
      have "(2::rat) powi exponent2 y = 2 powi (int p + ?v)" using e(2) by simp
      also have "\<dots> = 2 powi int p * 2 powi ?v" by (rule power_int_add) simp
      finally show ?thesis by simp
    qed
    ultimately show ?thesis by simp
  qed
  finally show ?thesis .
qed

lemma round_float_mono:
  assumes "x \<le> y"
  shows "round_float p m x \<le> round_float p m y"
proof -
  consider "0 < x" | "x \<le> 0" "0 \<le> y" | "y < 0" by linarith
  then show ?thesis
  proof cases
    case 1
    then show ?thesis using assms round_pos_mono [of x y p m] by (simp add: round_float_def)
  next
    case 2
    have "round_float p m x \<le> 0" "0 \<le> round_float p m y"
      using round_pos_pos [of y p m] round_pos_pos [of "- x" p m] 2 by (auto simp: round_float_def)
    then show ?thesis by simp
  next
    case 3
    then show ?thesis using assms round_pos_mono [of "- y" "- x" p m] by (simp add: round_float_def)
  qed
qed

lemma f64_round_int: "\<bar>n\<bar> \<le> 2 ^ 53 \<Longrightarrow> f64_round (of_int n) = of_int n"
  using round_float_int [of n 52] by (simp add: f64_round_def)

lemma f64_round_mono: "x \<le> y \<Longrightarrow> f64_round x \<le> f64_round y"
  unfolding f64_round_def by (rule round_float_mono)

lemma f64_round_ge: "of_int n \<le> x \<Longrightarrow> \<bar>n\<bar> \<le> 2 ^ 53 \<Longrightarrow> of_int n \<le> f64_round x"
  using f64_round_mono [of "of_int n" x] by (simp add: f64_round_int)

lemma f64_round_le: "x \<le> of_int n \<Longrightarrow> \<bar>n\<bar> \<le> 2 ^ 53 \<Longrightarrow> f64_round x \<le> of_int n"
  using f64_round_mono [of x "of_int n"] by (simp add: f64_round_int)

lemma f64_of_nat_exact: "n \<le> 2 ^ 53 \<Longrightarrow> f64_of_nat n = of_nat n"
  using f64_round_int [of "int n"] by (simp add: f64_of_nat_def)

text \<open>The error of a rounding is at most half a unit in the last place.\<close>

lemma round_even_dist: "\<bar>of_int (round_even x) - x\<bar> \<le> 1 / 2"
proof -
  have "of_int \<lfloor>x\<rfloor> \<le> x" "x < of_int \<lfloor>x\<rfloor> + 1" by (rule of_int_floor_le, linarith)
  then show ?thesis by (auto simp: round_even_def Let_def abs_le_iff)
qed

lemma round_pos_dist:
  assumes "0 < q" and "q < 2 powi k" and "m \<le> k - 1 - int p"
  shows "\<bar>round_pos p m q - q\<bar> \<le> 2 powi (k - 2 - int p)"
proof -
  let ?u = "ulp_exponent p m q"
  have "exponent2 q < k"
  proof (rule ccontr)
    assume "\<not> exponent2 q < k"
    then have "(2::rat) powi k \<le> 2 powi exponent2 q" by (intro power_int_increasing) auto
    then show False using exponent2_bounds [OF assms(1)] assms(2) by linarith
  qed
  then have u: "?u \<le> k - 1 - int p" using assms(3) by (simp add: ulp_exponent_def)
  have "round_pos p m q - q = (of_int (round_even (q / 2 powi ?u)) - q / 2 powi ?u) * 2 powi ?u"
    by (simp add: round_pos_def left_diff_distrib)
  then have "\<bar>round_pos p m q - q\<bar> = \<bar>of_int (round_even (q / 2 powi ?u)) - q / 2 powi ?u\<bar> * 2 powi ?u"
    by (simp add: abs_mult)
  also have "\<dots> \<le> 1 / 2 * 2 powi ?u" using round_even_dist by (intro mult_right_mono) auto
  also have "\<dots> = 2 powi (?u - 1)" by (simp add: power_int_diff)
  also have "\<dots> \<le> 2 powi (k - 2 - int p)" using u by (intro power_int_increasing) auto
  finally show ?thesis .
qed

lemma f64_round_dist:
  assumes "0 \<le> q" and "q < 2 ^ k"
  shows "\<bar>f64_round q - q\<bar> \<le> 2 powi (int k - 54)"
proof (cases "q = 0")
  case False
  then show ?thesis using round_pos_dist [of q "int k" "- 1074" 52] assms by (simp add: f64_round_def round_float_def)
qed (simp add: f64_round_def round_float_def)

text \<open>Evaluation of a normal result, given its significand and exponent.\<close>

lemma round_even_eq:
  assumes "\<bar>x - of_int n\<bar> < 1 / 2"
  shows "round_even x = n"
proof -
  from assms consider "\<lfloor>x\<rfloor> = n" | "\<lfloor>x\<rfloor> = n - 1" by linarith
  then show ?thesis
  proof cases
    case 1
    with assms show ?thesis by (auto simp: round_even_def Let_def abs_less_iff)
  next
    case 2
    from assms have "1 / 2 < x - of_int (n - 1)" unfolding abs_less_iff of_int_diff by linarith
    with 2 show ?thesis by (simp add: round_even_def)
  qed
qed

lemma round_float_eval:
  assumes "2 powi e \<le> q" and "q < 2 powi (e + 1)" and "m \<le> e - int p" and "\<bar>q / 2 powi (e - int p) - of_int n\<bar> < 1 / 2"
  shows "round_float p m q = of_int n * 2 powi (e - int p)"
proof -
  have "0 < q" using assms(1) zero_less_power_int [of "2::rat" e] by linarith
  then show ?thesis using assms(3) exponent2_eq [OF assms(1,2)] round_even_eq [OF assms(4)]
    by (simp add: round_float_def round_pos_def ulp_exponent_def)
qed

lemma f64_round_eval:
  assumes "2 powi e \<le> q" and "q < 2 powi (e + 1)" and "- 1022 \<le> e" and "\<bar>q / 2 powi (e - 52) - of_int m\<bar> < 1 / 2"
  shows "f64_round q = of_int m * 2 powi (e - 52)"
  using round_float_eval [of e q "- 1074" 52 m] assms by (simp add: f64_round_def)

lemma f64_third: "f64_div 1 3 = 6004799503160661 / 2 ^ 54"
  using f64_round_eval [of "- 2" "1 / 3" 6004799503160661]
  by (simp add: f64_div_def power_int_def power_divide)

end
