(* ===== verification/Bitfield.thy ===== *)
theory Bitfield
  imports Core_Types Float64
begin

text \<open>
  The piece bitfield of \<open>types.rs\<close>: one bit per piece, most significant bit first. The lemmas
  are the get/set laws, the invariant that the padding bits stay clear, and that under it
  \<open>count\<close> is the number of pieces present.
\<close>

section \<open>The piece bitfield\<close>

record bitfield =
  bf_bytes :: bytes
  bf_num_pieces :: u32

definition bitfield_new :: "u32 \<Rightarrow> bitfield" where
  "bitfield_new n = \<lparr>bf_bytes = replicate ((unat n + 7) div 8) 0, bf_num_pieces = n\<rparr>"

definition bitfield_from_bytes :: "bytes \<Rightarrow> u32 \<Rightarrow> bitfield" where
  "bitfield_from_bytes bs n = \<lparr>bf_bytes = bs, bf_num_pieces = n\<rparr>"

definition bf_has :: "bitfield \<Rightarrow> u32 \<Rightarrow> bool" where
  "bf_has bf i =
     (if bf_num_pieces bf \<le> i then False
      else let byte_index = unat (i div 8); bit_offset = unat (i mod 8)
           in if length (bf_bytes bf) \<le> byte_index then False
              else bf_bytes bf ! byte_index AND push_bit (7 - bit_offset) 1 \<noteq> 0)"

definition bf_set :: "bitfield \<Rightarrow> u32 \<Rightarrow> bool \<Rightarrow> bitfield" where
  "bf_set bf i v =
     (if bf_num_pieces bf \<le> i then bf
      else let byte_index = unat (i div 8); bit_offset = unat (i mod 8)
           in if length (bf_bytes bf) \<le> byte_index then bf
              else let b = bf_bytes bf ! byte_index; m = push_bit (7 - bit_offset) 1
                   in bf\<lparr>bf_bytes := (bf_bytes bf)[byte_index := if v then b OR m else b AND NOT m]\<rparr>)"

definition bf_set_all :: "bitfield \<Rightarrow> bool \<Rightarrow> bitfield" where
  "bf_set_all bf v = bf\<lparr>bf_bytes := map (\<lambda>_. if v then 0xFF else 0) (bf_bytes bf)\<rparr>"

definition count_ones :: "u8 \<Rightarrow> nat" where
  "count_ones b = length (filter (bit b) [0..<8])"

definition bf_count :: "bitfield \<Rightarrow> u32" where
  "bf_count bf = min (of_nat (sum_list (map count_ones (bf_bytes bf)))) (bf_num_pieces bf)"

definition bf_is_empty :: "bitfield \<Rightarrow> bool" where
  "bf_is_empty bf \<longleftrightarrow> bf_count bf = 0"

definition bf_completion :: "bitfield \<Rightarrow> f64" where
  "bf_completion bf =
     (if bf_num_pieces bf = 0 then 1 else f64_div (f64_of_nat (unat (bf_count bf))) (f64_of_nat (unat (bf_num_pieces bf))))"

text \<open>\<open>BitfieldIter\<close>: the iterator's \<open>next\<close>, and the sequence it yields.\<close>

definition bf_iter_next :: "bitfield \<Rightarrow> u32 \<Rightarrow> (bool \<times> u32) option" where
  "bf_iter_next bf i = (if bf_num_pieces bf \<le> i then None else Some (bf_has bf i, i + 1))"

function bf_iter_from :: "bitfield \<Rightarrow> u32 \<Rightarrow> bool list" where
  "bf_iter_from bf i =
     (case bf_iter_next bf i of None \<Rightarrow> [] | Some (b, j) \<Rightarrow> b # bf_iter_from bf j)"
  by pat_completeness auto
termination
proof (relation "measure (\<lambda>(bf, i). unat (bf_num_pieces bf) - unat i)", simp)
  fix bf i x b j
  assume "bf_iter_next bf i = Some x" and "(b, j) = x"
  then have lt: "i < bf_num_pieces bf" and j: "j = i + 1"
    by (auto simp: bf_iter_next_def not_le split: if_splits)
  with unat_succ [OF lt] show "((bf, j), bf, i) \<in> measure (\<lambda>(bf, i). unat (bf_num_pieces bf) - unat i)"
    by (simp add: word_less_nat_alt)
qed

declare bf_iter_from.simps [simp del]

definition bf_iter :: "bitfield \<Rightarrow> bool list" where
  "bf_iter bf = bf_iter_from bf 0"

section \<open>Get and set\<close>

text \<open>Bit \<open>k\<close> of the bytes, most significant bit of each byte first.\<close>

definition bit_at :: "bytes \<Rightarrow> nat \<Rightarrow> bool" where
  "bit_at bs k \<longleftrightarrow> k div 8 < length bs \<and> bit (bs ! (k div 8)) (7 - k mod 8)"

lemma and_exp_bit: "((b :: u8) AND 2 ^ k = 0) = (\<not> bit b k)"
  by (simp add: and_exp_eq_0_iff_not_bit)

lemma bf_has_bit_at: "bf_has bf i \<longleftrightarrow> i < bf_num_pieces bf \<and> bit_at (bf_bytes bf) (unat i)"
  by (auto simp: bf_has_def Let_def bit_at_def unat_div_distrib unat_mod_distrib and_exp_bit)

lemma div_mod_8_neq:
  assumes "i \<noteq> j" and "i div 8 = j div (8 :: nat)"
  shows "7 - i mod 8 \<noteq> 7 - j mod 8"
proof -
  have "i mod 8 < 8" "j mod 8 < 8" by simp_all
  moreover have "i mod 8 \<noteq> j mod 8"
    using assms by (metis div_mult_mod_eq)
  ultimately show ?thesis by linarith
qed

lemma bit_at_update:
  assumes "i div 8 < length bs"
  shows "bit_at (bs[i div 8 := if v then bs ! (i div 8) OR 2 ^ (7 - i mod 8)
                                else bs ! (i div 8) AND NOT (2 ^ (7 - i mod 8))]) j
    \<longleftrightarrow> (if i = j then v else bit_at bs j)"
  using assms div_mod_8_neq [of i j]
  by (auto simp: bit_at_def nth_list_update bit_simps)

lemma bf_set_eq:
  assumes "i < bf_num_pieces bf" and "unat i div 8 < length (bf_bytes bf)"
  shows "bf_set bf i v = bf\<lparr>bf_bytes :=
    (bf_bytes bf)[unat i div 8 := if v then bf_bytes bf ! (unat i div 8) OR 2 ^ (7 - unat i mod 8)
                              else bf_bytes bf ! (unat i div 8) AND NOT (2 ^ (7 - unat i mod 8))]\<rparr>"
proof -
  have "\<not> bf_num_pieces bf \<le> i" "\<not> length (bf_bytes bf) \<le> unat i div 8"
    using assms by simp_all
  moreover have "unat (i div 8) = unat i div 8" "unat (i mod 8) = unat i mod 8"
    by (simp_all add: unat_div_distrib unat_mod_distrib)
  ultimately show ?thesis
    by (simp only: bf_set_def Let_def if_False push_bit_eq_mult mult_1)
qed

lemma bf_set_bytes:
  assumes "i < bf_num_pieces bf" and "unat i div 8 < length (bf_bytes bf)"
  shows "bit_at (bf_bytes (bf_set bf i v)) k \<longleftrightarrow> (if unat i = k then v else bit_at (bf_bytes bf) k)"
proof -
  let ?i = "unat i"
  have "bf_bytes (bf_set bf i v) =
    (bf_bytes bf)[?i div 8 := if v then bf_bytes bf ! (?i div 8) OR 2 ^ (7 - ?i mod 8)
                              else bf_bytes bf ! (?i div 8) AND NOT (2 ^ (7 - ?i mod 8))]"
    using bf_set_eq [OF assms] by simp
  with bit_at_update [OF assms(2), of v k] show ?thesis by simp
qed

lemma bf_set_frame [simp]:
  "bf_num_pieces (bf_set bf i v) = bf_num_pieces bf"
  "length (bf_bytes (bf_set bf i v)) = length (bf_bytes bf)"
  by (simp_all add: bf_set_def Let_def)

text \<open>The invariant: as many bytes as the pieces need, and clear padding bits.\<close>

definition bf_wf :: "bitfield \<Rightarrow> bool" where
  "bf_wf bf \<longleftrightarrow> length (bf_bytes bf) = (unat (bf_num_pieces bf) + 7) div 8"

definition bf_padded :: "bitfield \<Rightarrow> bool" where
  "bf_padded bf \<longleftrightarrow> bf_wf bf \<and> (\<forall>k < 8 * length (bf_bytes bf). unat (bf_num_pieces bf) \<le> k \<longrightarrow> \<not> bit_at (bf_bytes bf) k)"

lemma bf_wf_index: "bf_wf bf \<Longrightarrow> i < bf_num_pieces bf \<Longrightarrow> unat i div 8 < length (bf_bytes bf)"
  by (auto simp: bf_wf_def word_less_nat_alt)

lemma bit_at_replicate_0 [simp]: "\<not> bit_at (replicate n 0) k"
  by (simp add: bit_at_def)

lemma bf_padded_new: "bf_padded (bitfield_new n)"
  by (simp add: bf_padded_def bf_wf_def bitfield_new_def)

lemma bf_padded_set: "bf_padded bf \<Longrightarrow> bf_padded (bf_set bf i v)"
proof (cases "i < bf_num_pieces bf")
  case True
  assume "bf_padded bf"
  with True bf_wf_index [of bf i] show ?thesis
    by (auto simp: bf_padded_def bf_wf_def bf_set_bytes word_less_nat_alt)
qed (simp add: bf_set_def not_less)

lemma bf_has_set:
  assumes "bf_wf bf" and "i < bf_num_pieces bf"
  shows "bf_has (bf_set bf i v) j \<longleftrightarrow> (if i = j then v else bf_has bf j)"
  using assms bf_wf_index [of bf i] by (auto simp: bf_has_bit_at bf_set_bytes dest: unsigned_word_eqI)

lemma bf_has_new [simp]: "\<not> bf_has (bitfield_new n) j"
  by (simp add: bf_has_bit_at bitfield_new_def)

section \<open>Counting\<close>

definition byte_bits :: "u8 \<Rightarrow> bool list" where
  "byte_bits b = map (\<lambda>k. bit b (7 - k)) [0..<8]"

lemma byte_bits_rev: "byte_bits b = rev (map (bit b) [0..<8])"
  by (rule nth_equalityI) (simp_all add: byte_bits_def rev_nth)

lemma count_ones_byte_bits: "count_ones b = length (filter (\<lambda>x. x) (byte_bits b))"
  by (simp add: count_ones_def byte_bits_rev filter_map comp_def rev_filter [symmetric])

lemma bits_nth: "k < 8 * length bs \<Longrightarrow> concat (map byte_bits bs) ! k = bit_at bs k"
proof (induction bs arbitrary: k)
  case (Cons b bs)
  show ?case
  proof (cases "k < 8")
    case True
    then show ?thesis by (simp add: nth_append byte_bits_def bit_at_def)
  next
    case False
    then have "k div 8 = Suc ((k - 8) div 8)" "k mod 8 = (k - 8) mod 8"
      by (simp_all add: le_div_geq le_mod_geq)
    with False Cons show ?thesis
      by (simp add: nth_append byte_bits_def bit_at_def)
  qed
qed simp

lemma length_bits: "length (concat (map byte_bits bs)) = 8 * length bs"
  by (induction bs) (simp_all add: byte_bits_def)

lemma sum_count_ones: "sum_list (map count_ones bs) = card {k. k < 8 * length bs \<and> bit_at bs k}"
proof -
  let ?b = "concat (map byte_bits bs)"
  have "sum_list (map count_ones bs) = length (filter (\<lambda>x. x) ?b)"
    by (induction bs) (simp_all add: count_ones_byte_bits)
  also have "\<dots> = card {k. k < length ?b \<and> ?b ! k}"
    by (simp add: length_filter_conv_card)
  also have "{k. k < length ?b \<and> ?b ! k} = {k. k < 8 * length bs \<and> bit_at bs k}"
    by (auto simp: length_bits bits_nth)
  finally show ?thesis .
qed

lemma card_unat_image: "card (unat ` A) = card A"
  by (rule card_image, rule inj_onI, erule unsigned_word_eqI)

lemma bf_count_card:
  assumes "bf_padded bf"
  shows "unat (bf_count bf) = card {i. bf_has bf i}"
proof -
  let ?n = "bf_num_pieces bf" and ?S = "{k. k < 8 * length (bf_bytes bf) \<and> bit_at (bf_bytes bf) k}"
  have wf: "bf_wf bf" using assms by (simp add: bf_padded_def)
  have S: "?S = unat ` {i. bf_has bf i}"
  proof (intro set_eqI iffI)
    fix k assume "k \<in> ?S"
    with assms have "k < unat ?n" by (auto simp: bf_padded_def not_le [symmetric])
    moreover have "unat ?n < 2 ^ LENGTH(32)" by (rule unsigned_less)
    ultimately have "unat (of_nat k :: u32) = k"
      by (simp add: unat_of_nat)
    with \<open>k \<in> ?S\<close> \<open>k < unat ?n\<close> show "k \<in> unat ` {i. bf_has bf i}"
      by (intro image_eqI [of _ _ "of_nat k"]) (auto simp: bf_has_bit_at word_less_nat_alt)
  next
    fix k assume "k \<in> unat ` {i. bf_has bf i}"
    then show "k \<in> ?S"
      by (auto simp: bf_has_bit_at bit_at_def less_mult_imp_div_less)
  qed
  then have card: "sum_list (map count_ones (bf_bytes bf)) = card {i. bf_has bf i}"
    by (simp only: sum_count_ones S card_unat_image)
  have "unat ` {i. bf_has bf i} \<subseteq> {..<unat ?n}"
    by (auto simp: bf_has_bit_at word_less_nat_alt)
  then have "card (unat ` {i. bf_has bf i}) \<le> card {..<unat ?n}"
    by (rule card_mono [rotated]) simp
  then have "card {i. bf_has bf i} \<le> unat ?n"
    by (simp add: card_unat_image)
  moreover have "unat ?n < 2 ^ LENGTH(32)" by (rule unsigned_less)
  ultimately show ?thesis
    by (simp add: bf_count_def card min_def word_le_nat_alt unat_of_nat)
qed

lemma bf_iter_from_eq:
  "bf_iter_from bf i = map (\<lambda>k. bf_has bf (of_nat k)) [unat i..<unat (bf_num_pieces bf)]"
proof (induction bf i rule: bf_iter_from.induct)
  case (1 bf i)
  show ?case
  proof (cases "i < bf_num_pieces bf")
    case True
    then have "unat i < unat (bf_num_pieces bf)" by (simp add: word_less_nat_alt)
    with True "1" unat_succ [OF True] show ?thesis
      by (subst bf_iter_from.simps) (simp add: bf_iter_next_def upt_conv_Cons not_le)
  next
    case False
    then show ?thesis
      by (subst bf_iter_from.simps) (simp add: bf_iter_next_def word_less_nat_alt word_le_nat_alt not_less)
  qed
qed

lemma bf_iter_eq: "bf_iter bf = map (\<lambda>k. bf_has bf (of_nat k)) [0..<unat (bf_num_pieces bf)]"
  by (simp add: bf_iter_def bf_iter_from_eq)

section \<open>The piece-set interface\<close>

text \<open>
  What the peer connection and the scheduler rely on: \<open>has\<close> after \<open>upd\<close> on a piece below
  \<open>size\<close>, which \<open>upd\<close> keeps, and a \<open>count\<close> that is the number of pieces present.
\<close>

locale piece_set =
  fixes inv :: "'s \<Rightarrow> bool" and size :: "'s \<Rightarrow> u32" and has :: "'s \<Rightarrow> u32 \<Rightarrow> bool"
    and upd :: "'s \<Rightarrow> u32 \<Rightarrow> bool \<Rightarrow> 's" and count :: "'s \<Rightarrow> u32"
  assumes inv_upd: "inv s \<Longrightarrow> inv (upd s i v)"
    and size_upd: "size (upd s i v) = size s"
    and has_upd: "inv s \<Longrightarrow> i < size s \<Longrightarrow> has (upd s i v) j \<longleftrightarrow> (if i = j then v else has s j)"
    and upd_out: "size s \<le> i \<Longrightarrow> upd s i v = s"
    and has_size: "has s i \<Longrightarrow> i < size s"
    and count_card: "inv s \<Longrightarrow> unat (count s) = card {i. has s i}"
begin

definition add_all :: "u32 list \<Rightarrow> 's \<Rightarrow> 's" where
  "add_all is s = foldl (\<lambda>s i. upd s i True) s is"

lemma add_all_inv: "inv s \<Longrightarrow> inv (add_all is s) \<and> size (add_all is s) = size s"
  by (induction "is" arbitrary: s) (simp_all add: add_all_def inv_upd size_upd)

lemma has_upd_True: "inv s \<Longrightarrow> has (upd s i True) j \<longleftrightarrow> has s j \<or> (i = j \<and> j < size s)"
  by (cases "i < size s") (auto simp: has_upd upd_out not_less)

lemma has_add_all: "inv s \<Longrightarrow> has (add_all is s) j \<longleftrightarrow> has s j \<or> (j \<in> set is \<and> j < size s)"
  by (induction "is" arbitrary: s) (auto simp: add_all_def inv_upd size_upd has_upd_True)

lemma count_upd_new:
  assumes "inv s" and "i < size s" and "\<not> has s i"
  shows "unat (count (upd s i True)) = Suc (unat (count s))"
proof -
  have "{j. has (upd s i True) j} = insert i {j. has s j}"
    using assms by (auto simp: has_upd)
  with assms show ?thesis
    by (simp add: count_card inv_upd)
qed

lemma count_le_size: "inv s \<Longrightarrow> unat (count s) \<le> unat (size s)"
proof -
  assume "inv s"
  have "card {i. has s i} \<le> card {i. i < size s}"
    using has_size by (intro card_mono) auto
  also have "\<dots> = card (unat ` {i. i < size s})"
    by (simp only: card_unat_image)
  also have "\<dots> \<le> card {..<unat (size s)}"
    by (rule card_mono) (auto simp: word_less_nat_alt)
  finally show ?thesis
    by (simp add: count_card [OF \<open>inv s\<close>])
qed

lemma count_full:
  assumes "inv s" and "\<forall>i < size s. has s i"
  shows "count s = size s"
proof -
  have "{i. has s i} = {i. i < size s}"
    using assms has_size by auto
  moreover have "unat ` {i. i < size s} = {..<unat (size s)}"
  proof (intro set_eqI iffI)
    fix k assume k: "k \<in> {..<unat (size s)}"
    moreover have "unat (size s) < 2 ^ LENGTH(32)" by (rule unsigned_less)
    ultimately have "unat (of_nat k :: u32) = k" by (simp add: unat_of_nat)
    with k show "k \<in> unat ` {i. i < size s}"
      by (intro image_eqI [of _ _ "of_nat k"]) (auto simp: word_less_nat_alt)
  qed (auto simp: word_less_nat_alt)
  ultimately have "unat (count s) = unat (size s)"
    using count_card [OF assms(1)] by (metis card_unat_image card_lessThan)
  then show ?thesis by (rule unsigned_word_eqI)
qed

end

lemma bf_set_out: "bf_num_pieces bf \<le> i \<Longrightarrow> bf_set bf i v = bf"
  by (simp add: bf_set_def)

interpretation bf: piece_set bf_padded bf_num_pieces bf_has bf_set bf_count
proof
  show "bf_has s i \<Longrightarrow> i < bf_num_pieces s" for s i
    by (simp add: bf_has_bit_at)
  show "bf_has (bf_set s i v) j \<longleftrightarrow> (if i = j then v else bf_has s j)"
    if "bf_padded s" "i < bf_num_pieces s" for s i v j
    using that by (simp add: bf_has_set bf_padded_def)
qed (simp_all add: bf_padded_set bf_set_out bf_count_card)

section \<open>Properties\<close>

definition bf_run :: "(u32 \<times> bool) list \<Rightarrow> u32 \<Rightarrow> bitfield" where
  "bf_run ops n = foldl (\<lambda>b (i, v). bf_set b i v) (bitfield_new n) ops"

lemma bf_run_padded: "bf_padded (bf_run ops n) \<and> bf_num_pieces (bf_run ops n) = n"
proof (induction ops rule: rev_induct)
  case Nil
  show ?case using bf_padded_new [of n] by (simp add: bf_run_def bitfield_new_def)
qed (auto simp: bf_run_def bf_padded_set)

lemma length_filter_iter:
  assumes "bf_padded bf"
  shows "length (filter id (bf_iter bf)) = card {i. bf_has bf i}"
proof -
  let ?n = "unat (bf_num_pieces bf)"
  have n: "?n < 2 ^ LENGTH(32)" by (rule unsigned_less)
  have "length (filter id (bf_iter bf)) = length (filter (\<lambda>k. bf_has bf (of_nat k)) [0..<?n])"
    by (simp add: bf_iter_eq filter_map comp_def)
  also have "\<dots> = card {k. k < ?n \<and> bf_has bf (of_nat k)}"
    by (subst length_filter_conv_card, rule arg_cong [where f = card]) auto
  also have "{k. k < ?n \<and> bf_has bf (of_nat k)} = unat ` {i. bf_has bf i}"
  proof (intro set_eqI iffI)
    fix k assume "k \<in> {k. k < ?n \<and> bf_has bf (of_nat k)}"
    with n show "k \<in> unat ` {i. bf_has bf i}"
      by (intro image_eqI [of _ _ "of_nat k"]) (auto simp: unat_of_nat)
  qed (auto simp: bf.has_size word_less_nat_alt [symmetric])
  finally show ?thesis by (simp only: card_unat_image)
qed

text \<open>
  C34: after any sequence of \<open>set\<close> calls on a new bitfield, \<open>has\<close> answers the last value written
  to the piece (false when none or out of range), the iterator lists exactly these answers, and
  \<open>count\<close> is the number of pieces present.
\<close>

theorem bitfield_get_set_count:
  "(bf_has (bf_run ops n) j \<longleftrightarrow> j < n \<and> map_of (rev ops) j = Some True) \<and>
   bf_iter (bf_run ops n) = map (\<lambda>k. bf_has (bf_run ops n) (of_nat k)) [0..<unat n] \<and>
   unat (bf_count (bf_run ops n)) = length (filter id (bf_iter (bf_run ops n)))"
proof (intro conjI)
  show "bf_has (bf_run ops n) j \<longleftrightarrow> j < n \<and> map_of (rev ops) j = Some True"
  proof (induction ops rule: rev_induct)
    case Nil
    then show ?case by (simp add: bf_run_def)
  next
    case (snoc op ops)
    obtain i v where op: "op = (i, v)" by fastforce
    have run: "bf_run (ops @ [op]) n = bf_set (bf_run ops n) i v"
      by (simp add: bf_run_def op)
    with snoc bf_run_padded [of ops n] show ?case
      by (cases "i < n") (auto simp: op bf.has_upd bf.upd_out not_less)
  qed
  show "bf_iter (bf_run ops n) = map (\<lambda>k. bf_has (bf_run ops n) (of_nat k)) [0..<unat n]"
    using bf_run_padded [of ops n] by (simp add: bf_iter_eq)
  show "unat (bf_count (bf_run ops n)) = length (filter id (bf_iter (bf_run ops n)))"
    using bf_run_padded [of ops n] by (simp add: bf_count_card length_filter_iter)
qed

lemma bf_count_overcount:
  "bf_count (bf_set (bf_set_all (bitfield_new 10) True) 0 False) = 10"
  by code_simp

lemma bf_iter_overcount:
  "length (filter id (bf_iter (bf_set (bf_set_all (bitfield_new 10) True) 0 False))) = 9"
  by code_simp

text \<open>The completion is a share, and 1 only when every piece counts as present.\<close>

lemma bf_completion_share:
  "0 \<le> bf_completion bf \<and> bf_completion bf \<le> 1 \<and> (bf_completion bf = 1 \<longleftrightarrow> bf_count bf = bf_num_pieces bf)"
proof (cases "bf_num_pieces bf = 0")
  case True
  then show ?thesis by (simp add: bf_completion_def bf_count_def)
next
  case False
  define a b where "a = unat (bf_count bf)" and "b = unat (bf_num_pieces bf)"
  have b: "0 < b" "b < 2 ^ 32" using False unsigned_less [of "bf_num_pieces bf"] by (auto simp: b_def unat_gt_0)
  have a: "a \<le> b" by (simp add: a_def b_def bf_count_def word_le_nat_alt [symmetric])
  have c: "bf_completion bf = f64_round (rat_of_nat a / rat_of_nat b)"
    using False a b by (simp add: bf_completion_def a_def [symmetric] b_def [symmetric] f64_div_def f64_of_nat_exact)
  have "0 \<le> f64_round (rat_of_nat a / rat_of_nat b)" using f64_round_ge [of 0 "rat_of_nat a / rat_of_nat b"] by simp
  moreover have "f64_round (rat_of_nat a / rat_of_nat b) \<le> 1"
    using f64_round_le [of "rat_of_nat a / rat_of_nat b" 1] a b by simp
  moreover have "f64_round (rat_of_nat a / rat_of_nat b) < 1" if "a < b"
  proof -
    have "rat_of_nat a / rat_of_nat b \<le> 1 - 1 / rat_of_nat b" using that b by (simp add: field_simps of_nat_diff flip: of_nat_Suc)
    also have "\<dots> \<le> 1 - 1 / 2 ^ 32" using b by (simp add: field_simps)
    finally have "f64_round (rat_of_nat a / rat_of_nat b) \<le> f64_round (1 - 1 / 2 ^ 32)" by (rule f64_round_mono)
    also have "\<dots> < 1"
      using f64_round_eval [of "-1" "1 - 1 / 2 ^ 32" "2 ^ 53 - 2 ^ 21"] by (simp add: power_int_def power_divide)
    finally show ?thesis .
  qed
  moreover have "f64_round (rat_of_nat a / rat_of_nat b) = 1" if "a = b"
    using that b f64_round_int [of 1] by simp
  moreover have "a = b \<longleftrightarrow> bf_count bf = bf_num_pieces bf" by (simp add: a_def b_def word_unat_eq_iff)
  ultimately show ?thesis using a c by (metis le_neq_implies_less less_irrefl)
qed

end
