(* ===== verification/File_Meta.thy ===== *)
theory File_Meta
  imports Core_Types
begin

text \<open>
  The key-frame index and the file metadata of \<open>types.rs\<close>: the search for the nearest preceding
  I frame, the segments between I frames, and the number of pieces of a file.
\<close>

section \<open>The key-frame index\<close>

datatype frame_type = FI | FP | FB

record key_frame_entry =
  kf_timestamp_ms :: u64
  kf_file_offset :: u64
  kf_frame_size :: u64
  kf_frame_type :: frame_type

type_synonym key_frame_index = "key_frame_entry list"

text \<open>The loop of \<open>find_nearest_i_frame\<close> over the entries, \<open>best\<close> its accumulator.\<close>

fun nearest_loop :: "u64 \<Rightarrow> key_frame_entry option \<Rightarrow> key_frame_entry list \<Rightarrow> key_frame_entry option" where
  "nearest_loop t best [] = best"
| "nearest_loop t best (e # es) =
     (if kf_frame_type e \<noteq> FI then nearest_loop t best es
      else if kf_timestamp_ms e \<le> t then
        (case best of
           None \<Rightarrow> nearest_loop t (Some e) es
         | Some c \<Rightarrow>
             if t - kf_timestamp_ms e < t - kf_timestamp_ms c then nearest_loop t (Some e) es
             else nearest_loop t best es)
      else nearest_loop t best es)"

definition find_nearest_i_frame :: "key_frame_index \<Rightarrow> u64 \<Rightarrow> key_frame_entry option" where
  "find_nearest_i_frame kfi t = nearest_loop t None kfi"

definition find_all_i_frames :: "key_frame_index \<Rightarrow> key_frame_entry list" where
  "find_all_i_frames kfi = filter (\<lambda>e. kf_frame_type e = FI) kfi"

text \<open>\<open>segment_at\<close>: offset and length; the subtraction wraps, as \<open>u64\<close> does in a release build.\<close>

definition segment_at :: "key_frame_index \<Rightarrow> nat \<Rightarrow> (u64 \<times> u64) option" where
  "segment_at kfi i =
     (let iframes = find_all_i_frames kfi
      in if length iframes \<le> i then None
         else let start = kf_file_offset (iframes ! i);
                  stop = (if i + 1 < length iframes then kf_file_offset (iframes ! (i + 1))
                          else start + kf_frame_size (iframes ! i))
              in Some (start, stop - start))"

section \<open>File metadata\<close>

record file_meta =
  fm_info_hash :: info_hash
  fm_filename :: string
  fm_file_size :: u64
  fm_piece_length :: u64
  fm_pieces :: "bytes list"
  fm_keyframe_index :: "key_frame_index option"
  fm_duration_ms :: u64
  fm_video_codec :: "string option"
  fm_audio_codec :: "string option"
  fm_width :: u32
  fm_height :: u32
  fm_bitrate :: u64
  fm_from_cache :: bool

text \<open>
  \<open>MediaStream::num_pieces\<close>: \<open>(file_size + piece_length - 1) / piece_length\<close> truncated to
  \<open>u32\<close>; a zero piece length divides by zero.
\<close>

definition num_pieces_of :: "u64 \<Rightarrow> u64 \<Rightarrow> (u32, 'e) result" where
  "num_pieces_of file_size piece_length =
     (if piece_length = 0 then Panic
      else Ok (ucast ((file_size + piece_length - 1) div piece_length)))"

definition stream_num_pieces :: "file_meta \<Rightarrow> (u32, 'e) result" where
  "stream_num_pieces m = num_pieces_of (fm_file_size m) (fm_piece_length m)"

section \<open>The nearest key frame\<close>

text \<open>What \<open>find_nearest_i_frame\<close> promises: the latest I frame at or before the position.\<close>

definition nearest_spec :: "u64 \<Rightarrow> key_frame_entry list \<Rightarrow> key_frame_entry option \<Rightarrow> bool" where
  "nearest_spec t es r =
     (let cand = {e \<in> set es. kf_frame_type e = FI \<and> kf_timestamp_ms e \<le> t}
      in case r of None \<Rightarrow> cand = {}
         | Some e \<Rightarrow> e \<in> cand \<and> (\<forall>d \<in> cand. kf_timestamp_ms d \<le> kf_timestamp_ms e))"

lemma minus_less_iff: "a \<le> t \<Longrightarrow> b \<le> t \<Longrightarrow> t - a < t - b \<longleftrightarrow> b < (a :: u64)"
  by (simp add: word_less_nat_alt word_le_nat_alt unat_sub_if' diff_less_mono2) linarith

lemma nearest_loop_spec:
  assumes "\<And>b. best = Some b \<Longrightarrow> kf_frame_type b = FI \<and> kf_timestamp_ms b \<le> t"
  shows "nearest_spec t (case best of None \<Rightarrow> es | Some b \<Rightarrow> b # es) (nearest_loop t best es)"
  using assms
proof (induction es arbitrary: best)
  case Nil
  then show ?case by (auto simp: nearest_spec_def split: option.splits)
next
  case (Cons e es)
  show ?case
  proof (cases "kf_frame_type e = FI \<and> kf_timestamp_ms e \<le> t")
    case False
    with Cons.IH [of best] Cons.prems show ?thesis
      by (auto simp: nearest_spec_def Let_def split: option.splits)
  next
    case True
    show ?thesis
    proof (cases best)
      case None
      with Cons.IH [of "Some e"] True show ?thesis by simp
    next
      case (Some c)
      with Cons.prems have c: "kf_frame_type c = FI" "kf_timestamp_ms c \<le> t" by auto
      show ?thesis
      proof (cases "kf_timestamp_ms c < kf_timestamp_ms e")
        case less: True
        with Cons.IH [of "Some e"] True Some c show ?thesis
          by (fastforce simp: nearest_spec_def Let_def minus_less_iff split: option.splits)
      next
        case False
        with Cons.IH [of "Some c"] True Some c show ?thesis
          by (fastforce simp: nearest_spec_def Let_def minus_less_iff split: option.splits)
      qed
    qed
  qed
qed

lemma find_nearest_i_frame_spec: "nearest_spec t kfi (find_nearest_i_frame kfi t)"
  using nearest_loop_spec [of None t kfi] by (simp add: find_nearest_i_frame_def)

text \<open>
  C33: \<open>find_nearest_i_frame\<close> returns an I frame whose time stamp is at most the requested one and
  maximal among those, and returns \<open>None\<close> exactly when no such frame exists.
\<close>

theorem nearest_i_frame_correct:
  "case find_nearest_i_frame kfi t of
     None \<Rightarrow> {e \<in> set kfi. kf_frame_type e = FI \<and> kf_timestamp_ms e \<le> t} = {}
   | Some e \<Rightarrow> e \<in> set kfi \<and> kf_frame_type e = FI \<and> kf_timestamp_ms e \<le> t \<and>
       kf_timestamp_ms e =
         Max (kf_timestamp_ms ` {e \<in> set kfi. kf_frame_type e = FI \<and> kf_timestamp_ms e \<le> t})"
  using find_nearest_i_frame_spec [of t kfi]
  by (auto simp: nearest_spec_def Let_def split: option.splits intro!: Max_eqI [symmetric])

section \<open>Segments\<close>

text \<open>
  The segments of an index whose I frames lie in file order tile the file from the first frame on:
  each segment ends where the next begins.
\<close>

lemma segment_at_chain:
  assumes "segment_at kfi i = Some (a, n)" and "segment_at kfi (Suc i) = Some (b, m)"
  shows "a + n = b"
  using assms by (auto simp: segment_at_def Let_def split: if_splits)

lemma segment_at_dom: "segment_at kfi i \<noteq> None \<longleftrightarrow> i < length (find_all_i_frames kfi)"
  by (auto simp: segment_at_def Let_def)

lemma segment_at_length:
  assumes "sorted (map kf_file_offset (find_all_i_frames kfi))"
    and "segment_at kfi i = Some (a, n)" and "segment_at kfi (Suc i) = Some (b, m)"
  shows "a \<le> b \<and> unat n = unat b - unat a"
proof -
  have "Suc i < length (find_all_i_frames kfi)"
    using assms(3) segment_at_dom [of kfi "Suc i"] by simp
  with assms(1) sorted_nth_mono [OF assms(1), of i "Suc i"]
  have "kf_file_offset (find_all_i_frames kfi ! i) \<le> kf_file_offset (find_all_i_frames kfi ! Suc i)"
    by simp
  with assms(2,3) show ?thesis
    by (auto simp: segment_at_def Let_def unat_sub_if' word_le_nat_alt split: if_splits)
qed

text \<open>With I frames out of file order the length wraps.\<close>

lemma segment_at_wraps:
  "segment_at [\<lparr>kf_timestamp_ms = 0, kf_file_offset = 100, kf_frame_size = 1, kf_frame_type = FI\<rparr>,
               \<lparr>kf_timestamp_ms = 1, kf_file_offset = 40, kf_frame_size = 1, kf_frame_type = FI\<rparr>] 0
   = Some (100, 18446744073709551556)"
  by code_simp

section \<open>The number of pieces\<close>

lemma ceil_div: "0 < (p :: nat) \<Longrightarrow> 0 < s \<Longrightarrow> s \<le> (s + p - 1) div p * p \<and> ((s + p - 1) div p - 1) * p < s"
proof -
  assume p: "0 < p" and s: "0 < s"
  let ?q = "(s + p - 1) div p"
  have "?q * p + (s + p - 1) mod p = s + p - 1" by simp
  moreover have "(s + p - 1) mod p < p" using p by simp
  ultimately have "s \<le> ?q * p" "?q * p \<le> s + p - 1" by linarith+
  moreover have "(?q - 1) * p = ?q * p - p" by (simp add: diff_mult_distrib)
  moreover have "0 < ?q" using \<open>s \<le> ?q * p\<close> s by (metis gr0I mult_0 not_le)
  moreover have "?q * p - p < s" using \<open>?q * p \<le> s + p - 1\<close> s p by linarith
  ultimately show ?thesis by simp
qed

lemma num_pieces_of_unat:
  assumes "0 < p" and "0 < s" and "unat s + unat p \<le> 2 ^ 64"
  shows "num_pieces_of s p = Ok (of_nat ((unat s + unat p - 1) div unat p))"
proof -
  have s: "0 < unat s" and p: "0 < unat p"
    using assms by (simp_all add: unat_gt_0)
  then have "s + p - 1 = of_nat (unat s + unat p - 1)"
    by simp
  moreover have "unat s + unat p - 1 < 2 ^ 64"
    using assms(3) s by linarith
  ultimately have u: "unat (s + p - 1) = unat s + unat p - 1"
    by (simp add: unat_of_nat)
  have "p \<noteq> 0" using assms by auto
  then have "num_pieces_of s p = Ok (ucast ((s + p - 1) div p))"
    by (simp add: num_pieces_of_def)
  also have "(ucast ((s + p - 1) div p) :: u32) = of_nat (unat ((s + p - 1) div p))"
    by simp
  finally show ?thesis
    by (simp only: unat_div_distrib u)
qed

text \<open>
  For a file whose size plus piece length fits in 64 bits and whose pieces fit in 32 bits, the
  computed number of pieces is the least that covers the file.
\<close>

theorem num_pieces_covers:
  assumes "0 < piece_len" and "0 < file_size" and "unat file_size + unat piece_len \<le> 2 ^ 64"
    and "unat file_size \<le> (2 ^ 32 - 1) * unat piece_len"
    and "num_pieces_of file_size piece_len = Ok n"
  shows "unat file_size \<le> unat n * unat piece_len \<and> (unat n - 1) * unat piece_len < unat file_size"
proof (intro conjI)
  let ?q = "(unat file_size + unat piece_len - 1) div unat piece_len"
  have s: "0 < unat file_size" and p: "0 < unat piece_len"
    using assms by (simp_all add: unat_gt_0)
  have "?q < 2 ^ 32"
    using assms(4) s p by (intro less_mult_imp_div_less) (simp add: algebra_simps)
  moreover have "n = of_nat ?q"
    using assms(5) by (simp add: num_pieces_of_unat [OF assms(1-3)])
  ultimately have "unat n = ?q"
    by (simp add: unat_of_nat)
  with ceil_div [OF p s] show "unat file_size \<le> unat n * unat piece_len"
    and "(unat n - 1) * unat piece_len < unat file_size" by simp_all
qed

lemma num_pieces_covers_witness:
  "unat (1000000 :: u64) \<le> unat (4 :: u32) * unat (262144 :: u64) \<and> (unat (4 :: u32) - 1) * unat (262144 :: u64) < unat (1000000 :: u64)"
proof -
  have "num_pieces_of 1000000 262144 = (Ok 4 :: (u32, unit) result)" by code_simp
  from num_pieces_covers [OF _ _ _ _ this] show ?thesis by simp
qed

end
