(* ===== verification/Ordered_Map.thy ===== *)
theory Ordered_Map
  imports Prelude
begin

text \<open>
  The finite maps of the code. A \<open>BTreeMap<K, V>\<close> is an association list with strictly increasing
  keys, which is the order its iteration (and so every encoder that walks one) follows. The locale
  \<open>finite_map\<close> is what its clients rely on; it is interpreted here on \<open>BTreeMap\<close>.
\<close>

fun bt_insert :: "'k::linorder \<Rightarrow> 'v \<Rightarrow> ('k \<times> 'v) list \<Rightarrow> ('k \<times> 'v) list" where
  "bt_insert k v [] = [(k, v)]"
| "bt_insert k v ((k', v') # m) =
     (if k < k' then (k, v) # (k', v') # m
      else if k = k' then (k, v) # m
      else (k', v') # bt_insert k v m)"

definition bt_remove :: "'k::linorder \<Rightarrow> ('k \<times> 'v) list \<Rightarrow> ('k \<times> 'v) list" where
  "bt_remove k m = filter (\<lambda>p. fst p \<noteq> k) m"

definition bt_wf :: "('k::linorder \<times> 'v) list \<Rightarrow> bool" where
  "bt_wf m \<longleftrightarrow> sorted_wrt (<) (map fst m)"

lemma bt_wf_Nil [simp]: "bt_wf []"
  by (simp add: bt_wf_def)

lemma bt_insert_keys [simp]: "fst ` set (bt_insert k v m) = insert k (fst ` set m)"
  by (induction k v m rule: bt_insert.induct) auto

lemma bt_insert_wf [simp]: "bt_wf m \<Longrightarrow> bt_wf (bt_insert k v m)"
  unfolding bt_wf_def
  by (induction k v m rule: bt_insert.induct) (auto simp flip: image_iff dest: less_trans)

lemma bt_get_insert [simp]: "bt_wf m \<Longrightarrow> map_of (bt_insert k v m) = (map_of m)(k \<mapsto> v)"
proof (induction k v m rule: bt_insert.induct)
  case (2 k v k' v' m)
  then show ?case by (auto simp: bt_wf_def fun_eq_iff)
qed simp

lemma bt_insert_last [codec]: "\<forall>p \<in> set m. fst p < k \<Longrightarrow> bt_insert k v m = m @ [(k, v)]"
  by (induction k v m rule: bt_insert.induct) auto

lemma bt_remove_wf [simp]: "bt_wf m \<Longrightarrow> bt_wf (bt_remove k m)"
  unfolding bt_wf_def bt_remove_def by (induction m) auto

lemma bt_get_remove [simp]: "map_of (bt_remove k m) = (map_of m)(k := None)"
  unfolding bt_remove_def by (induction m) auto

locale finite_map =
  fixes inv :: "'m \<Rightarrow> bool" and empty :: 'm and lookup :: "'m \<Rightarrow> 'k \<Rightarrow> 'v option"
    and upd :: "'k \<Rightarrow> 'v \<Rightarrow> 'm \<Rightarrow> 'm" and del :: "'k \<Rightarrow> 'm \<Rightarrow> 'm"
  assumes inv_empty: "inv empty" and lookup_empty: "lookup empty k = None"
    and inv_upd: "inv m \<Longrightarrow> inv (upd k v m)"
    and lookup_upd: "inv m \<Longrightarrow> lookup (upd k v m) = (lookup m)(k \<mapsto> v)"
    and inv_del: "inv m \<Longrightarrow> inv (del k m)"
    and lookup_del: "inv m \<Longrightarrow> lookup (del k m) = (lookup m)(k := None)"
begin

lemma upd_all: "inv m \<Longrightarrow> inv (foldl (\<lambda>m (k, v). upd k v m) m kvs) \<and>
    lookup (foldl (\<lambda>m (k, v). upd k v m) m kvs) = lookup m ++ map_of (rev kvs)"
  by (induction kvs arbitrary: m) (auto simp: inv_upd lookup_upd)

lemma of_list: "lookup (foldl (\<lambda>m (k, v). upd k v m) empty kvs) = map_of (rev kvs)"
  using upd_all [OF inv_empty, of kvs] by (auto simp: fun_eq_iff lookup_empty map_add_def split: option.splits)

lemma del_upd: "inv m \<Longrightarrow> lookup m k = None \<Longrightarrow> lookup (del k (upd k v m)) = lookup m"
  by (auto simp: inv_upd lookup_upd lookup_del)

end

interpretation btree: finite_map bt_wf "[]" map_of bt_insert bt_remove
  by unfold_locales (simp_all del: fun_upd_apply)

end
