(* ===== verification/Bencode_Format.thy ===== *)
theory Bencode_Format
  imports Core_Types Ordered_Map "HOL-Library.Sublist"
begin

text \<open>
  The bencode encoder and decoder of \<open>qvs-format/src/bencode.rs\<close>. The decoder is three mutually
  recursive functions over the remaining input (\<open>decode\<close> and the loops of \<open>decode_list\<close> and
  \<open>decode_dict\<close>); it terminates because every decoded value consumes input, which the termination
  proof establishes on the function's domain. An \<open>i64\<close> is a 64-bit word read with \<^const>\<open>sint\<close>.
\<close>

section \<open>Values and the encoder\<close>

datatype bencode = BInt u64 | BStr bytes | BList "bencode list" | BDict "(bytes \<times> bencode) list"

abbreviation byte :: "char \<Rightarrow> u8" where "byte \<equiv> char_byte"

definition encode_str :: "bytes \<Rightarrow> bytes" where
  "encode_str s = as_bytes (show_nat (length s)) @ [byte CHR '':''] @ s"

fun bencode_encode :: "bencode \<Rightarrow> bytes" where
  "bencode_encode (BInt i) = [byte CHR ''i''] @ as_bytes (show_i64 i) @ [byte CHR ''e'']"
| "bencode_encode (BStr s) = encode_str s"
| "bencode_encode (BList items) = [byte CHR ''l''] @ concat (map bencode_encode items) @ [byte CHR ''e'']"
| "bencode_encode (BDict entries) =
     [byte CHR ''d''] @ concat (map (\<lambda>(k, v). encode_str k @ bencode_encode v) entries) @ [byte CHR ''e'']"

section \<open>The decoder\<close>

definition decode_int :: "bytes \<Rightarrow> (bencode \<times> bytes, qvod_error) result" where
  "decode_int data =
     (if data = [] \<or> hd data \<noteq> byte CHR ''i'' then Err (Bencode ''expected integer'')
      else case position (\<lambda>b. b = byte CHR ''e'') (tl data) of
        None \<Rightarrow> Err (Bencode ''unterminated integer'')
      | Some p \<Rightarrow>
          and_then (ok_or (from_utf8 (subslice 1 (p + 1) data)) (Bencode ''invalid integer utf-8'')) (\<lambda>s.
          and_then (map_err (\<lambda>e. Bencode (''invalid integer: '' @ show_parse_error e)) (parse_i64 s)) (\<lambda>val.
          Ok (BInt val, drop (p + 2) data))))"

text \<open>
  The bounds check of \<open>decode_str\<close> adds in \<open>usize\<close>: a wrapped sum passes the check and the slice
  then starts beyond its end, which panics.
\<close>

definition decode_str :: "bytes \<Rightarrow> (bytes \<times> bytes, qvod_error) result" where
  "decode_str data =
     (case position (\<lambda>b. b = byte CHR '':'') data of
        None \<Rightarrow> Err (Bencode ''unterminated string length'')
      | Some colon \<Rightarrow>
          and_then (ok_or (from_utf8 (take colon data)) (Bencode ''invalid string length utf-8'')) (\<lambda>s.
          and_then (map_err (\<lambda>e. Bencode (''invalid string length: '' @ show_parse_error e)) (parse_usize s)) (\<lambda>len.
          let start = colon + 1; stop = (start + len) mod 2 ^ 64
          in if length data < stop then Err (Bencode ''string data truncated'')
             else if stop < start then Panic
             else Ok (subslice start stop data, drop stop data))))"

definition is_digit_byte :: "u8 \<Rightarrow> bool" where
  "is_digit_byte c \<longleftrightarrow> byte CHR ''0'' \<le> c \<and> c \<le> byte CHR ''9''"

function (sequential) bencode_decode :: "bytes \<Rightarrow> (bencode \<times> bytes, qvod_error) result"
  and decode_list_loop :: "bencode list \<Rightarrow> bytes \<Rightarrow> (bencode \<times> bytes, qvod_error) result"
  and decode_dict_loop :: "(bytes \<times> bencode) list \<Rightarrow> bytes \<Rightarrow> (bencode \<times> bytes, qvod_error) result" where
  "bencode_decode [] = Err (Bencode ''empty data'')"
| "bencode_decode (c # cs) =
     (if c = byte CHR ''i'' then decode_int (c # cs)
      else if is_digit_byte c then and_then (decode_str (c # cs)) (\<lambda>(s, rest). Ok (BStr s, rest))
      else if c = byte CHR ''l'' then decode_list_loop [] cs
      else if c = byte CHR ''d'' then decode_dict_loop [] cs
      else Err (Bencode (''unexpected byte: 0x'' @ hex_byte c)))"
| "decode_list_loop items rest =
     (if rest \<noteq> [] \<and> hd rest \<noteq> byte CHR ''e'' then
        and_then (bencode_decode rest) (\<lambda>(val, remaining). decode_list_loop (items @ [val]) remaining)
      else if rest = [] then Err (Bencode ''unterminated list'')
      else Ok (BList items, tl rest))"
| "decode_dict_loop dict rest =
     (if rest \<noteq> [] \<and> hd rest \<noteq> byte CHR ''e'' then
        and_then (decode_str rest) (\<lambda>(key, remaining).
        and_then (bencode_decode remaining) (\<lambda>(val, remaining).
        decode_dict_loop (bt_insert key val dict) remaining))
      else if rest = [] then Err (Bencode ''unterminated dict'')
      else Ok (BDict dict, tl rest))"
  by pat_completeness auto

lemma not_digit_ld [simp]:
  "\<not> is_digit_byte (byte CHR ''l'')" "\<not> is_digit_byte (byte CHR ''d'')" "\<not> is_digit_byte (byte CHR ''i'')"
  "\<not> is_digit_byte (byte CHR ''e'')"
  by code_simp+

subsection \<open>Every value consumes input\<close>

lemma decode_int_shorter: "decode_int data = Ok (v, rest) \<Longrightarrow> length rest < length data"
  by (auto simp: decode_int_def and_then_Ok_iff split: if_splits option.splits)

lemma decode_str_shorter: "decode_str data = Ok (s, rest) \<Longrightarrow> length rest < length data"
  by (auto simp: decode_str_def and_then_Ok_iff Let_def dest!: position_Some split: if_splits option.splits)

text \<open>
  The termination domain of the decoder: on it, a decoded value leaves a strictly shorter rest,
  so the recursive calls on the rest stay below the measure.
\<close>

lemma decode_dom_shorter:
  shows "bencode_decode_decode_list_loop_decode_dict_loop_dom (Inl data) \<Longrightarrow>
      bencode_decode data = Ok (v, rest) \<Longrightarrow> length rest < length data"
    and "bencode_decode_decode_list_loop_decode_dict_loop_dom (Inr (Inl (items, xs))) \<Longrightarrow>
      decode_list_loop items xs = Ok (v, rest) \<Longrightarrow> length rest < length xs"
    and "bencode_decode_decode_list_loop_decode_dict_loop_dom (Inr (Inr (dict, ys))) \<Longrightarrow>
      decode_dict_loop dict ys = Ok (v, rest) \<Longrightarrow> length rest < length ys"
proof (induction data and items xs and dict ys arbitrary: v rest and v rest and v rest
    rule: bencode_decode_decode_list_loop_decode_dict_loop.pinduct)
  case 1
  then show ?case by (simp add: bencode_decode.psimps)
next
  case (2 c cs)
  have "length rest < length cs" if "c = byte CHR ''l'' \<and> decode_list_loop [] cs = Ok (v, rest)
      \<or> c = byte CHR ''d'' \<and> decode_dict_loop [] cs = Ok (v, rest)"
    using that "2.IH" by auto
  with "2.prems" show ?case
    by (subst (asm) bencode_decode.psimps(2) [OF "2.hyps"])
      (auto split: if_splits simp: and_then_Ok_iff dest: decode_int_shorter decode_str_shorter)
next
  case (3 items xs)
  show ?case
  proof (cases "xs \<noteq> [] \<and> hd xs \<noteq> byte CHR ''e''")
    case True
    with "3.prems" obtain val rem where *: "bencode_decode xs = Ok (val, rem)"
      "decode_list_loop (items @ [val]) rem = Ok (v, rest)"
      by (auto simp: decode_list_loop.psimps [OF "3.hyps"] and_then_Ok_iff)
    from "3.IH"(1) [OF True *(1)] "3.IH"(2) [OF True *(1) refl *(2)] show ?thesis by simp
  next
    case False
    with "3.prems" show ?thesis by (auto simp: decode_list_loop.psimps [OF "3.hyps"] split: if_splits)
  qed
next
  case (4 dict ys)
  show ?case
  proof (cases "ys \<noteq> [] \<and> hd ys \<noteq> byte CHR ''e''")
    case True
    with "4.prems" obtain key rem1 val rem2 where *: "decode_str ys = Ok (key, rem1)"
      "bencode_decode rem1 = Ok (val, rem2)" "decode_dict_loop (bt_insert key val dict) rem2 = Ok (v, rest)"
      by (auto simp: decode_dict_loop.psimps [OF "4.hyps"] and_then_Ok_iff)
    from decode_str_shorter [OF *(1)] "4.IH"(1) [OF True *(1) refl *(2)]
      "4.IH"(2) [OF True *(1) refl *(2) refl *(3)] show ?thesis by simp
  next
    case False
    with "4.prems" show ?thesis by (auto simp: decode_dict_loop.psimps [OF "4.hyps"] split: if_splits)
  qed
qed

termination bencode_decode
proof (relation "measure (\<lambda>x. case x of Inl data \<Rightarrow> 2 * length data
    | Inr (Inl (_, xs)) \<Rightarrow> 2 * length xs + 1 | Inr (Inr (_, ys)) \<Rightarrow> 2 * length ys + 1)", goal_cases)
  case (5 items rest a val remaining)
  then have "length remaining < length rest"
    by (auto intro: decode_dom_shorter(1))
  then show ?case by simp
next
  case (6 dict rest a key remaining)
  then have "length remaining < length rest"
    by (auto dest: decode_str_shorter)
  then show ?case by simp
next
  case (7 dict rest a key remaining1 b val remaining2)
  then have "length remaining2 < length remaining1"
    by (auto intro: decode_dom_shorter(1))
  moreover have "length remaining1 < length rest"
    using 7 by (auto dest: decode_str_shorter)
  ultimately show ?case by simp
qed simp_all

declare bencode_decode.simps(2) [simp del] decode_list_loop.simps [simp del] decode_dict_loop.simps [simp del]

text \<open>What remains is a proper suffix of the input.\<close>

lemma decode_int_suffix: "decode_int data = Ok (v, rest) \<Longrightarrow> strict_suffix rest data"
  by (auto simp: strict_suffix_def suffix_drop dest: decode_int_shorter)
    (auto simp: decode_int_def and_then_Ok_iff suffix_drop split: if_splits option.splits)

lemma decode_str_suffix: "decode_str data = Ok (v, rest) \<Longrightarrow> strict_suffix rest data"
  by (auto simp: strict_suffix_def suffix_drop dest: decode_str_shorter)
    (auto simp: decode_str_def and_then_Ok_iff Let_def suffix_drop split: if_splits option.splits)

lemma suffix_tl_strict: "xs \<noteq> [] \<Longrightarrow> strict_suffix (tl xs) xs"
  by (cases xs) (auto simp: strict_suffix_def suffix_def)

lemma decode_suffix:
  "bencode_decode data = Ok (v, rest) \<Longrightarrow> strict_suffix rest data"
  "decode_list_loop items xs = Ok (v, rest) \<Longrightarrow> strict_suffix rest xs"
  "decode_dict_loop dict ys = Ok (v, rest) \<Longrightarrow> strict_suffix rest ys"
proof (induction data and items xs and dict ys arbitrary: v rest and v rest and v rest
    rule: bencode_decode_decode_list_loop_decode_dict_loop.induct)
  case 1
  then show ?case by simp
next
  case (2 c cs)
  have "strict_suffix cs (c # cs)" by (simp add: strict_suffix_def suffix_def)
  moreover have "strict_suffix rest cs" if "c = byte CHR ''l'' \<and> decode_list_loop [] cs = Ok (v, rest)
      \<or> c = byte CHR ''d'' \<and> decode_dict_loop [] cs = Ok (v, rest)"
    using that "2.IH" by auto
  ultimately show ?case using "2.prems"
    by (auto simp: bencode_decode.simps(2) and_then_Ok_iff split: if_splits
        dest: decode_int_suffix decode_str_suffix suffix_order.less_trans)
next
  case (3 items xs)
  show ?case
  proof (cases "xs \<noteq> [] \<and> hd xs \<noteq> byte CHR ''e''")
    case True
    with "3.prems" obtain val rem where *: "bencode_decode xs = Ok (val, rem)"
      "decode_list_loop (items @ [val]) rem = Ok (v, rest)"
      by (auto simp: decode_list_loop.simps [of items xs] and_then_Ok_iff)
    from "3.IH"(2) [OF True *(1) refl *(2)] "3.IH"(1) [OF True *(1)] show ?thesis by (rule suffix_order.less_trans)
  next
    case False
    with "3.prems" show ?thesis by (auto simp: decode_list_loop.simps [of items xs] suffix_tl_strict split: if_splits)
  qed
next
  case (4 dict ys)
  show ?case
  proof (cases "ys \<noteq> [] \<and> hd ys \<noteq> byte CHR ''e''")
    case True
    with "4.prems" obtain key rem1 val rem2 where *: "decode_str ys = Ok (key, rem1)"
      "bencode_decode rem1 = Ok (val, rem2)" "decode_dict_loop (bt_insert key val dict) rem2 = Ok (v, rest)"
      by (auto simp: decode_dict_loop.simps [of dict ys] and_then_Ok_iff)
    have "strict_suffix rest rem1"
      by (rule suffix_order.less_trans [OF "4.IH"(2) [OF True *(1) refl *(2) refl *(3)] "4.IH"(1) [OF True *(1) refl *(2)]])
    then show ?thesis
      by (rule suffix_order.less_trans [OF _ decode_str_suffix [OF *(1)]])
  next
    case False
    with "4.prems" show ?thesis by (auto simp: decode_dict_loop.simps [of dict ys] suffix_tl_strict split: if_splits)
  qed
qed

section \<open>Accessors\<close>

fun as_int :: "bencode \<Rightarrow> u64 option" where
  "as_int (BInt i) = Some i"
| "as_int _ = None"

fun as_str_bytes :: "bencode \<Rightarrow> bytes option" where
  "as_str_bytes (BStr s) = Some s"
| "as_str_bytes _ = None"

definition as_str :: "bencode \<Rightarrow> string option" where
  "as_str v = Option.bind (as_str_bytes v) from_utf8"

fun as_list :: "bencode \<Rightarrow> bencode list option" where
  "as_list (BList l) = Some l"
| "as_list _ = None"

fun as_dict :: "bencode \<Rightarrow> (bytes \<times> bencode) list option" where
  "as_dict (BDict d) = Some d"
| "as_dict _ = None"

definition dict_get :: "bencode \<Rightarrow> bytes \<Rightarrow> bencode option" where
  "dict_get v k = Option.bind (as_dict v) (\<lambda>d. map_of d k)"

section \<open>Round trip\<close>

lemma is_digit_byte_ascii: "is_digit c \<Longrightarrow> char_byte c < 0x80 \<and> is_digit_byte (char_byte c)"
proof -
  have "unat (byte CHR ''0'') = 48" "unat (byte CHR ''9'') = 57" by code_simp+
  then show "is_digit c \<Longrightarrow> char_byte c < 0x80 \<and> is_digit_byte (char_byte c)"
    by (auto simp: is_digit_def is_digit_byte_def word_less_nat_alt word_le_nat_alt unat_char_byte Let_def)
qed

lemma from_utf8_show_nat [codec]: "from_utf8 (as_bytes (show_nat n)) = Some (show_nat n)"
  by (rule from_utf8_as_bytes)
    (auto simp: str_ok_def dest!: show_nat_digits is_digit_byte_ascii intro!: utf8_valid_ascii)

lemma show_i64_chars: "c \<in> set (show_i64 w) \<Longrightarrow> is_digit c \<or> c = CHR ''-''"
  by (auto simp: show_i64_def dest: show_nat_digits split: if_splits)

lemma from_utf8_show_i64 [codec]: "from_utf8 (as_bytes (show_i64 w)) = Some (show_i64 w)"
proof (rule from_utf8_as_bytes)
  have "char_byte CHR ''-'' < 0x80" by code_simp
  then show "str_ok (show_i64 w)"
    by (auto simp: str_ok_def dest!: show_i64_chars is_digit_byte_ascii intro!: utf8_valid_ascii)
qed

lemma decode_int_encode [codec]:
  "decode_int (byte CHR ''i'' # as_bytes (show_i64 w) @ byte CHR ''e'' # rest) = Ok (BInt w, rest)"
proof -
  have "position (\<lambda>b. b = byte CHR ''e'') (as_bytes (show_i64 w) @ byte CHR ''e'' # rest)
      = Some (length (show_i64 w))"
    by (subst position_append) (auto dest!: show_i64_chars is_digit_neq)
  moreover have "subslice 1 (length (show_i64 w) + 1)
      (byte CHR ''i'' # as_bytes (show_i64 w) @ byte CHR ''e'' # rest) = as_bytes (show_i64 w)"
    by (simp add: subslice_def)
  ultimately show ?thesis
    by (simp add: decode_int_def codec)
qed

lemma decode_str_encode [codec]:
  assumes "length (encode_str s @ rest) < 2 ^ 64"
  shows "decode_str (encode_str s @ rest) = Ok (s, rest)"
proof -
  let ?n = "show_nat (length s)" and ?d = "encode_str s @ rest"
  have pos: "position (\<lambda>b. b = byte CHR '':'') ?d = Some (length ?n)"
    unfolding encode_str_def append_assoc append_Cons append_Nil
    by (subst position_append) (auto dest!: show_nat_digits is_digit_neq)
  have "length s < 2 ^ 64" using assms by (simp add: encode_str_def)
  moreover have "take (length ?n) ?d = as_bytes ?n" by (simp add: encode_str_def)
  moreover have "(length ?n + 1 + length s) mod 2 ^ 64 = length ?n + 1 + length s"
    using assms by (simp add: encode_str_def)
  ultimately show ?thesis
    using pos by (simp add: decode_str_def codec subslice_def) (simp add: encode_str_def)
qed

fun bencode_wf :: "bencode \<Rightarrow> bool" where
  "bencode_wf (BList items) \<longleftrightarrow> (\<forall>v \<in> set items. bencode_wf v)"
| "bencode_wf (BDict entries) \<longleftrightarrow> bt_wf entries \<and> (\<forall>v \<in> snd ` set entries. bencode_wf v)"
| "bencode_wf _ \<longleftrightarrow> True"

definition decodes :: "bencode \<Rightarrow> bool" where
  "decodes v \<longleftrightarrow> (\<forall>rest. length (bencode_encode v @ rest) < 2 ^ 64 \<longrightarrow>
     bencode_decode (bencode_encode v @ rest) = Ok (v, rest))"

lemma encode_str_hd: "encode_str s \<noteq> [] \<and> is_digit_byte (hd (encode_str s))"
  using show_nat_digits [of "hd (show_nat (length s))" "length s"] is_digit_byte_ascii
  by (cases "show_nat (length s)") (auto simp: encode_str_def)

lemma encode_hd: "bencode_encode v \<noteq> [] \<and> hd (bencode_encode v) \<noteq> byte CHR ''e''"
  using encode_str_hd by (cases v) (auto, metis not_digit_ld(4))

lemma decode_list_loop_encode:
  assumes "\<forall>v \<in> set items. decodes v"
    and "length (concat (map bencode_encode items) @ byte CHR ''e'' # rest) < 2 ^ 64"
  shows "decode_list_loop acc (concat (map bencode_encode items) @ byte CHR ''e'' # rest)
    = Ok (BList (acc @ items), rest)"
  using assms
proof (induction items arbitrary: acc)
  case Nil
  then show ?case by (subst decode_list_loop.simps) simp
next
  case (Cons v items)
  let ?r = "concat (map bencode_encode items) @ byte CHR ''e'' # rest"
  have "bencode_decode (bencode_encode v @ ?r) = Ok (v, ?r)"
    using Cons.prems by (simp add: decodes_def)
  with Cons encode_hd [of v] show ?case
    by (subst decode_list_loop.simps) simp
qed

lemma decode_dict_loop_encode:
  assumes "\<forall>v \<in> snd ` set entries. decodes v" and "bt_wf (acc @ entries)"
    and "length (concat (map (\<lambda>(k, v). encode_str k @ bencode_encode v) entries) @ byte CHR ''e'' # rest) < 2 ^ 64"
  shows "decode_dict_loop acc (concat (map (\<lambda>(k, v). encode_str k @ bencode_encode v) entries) @ byte CHR ''e'' # rest)
    = Ok (BDict (acc @ entries), rest)"
  using assms
proof (induction entries arbitrary: acc)
  case Nil
  then show ?case by (subst decode_dict_loop.simps) simp
next
  case (Cons kv entries)
  obtain k v where kv: "kv = (k, v)" by fastforce
  let ?r = "concat (map (\<lambda>(k, v). encode_str k @ bencode_encode v) entries) @ byte CHR ''e'' # rest"
  have "decode_str (encode_str k @ bencode_encode v @ ?r) = Ok (k, bencode_encode v @ ?r)"
    using Cons.prems by (intro decode_str_encode) (simp add: kv)
  moreover have "bencode_decode (bencode_encode v @ ?r) = Ok (v, ?r)"
    using Cons.prems by (simp add: decodes_def kv)
  moreover have "bt_insert k v acc = acc @ [(k, v)]"
    using Cons.prems by (intro bt_insert_last) (auto simp: bt_wf_def kv sorted_wrt_append)
  ultimately show ?case
    using Cons encode_str_hd [of k] not_digit_ld(4)
    by (subst decode_dict_loop.simps) (auto simp: kv)
qed

lemma bencode_decodes: "bencode_wf v \<Longrightarrow> decodes v"
proof (induction v rule: bencode_encode.induct)
  case (1 i)
  then show ?case by (simp add: decodes_def bencode_decode.simps(2) codec)
next
  case (2 s)
  have "bencode_decode (encode_str s @ rest) = Ok (BStr s, rest)"
    if "length (encode_str s @ rest) < 2 ^ 64" for rest
    using decode_str_encode [OF that] encode_str_hd [of s]
    by (cases "encode_str s") (auto simp: bencode_decode.simps(2))
  then show ?case by (simp add: decodes_def)
next
  case (3 items)
  then show ?case
    using decode_list_loop_encode [of items _ "[]"] by (simp add: decodes_def bencode_decode.simps(2))
next
  case (4 entries)
  then have "\<forall>v \<in> snd ` set entries. decodes v" by auto
  with 4 show ?case
    using decode_dict_loop_encode [of entries "[]"] by (simp add: decodes_def bencode_decode.simps(2))
qed

text \<open>
  C27: decoding the encoding of any value (dictionary keys in \<open>BTreeMap\<close> order), followed by any
  other bytes, gives the value back and leaves exactly those bytes.
\<close>

theorem bencode_roundtrip:
  assumes "bencode_wf v" and "length (bencode_encode v @ rest) < 2 ^ 64"
  shows "bencode_decode (bencode_encode v @ rest) = Ok (v, rest)"
  using bencode_decodes [OF assms(1)] assms(2) by (simp add: decodes_def)

theorem bencode_roundtrip_witness:
  "bencode_decode (bencode_encode (BDict [([0x61], BInt (-7)), ([0x62], BList [BStr [1, 2], BInt 0])]) @ [9]) =
     Ok (BDict [([0x61], BInt (-7)), ([0x62], BList [BStr [1, 2], BInt 0])], [9])"
  by (rule bencode_roundtrip) (simp_all add: bt_wf_def encode_str_def show_i64_def show_nat.simps)

text \<open>
  Whatever the input, a successful \<open>decode\<close> returns as the rest a proper suffix of it, so a
  caller that decodes in a loop always makes progress.
\<close>

theorem bencode_consumes:
  "case bencode_decode data of Ok (v, rest) \<Rightarrow> strict_suffix rest data | _ \<Rightarrow> True"
  by (auto split: result.splits dest: decode_suffix(1))

text \<open>A length field that wraps \<open>usize\<close> panics instead of failing.\<close>

lemma decode_str_overflow_panics:
  "bencode_decode (as_bytes ''18446744073709551615:x'') = Panic"
proof -
  have "parse_usize ''18446744073709551615'' = Ok (2 ^ 64 - 1)"
    by (simp add: parse_usize_def parse_uint_def to_digit_def)
  moreover have "from_utf8 (as_bytes ''18446744073709551615'') = Some ''18446744073709551615''"
    by code_simp
  moreover have "is_digit_byte (byte CHR ''1'')"
    by code_simp
  ultimately show ?thesis
    by (simp add: bencode_decode.simps(2) decode_str_def)
qed

end
