(* ===== verification/Core_Util.thy ===== *)
theory Core_Util
  imports Bencode_Format
begin

text \<open>
  \<open>qvs-core/src/util.rs\<close>: identifiers, hexadecimal text, the second bencode decoder
  (\<open>simple_bencode_decode\<close>, used on tracker answers) and the two peer-list formats. The random
  bytes are a parameter. The last section relates the second decoder to the first.
\<close>

section \<open>Identifiers and hexadecimal text\<close>

definition generate_peer_id :: "bytes \<Rightarrow> bytes" where
  "generate_peer_id rnd = as_bytes ''-QV0001-'' @ take 12 rnd"

definition generate_node_id :: "bytes \<Rightarrow> bytes" where
  "generate_node_id rnd = take 20 rnd"

definition util_xor_distance :: "bytes \<Rightarrow> bytes \<Rightarrow> bytes" where
  "util_xor_distance a b = map (\<lambda>i. a ! i XOR b ! i) [0..<20]"

definition hex_encode :: "bytes \<Rightarrow> string" where
  "hex_encode data = concat (map hex_byte data)"

definition hex_decode :: "string \<Rightarrow> (bytes, string) result" where
  "hex_decode s =
     (if length s mod 2 \<noteq> 0 then Err ''hex string must have even length''
      else hex_pairs show_parse_error s [0..<length s div 2])"

lemma hex_decode_encode [codec]: "hex_decode (hex_encode bs) = Ok bs"
  by (simp add: hex_decode_def hex_encode_def length_concat_hex hex_pairs_all)

section \<open>The second bencode decoder\<close>

datatype simple_bencode =
    SInt u64 | SStr bytes | SList "simple_bencode list" | SDict "(bytes \<times> simple_bencode) list"

fun sb_as_int :: "simple_bencode \<Rightarrow> u64 option" where
  "sb_as_int (SInt i) = Some i"
| "sb_as_int _ = None"

fun sb_as_str_bytes :: "simple_bencode \<Rightarrow> bytes option" where
  "sb_as_str_bytes (SStr s) = Some s"
| "sb_as_str_bytes _ = None"

fun sb_as_list :: "simple_bencode \<Rightarrow> simple_bencode list option" where
  "sb_as_list (SList l) = Some l"
| "sb_as_list _ = None"

fun sb_as_dict :: "simple_bencode \<Rightarrow> (bytes \<times> simple_bencode) list option" where
  "sb_as_dict (SDict d) = Some d"
| "sb_as_dict _ = None"

definition simple_decode_int :: "bytes \<Rightarrow> (simple_bencode \<times> bytes, string) result" where
  "simple_decode_int data =
     (case position (\<lambda>b. b = byte CHR ''e'') (drop 1 data) of
        None \<Rightarrow> Err ''unterminated int''
      | Some end_rel \<Rightarrow>
          and_then (ok_or (from_utf8 (take end_rel (drop 1 data))) ''invalid int'') (\<lambda>s.
          and_then (map_err (\<lambda>_. ''bad int'') (parse_i64 s)) (\<lambda>val.
          Ok (SInt val, drop (2 + end_rel) data))))"

definition simple_decode_str :: "bytes \<Rightarrow> (simple_bencode \<times> bytes, string) result" where
  "simple_decode_str data =
     (case position (\<lambda>b. b = byte CHR '':'') data of
        None \<Rightarrow> Err ''no colon''
      | Some colon \<Rightarrow>
          and_then (ok_or (from_utf8 (take colon data)) ''invalid len'') (\<lambda>s.
          and_then (map_err (\<lambda>_. ''bad len'') (parse_usize s)) (\<lambda>len.
          let start = colon + 1; stop = (start + len) mod 2 ^ 64
          in if length data < stop then Err ''truncated string''
             else if stop < start then Panic
             else Ok (SStr (subslice start stop data), drop stop data))))"

function (sequential) simple_bencode_decode :: "bytes \<Rightarrow> (simple_bencode \<times> bytes, string) result"
  and simple_list_loop :: "simple_bencode list \<Rightarrow> bytes \<Rightarrow> (simple_bencode \<times> bytes, string) result"
  and simple_dict_loop :: "(bytes \<times> simple_bencode) list \<Rightarrow> bytes \<Rightarrow> (simple_bencode \<times> bytes, string) result"
  where
  "simple_bencode_decode [] = Err ''empty data''"
| "simple_bencode_decode (c # cs) =
     (if c = byte CHR ''i'' then simple_decode_int (c # cs)
      else if is_digit_byte c then simple_decode_str (c # cs)
      else if c = byte CHR ''l'' then simple_list_loop [] cs
      else if c = byte CHR ''d'' then simple_dict_loop [] cs
      else Err (''unexpected byte: '' @ show_nat (unat c)))"
| "simple_list_loop items rest =
     (if rest \<noteq> [] \<and> hd rest \<noteq> byte CHR ''e'' then
        and_then (simple_bencode_decode rest) (\<lambda>(val, remaining). simple_list_loop (items @ [val]) remaining)
      else if rest = [] then Err ''unterminated list''
      else Ok (SList items, tl rest))"
| "simple_dict_loop dict rest =
     (if rest \<noteq> [] \<and> hd rest \<noteq> byte CHR ''e'' then
        and_then (simple_bencode_decode rest) (\<lambda>(key, remaining).
        case key of
          SStr k \<Rightarrow>
            and_then (simple_bencode_decode remaining) (\<lambda>(val, remaining).
            simple_dict_loop (bt_insert k val dict) remaining)
        | _ \<Rightarrow> Err ''dict key not string'')
      else if rest = [] then Err ''unterminated dict''
      else Ok (SDict dict, tl rest))"
  by pat_completeness auto

lemma simple_int_shorter: "simple_decode_int data = Ok (v, rest) \<Longrightarrow> length rest < length data"
  by (auto simp: simple_decode_int_def and_then_Ok_iff dest!: position_Some split: if_splits option.splits)

lemma simple_str_shorter: "simple_decode_str data = Ok (s, rest) \<Longrightarrow> length rest < length data"
  by (auto simp: simple_decode_str_def and_then_Ok_iff Let_def dest!: position_Some split: if_splits option.splits)

lemma case_key_Ok_iff:
  "(case key of SStr k \<Rightarrow> f k | _ \<Rightarrow> Err e) = Ok x \<longleftrightarrow> (\<exists>k. key = SStr k \<and> f k = Ok x)"
  by (cases key) auto

lemma simple_dom_shorter:
  shows "simple_bencode_decode_simple_list_loop_simple_dict_loop_dom (Inl data) \<Longrightarrow>
      simple_bencode_decode data = Ok (v, rest) \<Longrightarrow> length rest < length data"
    and "simple_bencode_decode_simple_list_loop_simple_dict_loop_dom (Inr (Inl (items, xs))) \<Longrightarrow>
      simple_list_loop items xs = Ok (v, rest) \<Longrightarrow> length rest < length xs"
    and "simple_bencode_decode_simple_list_loop_simple_dict_loop_dom (Inr (Inr (dict, ys))) \<Longrightarrow>
      simple_dict_loop dict ys = Ok (v, rest) \<Longrightarrow> length rest < length ys"
proof (induction data and items xs and dict ys arbitrary: v rest and v rest and v rest
    rule: simple_bencode_decode_simple_list_loop_simple_dict_loop.pinduct)
  case 1
  then show ?case by (simp add: simple_bencode_decode.psimps)
next
  case (2 c cs)
  have "length rest < length cs" if "c = byte CHR ''l'' \<and> simple_list_loop [] cs = Ok (v, rest)
      \<or> c = byte CHR ''d'' \<and> simple_dict_loop [] cs = Ok (v, rest)"
    using that "2.IH" by auto
  with "2.prems" show ?case
    by (subst (asm) simple_bencode_decode.psimps(2) [OF "2.hyps"])
      (auto split: if_splits dest: simple_int_shorter simple_str_shorter)
next
  case (3 items xs)
  show ?case
  proof (cases "xs \<noteq> [] \<and> hd xs \<noteq> byte CHR ''e''")
    case True
    with "3.prems" obtain val rem where *: "simple_bencode_decode xs = Ok (val, rem)"
      "simple_list_loop (items @ [val]) rem = Ok (v, rest)"
      by (auto simp: simple_list_loop.psimps [OF "3.hyps"] and_then_Ok_iff)
    from "3.IH"(1) [OF True *(1)] "3.IH"(2) [OF True *(1) refl *(2)] show ?thesis by simp
  next
    case False
    with "3.prems" show ?thesis by (auto simp: simple_list_loop.psimps [OF "3.hyps"] split: if_splits)
  qed
next
  case (4 dict ys)
  show ?case
  proof (cases "ys \<noteq> [] \<and> hd ys \<noteq> byte CHR ''e''")
    case True
    with "4.prems" obtain k rem1 val rem2 where *: "simple_bencode_decode ys = Ok (SStr k, rem1)"
      "simple_bencode_decode rem1 = Ok (val, rem2)" "simple_dict_loop (bt_insert k val dict) rem2 = Ok (v, rest)"
      by (auto simp: simple_dict_loop.psimps [OF "4.hyps"] and_then_Ok_iff case_key_Ok_iff)
    from "4.IH"(1) [OF True *(1)] "4.IH"(2) [OF True *(1) refl refl *(2)]
      "4.IH"(3) [OF True *(1) refl refl *(2) refl *(3)] show ?thesis by simp
  next
    case False
    with "4.prems" show ?thesis by (auto simp: simple_dict_loop.psimps [OF "4.hyps"] split: if_splits)
  qed
qed

termination simple_bencode_decode
proof (relation "measure (\<lambda>x. case x of Inl data \<Rightarrow> 2 * length data
    | Inr (Inl (_, xs)) \<Rightarrow> 2 * length xs + 1 | Inr (Inr (_, ys)) \<Rightarrow> 2 * length ys + 1)", goal_cases)
  case (5 items rest a val remaining)
  then have "length remaining < length rest"
    by (auto intro: simple_dom_shorter(1))
  then show ?case by simp
next
  case (7 dict rest a key remaining k)
  then have "length remaining < length rest"
    by (auto intro: simple_dom_shorter(1))
  then show ?case by simp
next
  case (8 dict rest a key remaining1 k b val remaining2)
  then have "length remaining2 < length remaining1" "length remaining1 < length rest"
    by (auto intro: simple_dom_shorter(1))
  then show ?case by simp
qed simp_all

declare simple_bencode_decode.simps(2) [simp del] simple_list_loop.simps [simp del] simple_dict_loop.simps [simp del]

section \<open>Peer lists\<close>

definition parse_compact_peers :: "bytes \<Rightarrow> (bytes \<times> u16) list" where
  "parse_compact_peers data =
     map (\<lambda>chunk. (take 4 chunk, u16_from_be (chunk ! 4) (chunk ! 5))) (chunks_exact 6 data)"

definition try_u16 :: "u64 \<Rightarrow> u16 option" where
  "try_u16 i = (if 0 \<le> sint i \<and> sint i \<le> 65535 then Some (ucast i) else None)"

definition parse_dict_peers :: "simple_bencode list \<Rightarrow> (bytes \<times> u16) list" where
  "parse_dict_peers list =
     List.map_filter (\<lambda>entry.
       Option.bind (sb_as_dict entry) (\<lambda>dict.
       Option.bind (Option.bind (map_of dict (as_bytes ''ip'')) sb_as_str_bytes) (\<lambda>ip.
       Option.bind (Option.bind (Option.bind (map_of dict (as_bytes ''port'')) sb_as_int) try_u16) (\<lambda>port.
       Some (ip, port))))) list"

section \<open>The two decoders agree\<close>

fun to_bencode :: "simple_bencode \<Rightarrow> bencode" where
  "to_bencode (SInt i) = BInt i"
| "to_bencode (SStr s) = BStr s"
| "to_bencode (SList l) = BList (map to_bencode l)"
| "to_bencode (SDict d) = BDict (map (\<lambda>(k, v). (k, to_bencode v)) d)"

lemma map_bt_insert:
  "map (\<lambda>(k, v). (k, f v)) (bt_insert k v m) = bt_insert k (f v) (map (\<lambda>(k, v). (k, f v)) m)"
  by (induction k v m rule: bt_insert.induct) auto

lemma simple_int_agrees:
  "hd data = byte CHR ''i'' \<Longrightarrow> data \<noteq> [] \<Longrightarrow> simple_decode_int data = Ok (v, rest) \<Longrightarrow>
    decode_int data = Ok (to_bencode v, rest)"
  by (cases data) (auto simp: simple_decode_int_def decode_int_def and_then_Ok_iff subslice_def split: option.splits)

lemma simple_str_agrees:
  "simple_decode_str data = Ok (v, rest) \<Longrightarrow> \<exists>s. v = SStr s \<and> decode_str data = Ok (s, rest)"
  by (auto simp: simple_decode_str_def decode_str_def and_then_Ok_iff Let_def split: option.splits if_splits)

lemma simple_decode_str_case:
  assumes "simple_bencode_decode data = Ok (SStr s, rest)"
  shows "decode_str data = Ok (s, rest)"
proof -
  have no_list: "simple_list_loop items xs \<noteq> Ok (SStr s, rest)" for items xs
    by (induction items xs rule: simple_bencode_decode_simple_list_loop_simple_dict_loop.induct(2)
          [where P = "\<lambda>_. True" and R = "\<lambda>_ _. True"]; (simp; fail)?)
      (subst simple_list_loop.simps, auto simp: and_then_Ok_iff)
  have no_dict: "simple_dict_loop d xs \<noteq> Ok (SStr s, rest)" for d xs
    by (induction d xs rule: simple_bencode_decode_simple_list_loop_simple_dict_loop.induct(3)
          [where P = "\<lambda>_. True" and Q = "\<lambda>_ _. True"]; (simp; fail)?)
      (subst simple_dict_loop.simps, auto simp: and_then_Ok_iff split: simple_bencode.splits)
  obtain c cs where data: "data = c # cs"
    using assms by (cases data) auto
  with assms no_list no_dict show ?thesis
    by (auto simp: simple_bencode_decode.simps(2) simple_decode_int_def and_then_Ok_iff
        split: if_splits option.splits dest: simple_str_agrees)
qed

lemma simple_agrees:
  "simple_bencode_decode data = Ok (v, rest) \<Longrightarrow> bencode_decode data = Ok (to_bencode v, rest)"
  "simple_list_loop items xs = Ok (v, rest) \<Longrightarrow>
    decode_list_loop (map to_bencode items) xs = Ok (to_bencode v, rest)"
  "simple_dict_loop dict ys = Ok (v, rest) \<Longrightarrow>
    decode_dict_loop (map (\<lambda>(k, v). (k, to_bencode v)) dict) ys = Ok (to_bencode v, rest)"
proof (induction data and items xs and dict ys arbitrary: v rest and v rest and v rest
    rule: simple_bencode_decode_simple_list_loop_simple_dict_loop.induct)
  case 1
  then show ?case by simp
next
  case (2 c cs)
  then show ?case
    by (auto simp: bencode_decode.simps(2) simple_bencode_decode.simps(2) split: if_splits
        dest: simple_str_agrees intro: simple_int_agrees)
next
  case (3 items xs)
  show ?case
  proof (cases "xs \<noteq> [] \<and> hd xs \<noteq> byte CHR ''e''")
    case True
    with "3.prems" obtain val rem where *: "simple_bencode_decode xs = Ok (val, rem)"
      "simple_list_loop (items @ [val]) rem = Ok (v, rest)"
      by (auto simp: simple_list_loop.simps [of items xs] and_then_Ok_iff)
    from True "3.IH"(1) [OF True *(1)] "3.IH"(2) [OF True *(1) refl *(2)] show ?thesis
      by (simp add: decode_list_loop.simps [of _ xs])
  next
    case False
    with "3.prems" show ?thesis
      by (auto simp: simple_list_loop.simps [of items xs] decode_list_loop.simps [of _ xs] split: if_splits)
  qed
next
  case (4 dict ys)
  show ?case
  proof (cases "ys \<noteq> [] \<and> hd ys \<noteq> byte CHR ''e''")
    case True
    with "4.prems" obtain k rem1 val rem2 where *: "simple_bencode_decode ys = Ok (SStr k, rem1)"
      "simple_bencode_decode rem1 = Ok (val, rem2)" "simple_dict_loop (bt_insert k val dict) rem2 = Ok (v, rest)"
      by (auto simp: simple_dict_loop.simps [of dict ys] and_then_Ok_iff case_key_Ok_iff)
    from True simple_decode_str_case [OF *(1)] "4.IH"(2) [OF True *(1) refl refl *(2)]
      "4.IH"(3) [OF True *(1) refl refl *(2) refl *(3)] show ?thesis
      by (simp add: decode_dict_loop.simps [of _ ys] map_bt_insert)
  next
    case False
    with "4.prems" show ?thesis
      by (auto simp: simple_dict_loop.simps [of dict ys] decode_dict_loop.simps [of _ ys] split: if_splits)
  qed
qed

text \<open>
  Whatever \<open>simple_bencode_decode\<close> accepts, \<open>BencodeValue::decode\<close> accepts with the same value
  and the same rest.
\<close>

theorem simple_decode_agrees:
  "case simple_bencode_decode data of
     Ok (v, rest) \<Rightarrow> bencode_decode data = Ok (to_bencode v, rest) | _ \<Rightarrow> True"
  by (auto split: result.splits dest: simple_agrees(1))

text \<open>The converse fails on a dictionary key whose length has a plus sign.\<close>

lemma simple_decode_stricter:
  "bencode_decode (as_bytes ''d+1:ai1ee'') = Ok (BDict [(as_bytes ''a'', BInt 1)], [])"
  "simple_bencode_decode (as_bytes ''d+1:ai1ee'') = Err ''unexpected byte: 43''"
proof -
  have "parse_usize ''+1'' = Ok 1" "parse_i64 ''1'' = Ok 1"
    by (simp_all add: parse_usize_def parse_uint_def parse_i64_def to_digit_def)
  moreover have "from_utf8 (as_bytes ''+1'') = Some ''+1''" "from_utf8 (as_bytes ''1'') = Some ''1''"
    by code_simp+
  ultimately show "bencode_decode (as_bytes ''d+1:ai1ee'') = Ok (BDict [(as_bytes ''a'', BInt 1)], [])"
    by (simp add: bencode_decode.simps(2) decode_dict_loop.simps decode_str_def decode_int_def subslice_def)
  have "\<not> is_digit_byte (byte CHR ''+'')" "unat (byte CHR ''+'') = 43" "show_nat 43 = ''43''"
    by code_simp+
  then show "simple_bencode_decode (as_bytes ''d+1:ai1ee'') = Err ''unexpected byte: 43''"
    by (simp add: simple_bencode_decode.simps(2) simple_dict_loop.simps)
qed

lemma parse_compact_peers_concat [codec]:
  assumes "\<forall>p \<in> set ps. length (fst p) = 4"
  shows "parse_compact_peers (concat (map (\<lambda>(ip, port). ip @ u16_be port) ps)) = ps"
proof -
  let ?cs = "map (\<lambda>(ip, port). ip @ u16_be port) ps"
  have "chunks_exact 6 (concat ?cs) = ?cs"
    using assms by (intro chunks_exact_concat) auto
  then show ?thesis
    using assms by (simp add: parse_compact_peers_def comp_def case_prod_unfold nth_append u16_be_def map_idI)
qed

end
