(* ===== verification/Qvs_File.thy ===== *)
theory Qvs_File
  imports Core_Util
begin

text \<open>
  The \<open>.qvs\<close> metadata file of \<open>qvs-format/src/qvs_file.rs\<close>: a bencoded dictionary. Sizes are
  stored as \<open>i64\<close>, so the two casts between \<open>u64\<close> and \<open>i64\<close> keep the 64-bit pattern.
\<close>

record qvs_file =
  qf_info_hash :: info_hash
  qf_filename :: string
  qf_file_size :: u64
  qf_piece_length :: u64
  qf_pieces :: "bytes list"
  qf_trackers :: "string list"
  qf_keyframe_index :: "bytes option"

definition qvs_dict :: "qvs_file \<Rightarrow> (bytes \<times> bencode) list" where
  "qvs_dict f =
     (let d1 = bt_insert (as_bytes ''info_hash'') (BStr (ih_bytes (qf_info_hash f))) [];
          d2 = bt_insert (as_bytes ''filename'') (BStr (as_bytes (qf_filename f))) d1;
          d3 = bt_insert (as_bytes ''file_size'') (BInt (qf_file_size f)) d2;
          d4 = bt_insert (as_bytes ''piece_length'') (BInt (qf_piece_length f)) d3;
          d5 = bt_insert (as_bytes ''pieces'') (BStr (concat (qf_pieces f))) d4;
          d6 = bt_insert (as_bytes ''trackers'') (BList (map (\<lambda>t. BStr (as_bytes t)) (qf_trackers f))) d5
      in case qf_keyframe_index f of
           Some kf \<Rightarrow> bt_insert (as_bytes ''keyframe_index'') (BStr kf) d6
         | None \<Rightarrow> d6)"

definition qvs_encode :: "qvs_file \<Rightarrow> bytes" where
  "qvs_encode f = bencode_encode (BDict (qvs_dict f))"

definition qvs_decode :: "bytes \<Rightarrow> (qvs_file, qvod_error) result" where
  "qvs_decode data =
     and_then (bencode_decode data) (\<lambda>(val, _).
     and_then (ok_or (as_dict val) (Bencode ''expected dict'')) (\<lambda>dict.
     and_then (ok_or (Option.bind (map_of dict (as_bytes ''info_hash'')) as_str_bytes)
       (Bencode ''missing info_hash'')) (\<lambda>info_hash.
     if length info_hash \<noteq> 20 then Err (Bencode ''info_hash must be 20 bytes'') else
     and_then (ok_or (Option.bind (map_of dict (as_bytes ''filename'')) as_str_bytes)
       (Bencode ''missing filename'')) (\<lambda>filename_bytes.
     and_then (ok_or (from_utf8 filename_bytes) (Bencode ''invalid filename utf-8'')) (\<lambda>filename.
     and_then (ok_or (Option.bind (map_of dict (as_bytes ''file_size'')) as_int)
       (Bencode ''missing file_size'')) (\<lambda>file_size.
     and_then (ok_or (Option.bind (map_of dict (as_bytes ''piece_length'')) as_int)
       (Bencode ''missing piece_length'')) (\<lambda>piece_length.
     and_then (ok_or (Option.bind (map_of dict (as_bytes ''pieces'')) as_str_bytes)
       (Bencode ''missing pieces'')) (\<lambda>pieces_bytes.
     if length pieces_bytes mod 20 \<noteq> 0 then Err (Bencode ''pieces length not multiple of 20'') else
     Ok \<lparr>qf_info_hash = InfoHash info_hash, qf_filename = filename, qf_file_size = file_size,
         qf_piece_length = piece_length, qf_pieces = chunks_exact 20 pieces_bytes,
         qf_trackers =
           (case Option.bind (map_of dict (as_bytes ''trackers'')) as_list of
              None \<Rightarrow> []
            | Some list \<Rightarrow> List.map_filter (\<lambda>v. Option.bind (as_str_bytes v) from_utf8) list),
         qf_keyframe_index = Option.bind (map_of dict (as_bytes ''keyframe_index'')) as_str_bytes\<rparr>))))))))"

text \<open>The invariant of the Rust types: array lengths and UTF-8 strings.\<close>

definition qvs_wf :: "qvs_file \<Rightarrow> bool" where
  "qvs_wf f \<longleftrightarrow> arr20 (ih_bytes (qf_info_hash f)) \<and> str_ok (qf_filename f) \<and>
     (\<forall>p \<in> set (qf_pieces f). arr20 p) \<and> (\<forall>t \<in> set (qf_trackers f). str_ok t)"

lemma qvs_dict_wf: "bt_wf (qvs_dict f)"
  by (cases "qf_keyframe_index f")
    (simp_all only: qvs_dict_def Let_def option.case btree.inv_upd btree.inv_empty)

lemma bencode_wf_insert:
  "bencode_wf v \<Longrightarrow> \<forall>w \<in> snd ` set m. bencode_wf w \<Longrightarrow> \<forall>w \<in> snd ` set (bt_insert k v m). bencode_wf w"
  by (induction k v m rule: bt_insert.induct) auto

lemma qvs_dict_bencode_wf: "bencode_wf (BDict (qvs_dict f))"
proof -
  have "\<forall>w \<in> snd ` set (qvs_dict f). bencode_wf w"
    unfolding qvs_dict_def Let_def
    by (cases "qf_keyframe_index f")
      (simp_all only: option.case, (rule bencode_wf_insert | simp)+)
  then show ?thesis by (simp add: qvs_dict_wf)
qed

lemma as_bytes_eq_iff: "as_bytes s = as_bytes t \<longleftrightarrow> s = t"
  by (metis chars_of_as_bytes)

lemma qvs_dict_get:
  "map_of (qvs_dict f) (as_bytes k) =
     (if k = ''info_hash'' then Some (BStr (ih_bytes (qf_info_hash f)))
      else if k = ''filename'' then Some (BStr (as_bytes (qf_filename f)))
      else if k = ''file_size'' then Some (BInt (qf_file_size f))
      else if k = ''piece_length'' then Some (BInt (qf_piece_length f))
      else if k = ''pieces'' then Some (BStr (concat (qf_pieces f)))
      else if k = ''trackers'' then Some (BList (map (\<lambda>t. BStr (as_bytes t)) (qf_trackers f)))
      else if k = ''keyframe_index'' then map_option BStr (qf_keyframe_index f) else None)"
  by (simp only: qvs_dict_def Let_def btree.lookup_upd btree.inv_upd btree.inv_empty fun_upd_apply as_bytes_eq_iff
      fun_upd_apply split: option.split) auto

lemma map_filter_strings:
  "\<forall>t \<in> set ts. str_ok t \<Longrightarrow>
    List.map_filter (\<lambda>v. Option.bind (as_str_bytes v) from_utf8) (map (\<lambda>t. BStr (as_bytes t)) ts) = ts"
  by (induction ts) (simp_all add: from_utf8_as_bytes)

text \<open>
  C30: reading a written \<open>.qvs\<close> file gives every field back, sizes above \<open>2 ^ 63\<close> included.
\<close>

theorem qvs_file_roundtrip:
  assumes "qvs_wf f" and "length (qvs_encode f) < 2 ^ 64"
  shows "qvs_decode (qvs_encode f) = Ok f"
proof -
  have dec: "bencode_decode (qvs_encode f) = Ok (BDict (qvs_dict f), [])"
    using bencode_decodes [OF qvs_dict_bencode_wf, of f] assms(2) by (simp add: decodes_def qvs_encode_def)
  have len: "length (concat ps) mod 20 = 0" if "\<forall>p \<in> set ps. arr20 p" for ps :: "bytes list"
    using that by (induction ps) (auto simp: arr20_def)
  have "chunks_exact 20 (concat (qf_pieces f)) = qf_pieces f"
    using assms(1) by (intro chunks_exact_concat) (auto simp: qvs_wf_def arr20_def)
  moreover have "length (concat (qf_pieces f)) mod 20 = 0"
    using assms(1) by (intro len) (simp add: qvs_wf_def)
  ultimately show ?thesis
    using assms(1) by (cases "qf_keyframe_index f")
      (simp_all add: qvs_decode_def dec qvs_dict_get [simplified map_append] qvs_wf_def arr20_def
        map_filter_strings from_utf8_as_bytes del: list.map)
qed

theorem qvs_file_roundtrip_witness:
  "qvs_decode (qvs_encode \<lparr>qf_info_hash = InfoHash (replicate 20 7), qf_filename = ''a.mp4'',
     qf_file_size = 2 ^ 64 - 1, qf_piece_length = 16, qf_pieces = [replicate 20 1],
     qf_trackers = [''http://t''], qf_keyframe_index = Some [1, 2]\<rparr>) =
   Ok \<lparr>qf_info_hash = InfoHash (replicate 20 7), qf_filename = ''a.mp4'',
     qf_file_size = 2 ^ 64 - 1, qf_piece_length = 16, qf_pieces = [replicate 20 1],
     qf_trackers = [''http://t''], qf_keyframe_index = Some [1, 2]\<rparr>" (is "qvs_decode (qvs_encode ?f) = Ok ?f")
proof (rule qvs_file_roundtrip)
  show "qvs_wf ?f" by code_simp
  have "length (qvs_encode ?f) < 400" by code_simp
  then show "length (qvs_encode ?f) < 2 ^ 64" by simp
qed

end
