(* ===== verification/Media_Uri.thy ===== *)
theory Media_Uri
  imports Core_Types
begin

text \<open>
  The resource identifiers of \<open>qvs-format/src/uri.rs\<close>: \<open>qvod://hash|name|size|format|\<close> and
  \<open>MediaUri\<close>, which also takes HTTP addresses and local paths. SHA-1 is a parameter.
\<close>

section \<open>The \<open>qvod\<close> address\<close>

record qvod_uri =
  qu_info_hash :: info_hash
  qu_filename :: string
  qu_filesize :: u64
  qu_format :: string

definition parse_qvod_uri :: "string \<Rightarrow> (qvod_uri, qvod_error) result" where
  "parse_qvod_uri s0 =
     and_then (ok_or (case strip_prefix ''qvod://'' s0 of Some s \<Rightarrow> Some s | None \<Rightarrow> strip_prefix ''qvod:'' s0)
       (InvalidUri ''missing qvod:// prefix'')) (\<lambda>s.
     if \<not> ends_with ''|'' s then Err (InvalidUri (''URI must end with trailing pipe '' @ [CHR 0x27, CHR ''|'', CHR 0x27])) else
     let trimmed = (case strip_suffix ''|'' s of Some t \<Rightarrow> t | None \<Rightarrow> s);
         parts = split_on CHR ''|'' trimmed
     in if length parts < 4 then
          Err (InvalidUri (''expected at least 4 pipe-delimited parts, got '' @ show_nat (length parts))) else
     let hash_str = parts ! 0
     in if length hash_str \<noteq> 40 then
          Err (InvalidUri (''info_hash must be 40 hex chars, got '' @ show_nat (length hash_str))) else
     and_then (parse_info_hash hash_str) (\<lambda>info_hash.
     let filename = parts ! 1
     in if filename = [] then Err (InvalidUri ''filename cannot be empty'') else
     and_then (map_err (\<lambda>e. InvalidUri (''invalid filesize: '' @ show_parse_error e)) (parse_u64 (parts ! 2))) (\<lambda>filesize.
     let format = parts ! 3
     in if format = [] then Err (InvalidUri ''format cannot be empty'') else
     Ok \<lparr>qu_info_hash = info_hash, qu_filename = filename, qu_filesize = filesize, qu_format = format\<rparr>)))"

definition show_qvod_uri :: "qvod_uri \<Rightarrow> string" where
  "show_qvod_uri u =
     ''qvod://'' @ show_info_hash (qu_info_hash u) @ ''|'' @ qu_filename u @ ''|'' @
     show_u64 (qu_filesize u) @ ''|'' @ qu_format u @ ''|''"

section \<open>Media addresses\<close>

record http_url =
  hu_url :: string
  hu_filename :: string

datatype media_uri = QvodAddr qvod_uri | HttpAddr http_url | FileAddr string

fun mu_info_hash :: "(bytes \<Rightarrow> bytes) \<Rightarrow> media_uri \<Rightarrow> info_hash" where
  "mu_info_hash sha1 (QvodAddr u) = qu_info_hash u"
| "mu_info_hash sha1 (HttpAddr h) = InfoHash (sha1 (as_bytes (hu_url h)))"
| "mu_info_hash sha1 (FileAddr path) = InfoHash (sha1 (as_bytes path))"

fun mu_filename :: "media_uri \<Rightarrow> string" where
  "mu_filename (QvodAddr u) = qu_filename u"
| "mu_filename (HttpAddr h) = hu_filename h"
| "mu_filename (FileAddr path) = rsplit_first CHR 0x5C (rsplit_first CHR ''/'' path)"

fun mu_filesize :: "media_uri \<Rightarrow> u64" where
  "mu_filesize (QvodAddr u) = qu_filesize u"
| "mu_filesize _ = 0"

text \<open>A path that starts with a slash, two backslashes or a drive letter.\<close>

definition is_abs_path :: "string \<Rightarrow> bool" where
  "is_abs_path s \<longleftrightarrow>
     starts_with ''/'' s \<or> starts_with [CHR 0x5C, CHR 0x5C] s \<or>
     (case s of [] \<Rightarrow> False
      | b # _ \<Rightarrow> is_ascii_alphabetic b \<and> 2 < length s \<and> s ! 1 = CHR '':'' \<and>
          (s ! 2 = CHR 0x5C \<or> s ! 2 = CHR ''/''))"

definition parse_media_uri :: "string \<Rightarrow> (media_uri, qvod_error) result" where
  "parse_media_uri s =
     (if starts_with ''qvod://'' s \<or> starts_with ''qvod:'' s then
        and_then (parse_qvod_uri s) (\<lambda>u. Ok (QvodAddr u))
      else if starts_with ''http://'' s \<or> starts_with ''https://'' s then
        let n = rsplit_first CHR ''/'' s
        in Ok (HttpAddr \<lparr>hu_url = s, hu_filename = (if n = [] then ''stream'' else n)\<rparr>)
      else case strip_prefix ''file://'' s of
        Some path \<Rightarrow> Ok (FileAddr path)
      | None \<Rightarrow>
          if is_abs_path s then Ok (FileAddr s)
          else Err (InvalidUri ''unsupported URI scheme (expected qvod://, http(s)://, file://, or a local file path)''))"

fun show_media_uri :: "media_uri \<Rightarrow> string" where
  "show_media_uri (QvodAddr u) = show_qvod_uri u"
| "show_media_uri (HttpAddr h) = hu_url h"
| "show_media_uri (FileAddr path) = ''file://'' @ path"

section \<open>Round trips\<close>

text \<open>What the parser establishes of every address it returns.\<close>

definition qvod_uri_wf :: "qvod_uri \<Rightarrow> bool" where
  "qvod_uri_wf u \<longleftrightarrow> arr20 (ih_bytes (qu_info_hash u)) \<and>
     qu_filename u \<noteq> [] \<and> CHR ''|'' \<notin> set (qu_filename u) \<and>
     qu_format u \<noteq> [] \<and> CHR ''|'' \<notin> set (qu_format u)"

lemma hex_no_pipe: "CHR ''|'' \<notin> set (show_info_hash h)"
proof -
  have "hex_char d \<noteq> CHR ''|''" if "d < 16" for d
    using of_char_hex_char [OF that] that by (auto split: if_splits)
  then show ?thesis
    by (auto simp: show_info_hash_def hex_byte_def nibbles(1,2) dest: sym)
qed

lemma show_u64_no_pipe: "CHR ''|'' \<notin> set (show_u64 n)"
  by (auto simp: show_u64_def dest: show_nat_digits is_digit_neq)

lemma parse_qvod_uri_wf: "parse_qvod_uri s = Ok u \<Longrightarrow> qvod_uri_wf u"
proof -
  assume "parse_qvod_uri s = Ok u"
  then obtain t h where t: "4 \<le> length (split_on CHR ''|'' t)"
    and h: "parse_info_hash h = Ok (qu_info_hash u)"
    and u: "qu_filename u = split_on CHR ''|'' t ! 1" "qu_filename u \<noteq> []"
      "qu_format u = split_on CHR ''|'' t ! 3" "qu_format u \<noteq> []"
    by (auto simp: parse_qvod_uri_def and_then_Ok_iff Let_def not_less split: if_splits)
  have "split_on CHR ''|'' t ! 1 \<in> set (split_on CHR ''|'' t)" "split_on CHR ''|'' t ! 3 \<in> set (split_on CHR ''|'' t)"
    using t by auto
  with h u parse_info_hash_arr20 [OF h] show "qvod_uri_wf u"
    by (auto simp: qvod_uri_wf_def dest: split_on_parts)
qed

lemma show_info_hash_parses:
  "arr20 (ih_bytes h) \<Longrightarrow> parse_info_hash (show_info_hash h) = Ok h \<and> length (show_info_hash h) = 40"
  by (cases h) (simp add: hex_pairs_all parse_info_hash_def show_info_hash_def length_concat_hex arr20_def)

lemma parse_show_qvod_uri: "qvod_uri_wf u \<Longrightarrow> parse_qvod_uri (show_qvod_uri u) = Ok u"
proof -
  assume wf: "qvod_uri_wf u"
  let ?t = "show_info_hash (qu_info_hash u) @ ''|'' @ qu_filename u @ ''|'' @ show_u64 (qu_filesize u) @ ''|'' @ qu_format u"
  have "show_qvod_uri u = ''qvod://'' @ (?t @ ''|'')"
    by (simp add: show_qvod_uri_def)
  then have pre: "strip_prefix ''qvod://'' (show_qvod_uri u) = Some (?t @ ''|'')"
    by (simp only: strip_prefix_append)
  have split: "split_on CHR ''|'' ?t =
      [show_info_hash (qu_info_hash u), qu_filename u, show_u64 (qu_filesize u), qu_format u]"
    using wf hex_no_pipe show_u64_no_pipe
    by (simp add: qvod_uri_wf_def split_on_append split_on_none)
  show ?thesis
    using wf show_info_hash_parses [of "qu_info_hash u"]
    by (simp only: parse_qvod_uri_def pre option.case ok_or.simps and_then.simps ends_with_append
        strip_suffix_append split Let_def) (simp add: qvod_uri_wf_def parse_u64_show_u64)
qed

text \<open>
  C31: printing a \<open>qvod\<close> address and parsing the text gives the address back exactly when its parts
  are non-empty and free of \<open>|\<close>, which holds of every address the parser returns; printing is
  therefore a normal form of what the parser accepts.
\<close>

theorem qvod_uri_roundtrip:
  "(qvod_uri_wf u \<longleftrightarrow> parse_qvod_uri (show_qvod_uri u) = Ok u) \<and>
   (parse_qvod_uri s = Ok u \<longrightarrow> parse_qvod_uri (show_qvod_uri u) = Ok u)"
  by (auto intro: parse_show_qvod_uri parse_qvod_uri_wf)

theorem qvod_uri_roundtrip_witness:
  "parse_qvod_uri (show_qvod_uri \<lparr>qu_info_hash = InfoHash (replicate 20 0xA1), qu_filename = ''movie.mp4'',
      qu_filesize = 734003200, qu_format = ''rmvb''\<rparr>) =
    Ok \<lparr>qu_info_hash = InfoHash (replicate 20 0xA1), qu_filename = ''movie.mp4'',
      qu_filesize = 734003200, qu_format = ''rmvb''\<rparr>"
  by (rule qvod_uri_roundtrip [THEN conjunct1, THEN iffD1]) (simp add: qvod_uri_wf_def arr20_def)

text \<open>
  Parts after the fourth are ignored, and a \<open>|\<close> in the file name is not escaped: such an address
  prints to the text of another one.
\<close>

lemma parse_qvod_uri_extra:
  assumes "qvod_uri_wf u"
  shows "parse_qvod_uri (show_qvod_uri u @ extra @ ''|'') = Ok u"
proof -
  let ?t = "show_info_hash (qu_info_hash u) @ ''|'' @ qu_filename u @ ''|'' @ show_u64 (qu_filesize u) @
    ''|'' @ qu_format u @ ''|'' @ extra"
  have "show_qvod_uri u @ extra @ ''|'' = ''qvod://'' @ (?t @ ''|'')"
    by (simp add: show_qvod_uri_def)
  then have pre: "strip_prefix ''qvod://'' (show_qvod_uri u @ extra @ ''|'') = Some (?t @ ''|'')"
    by (simp only: strip_prefix_append)
  have split: "split_on CHR ''|'' ?t =
      [show_info_hash (qu_info_hash u), qu_filename u, show_u64 (qu_filesize u), qu_format u]
      @ split_on CHR ''|'' extra"
    using assms hex_no_pipe show_u64_no_pipe
    by (simp add: qvod_uri_wf_def split_on_append)
  show ?thesis
    using assms show_info_hash_parses [of "qu_info_hash u"]
    by (simp only: parse_qvod_uri_def pre option.case ok_or.simps and_then.simps ends_with_append
        strip_suffix_append split Let_def) (simp add: qvod_uri_wf_def parse_u64_show_u64)
qed

lemma qvod_uri_pipe:
  assumes "arr20 (ih_bytes h)"
  shows "parse_qvod_uri (show_qvod_uri \<lparr>qu_info_hash = h, qu_filename = ''x|7|z'', qu_filesize = 5, qu_format = ''mp4''\<rparr>) =
     Ok \<lparr>qu_info_hash = h, qu_filename = ''x'', qu_filesize = 7, qu_format = ''z''\<rparr>"
proof -
  let ?u = "\<lparr>qu_info_hash = h, qu_filename = ''x'', qu_filesize = 7, qu_format = ''z''\<rparr>"
  have "show_u64 7 = ''7''" "show_u64 5 = ''5''" by code_simp+
  then have eq: "show_qvod_uri \<lparr>qu_info_hash = h, qu_filename = ''x|7|z'', qu_filesize = 5, qu_format = ''mp4''\<rparr> =
      show_qvod_uri ?u @ ''5|mp4'' @ ''|''"
    by (simp add: show_qvod_uri_def)
  show ?thesis
    unfolding eq using assms by (intro parse_qvod_uri_extra) (simp add: qvod_uri_wf_def)
qed

text \<open>The media address a printed address parses to, for the three kinds.\<close>

lemma parse_file_addr: "parse_media_uri (''file://'' @ p) = Ok (FileAddr p)"
  by (simp add: parse_media_uri_def starts_with_def strip_prefix_def)

lemma parse_qvod_addr: "qvod_uri_wf q \<Longrightarrow> parse_media_uri (show_qvod_uri q) = Ok (QvodAddr q)"
  using parse_show_qvod_uri [of q] by (simp add: parse_media_uri_def show_qvod_uri_def starts_with_def)

lemma media_uri_roundtrip:
  "parse_media_uri s = Ok u \<Longrightarrow> parse_media_uri (show_media_uri u) = Ok u"
proof -
  assume p: "parse_media_uri s = Ok u"
  show "parse_media_uri (show_media_uri u) = Ok u"
  proof (cases u)
    case (QvodAddr q)
    with p have "parse_qvod_uri s = Ok q"
      by (auto simp: parse_media_uri_def and_then_Ok_iff Let_def split: if_splits option.splits)
    then show ?thesis by (simp add: QvodAddr parse_qvod_addr [OF parse_qvod_uri_wf])
  next
    case (HttpAddr h)
    with p have "hu_url h = s"
      by (auto simp: parse_media_uri_def and_then_Ok_iff Let_def split: if_splits option.splits)
    with p HttpAddr show ?thesis by simp
  next
    case (FileAddr path)
    then show ?thesis by (simp only: show_media_uri.simps parse_file_addr)
  qed
qed

end
