(* ===== verification/Dht_Rpc.thy ===== *)
theory Dht_Rpc
  imports Core_Types
begin

text \<open>
  The binary messages of the DHT (\<open>qvs-dht/src/rpc.rs\<close>): the eight-byte header, the eight message
  kinds and their codec. The lemmas give the round trip of the kinds that have one and show that
  \<open>PingResponse\<close> and \<open>FindPeersResponse\<close> do not.
\<close>

section \<open>Messages\<close>

definition MAGIC :: bytes where "MAGIC = [0x51, 0x56, 0x44, 0x54]"
definition PROTOCOL_VERSION :: u8 where "PROTOCOL_VERSION = 1"

datatype message_type = TPing | TFindNode | TFindPeers | TAnnounce

fun msg_type_u8 :: "message_type \<Rightarrow> u8" where
  "msg_type_u8 TPing = 0"
| "msg_type_u8 TFindNode = 1"
| "msg_type_u8 TFindPeers = 2"
| "msg_type_u8 TAnnounce = 3"

definition msg_type_from_u8 :: "u8 \<Rightarrow> message_type option" where
  "msg_type_from_u8 v =
     (if v = 0 then Some TPing else if v = 1 then Some TFindNode
      else if v = 2 then Some TFindPeers else if v = 3 then Some TAnnounce else None)"

record message_header =
  mh_magic :: bytes
  mh_msg_type :: message_type
  mh_txn_id :: u16
  mh_ver :: u8

record node_info =
  ni_node_id :: node_id
  ni_ip :: bytes
  ni_port :: u16

datatype find_peers_result = Peers "bytes list" | Nodes "node_info list"

datatype dht_message =
    Ping message_header node_id
  | PingResponse message_header node_id
  | FindNode message_header node_id node_id
  | FindNodeResponse message_header node_id "node_info list"
  | FindPeers message_header node_id bytes
  | FindPeersResponse message_header node_id find_peers_result
  | Announce message_header node_id bytes bytes u16
  | AnnounceResponse message_header node_id

section \<open>Encoding\<close>

definition encode_node_info :: "node_info \<Rightarrow> bytes" where
  "encode_node_info n = nid_bytes (ni_node_id n) @ ni_ip n @ u16_be (ni_port n)"

definition encode_header :: "message_header \<Rightarrow> bytes" where
  "encode_header h = MAGIC @ [msg_type_u8 (mh_msg_type h)] @ u16_be (mh_txn_id h) @ [PROTOCOL_VERSION]"

fun dht_encode :: "dht_message \<Rightarrow> bytes" where
  "dht_encode (Ping h n) = encode_header h @ nid_bytes n"
| "dht_encode (PingResponse h n) = encode_header h @ nid_bytes n"
| "dht_encode (FindNode h n t) = encode_header h @ nid_bytes n @ nid_bytes t"
| "dht_encode (FindNodeResponse h n nodes) =
     encode_header h @ nid_bytes n @ concat (map encode_node_info nodes)"
| "dht_encode (FindPeers h n ih) = encode_header h @ nid_bytes n @ ih"
| "dht_encode (FindPeersResponse h n (Peers ps)) =
     encode_header h @ nid_bytes n @ [0] @ u16_be (of_nat (length ps)) @ concat ps"
| "dht_encode (FindPeersResponse h n (Nodes ns)) =
     encode_header h @ nid_bytes n @ [1] @ u16_be (of_nat (length ns)) @ concat (map encode_node_info ns)"
| "dht_encode (Announce h n ih token port) =
     encode_header h @ nid_bytes n @ ih @ token @ u16_be port"
| "dht_encode (AnnounceResponse h n) = encode_header h @ nid_bytes n @ [0]"

section \<open>Decoding\<close>

definition decode_node_info :: "bytes \<Rightarrow> (node_info \<times> bytes, qvod_error) result" where
  "decode_node_info data =
     (if length data < 26 then Err (Protocol ''node info too short'')
      else Ok (\<lparr>ni_node_id = NodeId (take 20 data), ni_ip = subslice 20 24 data,
                ni_port = u16_from_be (data ! 24) (data ! 25)\<rparr>, drop 26 data))"

definition decode_header :: "bytes \<Rightarrow> (message_header \<times> bytes, qvod_error) result" where
  "decode_header data =
     (if length data < 8 then Err (Protocol ''header too short'')
      else if take 4 data \<noteq> MAGIC then Err (Protocol ''invalid magic'')
      else and_then (ok_or (msg_type_from_u8 (data ! 4)) (Protocol ''unknown msg type'')) (\<lambda>mt.
        let txn_id = u16_from_be (data ! 5) (data ! 6); ver = data ! 7
        in if ver \<noteq> PROTOCOL_VERSION then Err (Protocol ''unsupported version'')
           else Ok (\<lparr>mh_magic = take 4 data, mh_msg_type = mt, mh_txn_id = txn_id, mh_ver = ver\<rparr>, drop 8 data)))"

text \<open>The loop of a \<open>FindNodeResponse\<close>: nodes while 26 bytes remain.\<close>

function decode_nodes :: "bytes \<Rightarrow> (node_info list, qvod_error) result" where
  "decode_nodes remaining =
     (if 26 \<le> length remaining then
        and_then (decode_node_info remaining) (\<lambda>(node, rem).
        and_then (decode_nodes rem) (\<lambda>nodes. Ok (node # nodes)))
      else Ok [])"
  by pat_completeness auto
termination
  by (relation "measure length") (auto simp: decode_node_info_def split: if_splits)

declare decode_nodes.simps [simp del]

text \<open>The two counted loops of a \<open>FindPeersResponse\<close>, which stop when the data runs out.\<close>

fun decode_peers_count :: "nat \<Rightarrow> bytes \<Rightarrow> bytes list" where
  "decode_peers_count 0 rem = []"
| "decode_peers_count (Suc n) rem =
     (if length rem < 6 then [] else take 6 rem # decode_peers_count n (drop 6 rem))"

fun decode_nodes_count :: "nat \<Rightarrow> bytes \<Rightarrow> node_info list" where
  "decode_nodes_count 0 rem = []"
| "decode_nodes_count (Suc n) rem =
     (if length rem < 26 then []
      else case decode_node_info rem of
             Ok (node, rest) \<Rightarrow> node # decode_nodes_count n rest
           | _ \<Rightarrow> decode_nodes_count n rem)"

definition dht_decode :: "bytes \<Rightarrow> (dht_message, qvod_error) result" where
  "dht_decode data =
     and_then (decode_header data) (\<lambda>(header, rest).
     case mh_msg_type header of
       TPing \<Rightarrow>
         if length rest < 20 then Err (Protocol ''ping too short'')
         else Ok (Ping header (NodeId (take 20 rest)))
     | TFindNode \<Rightarrow>
         if length rest < 20 then Err (Protocol ''find_node too short'')
         else let node_id = NodeId (take 20 rest)
              in if length rest = 40 then Ok (FindNode header node_id (NodeId (subslice 20 40 rest)))
                 else and_then (decode_nodes (drop 20 rest)) (\<lambda>nodes. Ok (FindNodeResponse header node_id nodes))
     | TFindPeers \<Rightarrow>
         if length rest < 40 then Err (Protocol ''find_peers too short'')
         else let node_id = NodeId (take 20 rest); info_hash = subslice 20 40 rest
              in if length rest = 40 then Ok (FindPeers header node_id info_hash)
                 else let tag = rest ! 40; payload = drop 41 rest
                      in if length payload < 2 then Err (Protocol ''find_peers response too short'')
                         else let count = unat (u16_from_be (payload ! 0) (payload ! 1)); data = drop 2 payload
                              in Ok (FindPeersResponse header node_id
                                   (if tag = 0 then Peers (decode_peers_count count data)
                                    else Nodes (decode_nodes_count count data)))
     | TAnnounce \<Rightarrow>
         if length rest < 21 then Err (Protocol ''announce too short'')
         else let node_id = NodeId (take 20 rest)
              in if length rest = 21 then Ok (AnnounceResponse header node_id)
                 else if 46 \<le> length rest then
                   Ok (Announce header node_id (subslice 20 40 rest) (subslice 40 44 rest)
                         (u16_from_be (rest ! 44) (rest ! 45)))
                 else Err (Protocol ''announce payload incomplete''))"

section \<open>Responses\<close>

fun is_response :: "dht_message \<Rightarrow> bool" where
  "is_response (PingResponse _ _) = True"
| "is_response (FindNodeResponse _ _ _) = True"
| "is_response (FindPeersResponse _ _ _) = True"
| "is_response (AnnounceResponse _ _) = True"
| "is_response _ = False"

definition error_header :: "message_header \<Rightarrow> message_header" where
  "error_header h = \<lparr>mh_magic = MAGIC, mh_msg_type = mh_msg_type h, mh_txn_id = 0xFFFF, mh_ver = PROTOCOL_VERSION\<rparr>"

fun error_response :: "dht_message \<Rightarrow> dht_message option" where
  "error_response (Ping h n) = Some (PingResponse (error_header h) n)"
| "error_response (FindNode h n _) = Some (PingResponse (error_header h) n)"
| "error_response (FindPeers h n _) = Some (PingResponse (error_header h) n)"
| "error_response (Announce h n _ _ _) = Some (PingResponse (error_header h) n)"
| "error_response _ = None"

section \<open>The type invariant and the codec laws\<close>

definition node_info_wf :: "node_info \<Rightarrow> bool" where
  "node_info_wf n \<longleftrightarrow> arr20 (nid_bytes (ni_node_id n)) \<and> length (ni_ip n) = 4"

definition header_wf :: "message_type \<Rightarrow> message_header \<Rightarrow> bool" where
  "header_wf t h \<longleftrightarrow> mh_magic h = MAGIC \<and> mh_msg_type h = t \<and> mh_ver h = PROTOCOL_VERSION"

text \<open>The messages the code builds: array lengths, and a header of the message's own type.\<close>

fun dht_wf :: "dht_message \<Rightarrow> bool" where
  "dht_wf (Ping h n) \<longleftrightarrow> header_wf TPing h \<and> arr20 (nid_bytes n)"
| "dht_wf (PingResponse h n) \<longleftrightarrow> header_wf TPing h \<and> arr20 (nid_bytes n)"
| "dht_wf (FindNode h n t) \<longleftrightarrow> header_wf TFindNode h \<and> arr20 (nid_bytes n) \<and> arr20 (nid_bytes t)"
| "dht_wf (FindNodeResponse h n ns) \<longleftrightarrow>
     header_wf TFindNode h \<and> arr20 (nid_bytes n) \<and> (\<forall>i \<in> set ns. node_info_wf i)"
| "dht_wf (FindPeers h n ih) \<longleftrightarrow> header_wf TFindPeers h \<and> arr20 (nid_bytes n) \<and> arr20 ih"
| "dht_wf (FindPeersResponse h n (Peers ps)) \<longleftrightarrow>
     header_wf TFindPeers h \<and> arr20 (nid_bytes n) \<and> (\<forall>p \<in> set ps. length p = 6)"
| "dht_wf (FindPeersResponse h n (Nodes ns)) \<longleftrightarrow>
     header_wf TFindPeers h \<and> arr20 (nid_bytes n) \<and> (\<forall>i \<in> set ns. node_info_wf i)"
| "dht_wf (Announce h n ih token port) \<longleftrightarrow>
     header_wf TAnnounce h \<and> arr20 (nid_bytes n) \<and> arr20 ih \<and> length token = 4"
| "dht_wf (AnnounceResponse h n) \<longleftrightarrow> header_wf TAnnounce h \<and> arr20 (nid_bytes n)"

lemma decode_encode_header [codec]:
  assumes "header_wf t h"
  shows "decode_header (encode_header h @ rest) = Ok (h, rest)"
proof -
  have "msg_type_from_u8 (msg_type_u8 t) = Some t"
    by (cases t) (simp_all add: msg_type_from_u8_def)
  with assms show ?thesis
    by (cases h) (simp add: decode_header_def encode_header_def header_wf_def MAGIC_def u16_be_def Let_def)
qed

lemma decode_encode_node_info [codec]:
  assumes "node_info_wf n"
  shows "decode_node_info (encode_node_info n @ rest) = Ok (n, rest)"
  using assms
  by (cases n) (simp add: decode_node_info_def encode_node_info_def node_info_wf_def arr20_def
      subslice_def nth_append u16_be_def node_id.expand)

lemma length_encode_node_info [shape]: "node_info_wf n \<Longrightarrow> length (encode_node_info n) = 26"
  by (simp add: encode_node_info_def node_info_wf_def arr20_def)

lemma decode_nodes_concat [codec]:
  "\<forall>n \<in> set ns. node_info_wf n \<Longrightarrow> decode_nodes (concat (map encode_node_info ns)) = Ok ns"
proof (induction ns)
  case Nil
  show ?case by (subst decode_nodes.simps) simp
next
  case (Cons n ns)
  then show ?case
    by (subst decode_nodes.simps) (simp add: decode_encode_node_info length_encode_node_info)
qed

lemma length_concat_nodes [shape]:
  "\<forall>n \<in> set ns. node_info_wf n \<Longrightarrow> length (concat (map encode_node_info ns)) = 26 * length ns"
  by (induction ns) (simp_all add: length_encode_node_info)

lemma length_concat_peers [shape]: "\<forall>p \<in> set ps. length p = k \<Longrightarrow> length (concat ps) = k * length ps"
  by (induction ps) simp_all

fun wire_roundtrips :: "dht_message \<Rightarrow> bool" where
  "wire_roundtrips (PingResponse _ _) = False"
| "wire_roundtrips (FindPeersResponse _ _ _) = False"
| "wire_roundtrips _ = True"

text \<open>
  C28: every request, every \<open>FindNodeResponse\<close> and every \<open>AnnounceResponse\<close> the code builds is
  decoded to itself by the receiver.
\<close>

theorem dht_message_roundtrip:
  assumes "dht_wf m" and "wire_roundtrips m"
  shows "dht_decode (dht_encode m) = Ok m"
proof (cases m)
  case (FindNodeResponse h n ns)
  have "26 * length ns \<noteq> 20" by presburger
  with FindNodeResponse assms show ?thesis
    by (simp add: dht_decode_def decode_encode_header header_wf_def arr20_def shape codec node_id.expand)
next
  case (FindPeersResponse h n v)
  with assms show ?thesis by simp
qed (use assms in \<open>simp_all add: dht_decode_def decode_encode_header header_wf_def arr20_def
      subslice_def nth_append u16_be_def node_id.expand\<close>)

definition sample_header :: "message_type \<Rightarrow> message_header" where
  "sample_header t = \<lparr>mh_magic = MAGIC, mh_msg_type = t, mh_txn_id = 7, mh_ver = PROTOCOL_VERSION\<rparr>"

theorem dht_message_roundtrip_witness:
  "dht_decode (dht_encode (FindNodeResponse (sample_header TFindNode) (NodeId (replicate 20 1))
      [\<lparr>ni_node_id = NodeId (replicate 20 2), ni_ip = [10, 0, 0, 1], ni_port = 6881\<rparr>])) =
   Ok (FindNodeResponse (sample_header TFindNode) (NodeId (replicate 20 1))
      [\<lparr>ni_node_id = NodeId (replicate 20 2), ni_ip = [10, 0, 0, 1], ni_port = 6881\<rparr>])"
  by (rule dht_message_roundtrip) (simp_all add: header_wf_def sample_header_def arr20_def node_info_wf_def)

section \<open>The two responses the wire loses\<close>

lemma length_decode_peers_count: "6 * length (decode_peers_count n d) \<le> length d"
  by (induction n d rule: decode_peers_count.induct) auto

lemma length_decode_nodes_count: "26 * length (decode_nodes_count n d) \<le> length d"
proof (induction n arbitrary: d)
  case (Suc n)
  show ?case
  proof (cases "length d < 26")
    case False
    with Suc [of "drop 26 d"] show ?thesis by (simp add: decode_node_info_def)
  qed simp
qed simp

lemma decode_find_peers_space:
  assumes "header_wf TFindPeers h" and "dht_decode (encode_header h @ rest) = Ok (FindPeersResponse h' n' v)"
  shows "43 \<le> length rest"
    and "case v of Peers ps \<Rightarrow> 6 * length ps \<le> length rest - 43 | Nodes ns \<Rightarrow> 26 * length ns \<le> length rest - 43"
proof -
  let ?k = "unat (u16_from_be (drop 41 rest ! 0) (drop 41 rest ! 1))" and ?d = "drop 43 rest"
  have *: "41 \<le> length rest \<and> 2 \<le> length rest - 41 \<and>
      v = (if rest ! 40 = 0 then Peers (decode_peers_count ?k ?d) else Nodes (decode_nodes_count ?k ?d))"
    using assms by (auto simp: dht_decode_def decode_encode_header header_wf_def Let_def split: if_splits)
  then show "43 \<le> length rest" by linarith
  from * show "case v of Peers ps \<Rightarrow> 6 * length ps \<le> length rest - 43 | Nodes ns \<Rightarrow> 26 * length ns \<le> length rest - 43"
    using length_decode_peers_count [of ?k ?d] length_decode_nodes_count [of ?k ?d]
    by (simp split: if_splits)
qed

text \<open>
  The encoder puts the tag of a \<open>FindPeersResponse\<close> right after the node id, the decoder expects
  an info hash there and reads the tag twenty bytes later.
\<close>

text \<open>
  No \<open>FindPeersResponse\<close> the code sends is decoded to itself, so the answer to a peer search
  never arrives: a short one is rejected, a longer one loses entries. The decoded message is not
  even a peers answer with the same entries.
\<close>

theorem find_peers_response_lost:
  assumes "dht_wf (FindPeersResponse h n v)"
  shows "dht_decode (dht_encode (FindPeersResponse h n v)) \<noteq> Ok (FindPeersResponse h' n' v)"
proof
  assume ok: "dht_decode (dht_encode (FindPeersResponse h n v)) = Ok (FindPeersResponse h' n' v)"
  have h: "header_wf TFindPeers h" using assms by (cases v) simp_all
  show False
  proof (cases v)
    case (Peers ps)
    with assms have "length (nid_bytes n @ [0] @ u16_be (of_nat (length ps)) @ concat ps) = 23 + 6 * length ps"
      by (simp add: arr20_def shape)
    with decode_find_peers_space [OF h ok [unfolded Peers dht_encode.simps]] show False by simp
  next
    case (Nodes ns)
    with assms have "length (nid_bytes n @ [1] @ u16_be (of_nat (length ns)) @ concat (map encode_node_info ns))
        = 23 + 26 * length ns"
      by (simp add: arr20_def shape)
    with decode_find_peers_space [OF h ok [unfolded Nodes dht_encode.simps]] show False by simp
  qed
qed

theorem find_peers_response_lost_witness:
  "dht_decode (dht_encode (FindPeersResponse (sample_header TFindPeers) (NodeId (replicate 20 1)) (Peers [[1, 2, 3, 4, 5, 6]])))
     \<noteq> Ok (FindPeersResponse (sample_header TFindPeers) (NodeId (replicate 20 1)) (Peers [[1, 2, 3, 4, 5, 6]]))"
  by (rule find_peers_response_lost) (simp add: header_wf_def sample_header_def arr20_def)

lemma find_peers_response_rejected:
  "dht_decode (dht_encode (FindPeersResponse (sample_header TFindPeers) (NodeId (replicate 20 1)) (Peers [[1, 2, 3, 4, 5, 6]])))
     = Err (Protocol ''find_peers too short'')"
  by code_simp

text \<open>A \<open>PingResponse\<close> is decoded as a \<open>Ping\<close>, and \<open>decode\<close> never yields one.\<close>

lemma ping_response_is_ping:
  "header_wf TPing h \<Longrightarrow> arr20 (nid_bytes n) \<Longrightarrow> dht_decode (dht_encode (PingResponse h n)) = Ok (Ping h n)"
  by (simp add: dht_decode_def decode_encode_header header_wf_def arr20_def node_id.expand)

lemma dht_decode_no_ping_response: "dht_decode data \<noteq> Ok (PingResponse h n)"
  by (auto simp: dht_decode_def and_then_Ok_iff Let_def split: message_type.splits if_splits)

lemma decode_header_msg_type: "decode_header d = Ok (h, rest) \<Longrightarrow> 8 \<le> length d \<and> rest = drop 8 d"
  by (auto simp: decode_header_def and_then_Ok_iff Let_def split: if_splits)

text \<open>The error answer to an \<open>Announce\<close> cannot be decoded by the peer that sent it.\<close>

lemma announce_error_undecodable:
  assumes "arr20 (nid_bytes n)" and "mh_msg_type h = TAnnounce"
  shows "map_option (\<lambda>r. dht_decode (dht_encode r)) (error_response (Announce h n ih token port)) =
    Some (Err (Protocol ''announce too short''))"
proof -
  have "header_wf TAnnounce (error_header h)"
    using assms by (simp add: header_wf_def error_header_def)
  with assms show ?thesis
    by (simp add: dht_decode_def decode_encode_header header_wf_def arr20_def)
qed

end
