(* ===== verification/Dht_Routing.thy ===== *)
theory Dht_Routing
  imports Core_Types
begin

text \<open>
  The Kademlia routing table (\<open>qvs-dht/src/routing.rs\<close>). The clock is an argument \<open>now\<close> in
  nanoseconds; \<open>elapsed\<close> saturates at zero, as \<open>Instant::elapsed\<close> does.
\<close>

section \<open>Buckets\<close>

definition K :: nat where "K = 8"
definition REFRESH_INTERVAL :: nat where "REFRESH_INTERVAL = 900 * 10 ^ 9"
definition STALE_INTERVAL :: nat where "STALE_INTERVAL = 900 * 10 ^ 9"

record kbucket =
  kb_entries :: "kbucket_entry list"
  kb_last_refreshed :: nat

definition kbucket_new :: "nat \<Rightarrow> kbucket" where
  "kbucket_new now = \<lparr>kb_entries = [], kb_last_refreshed = now\<rparr>"

definition kbucket_is_full :: "kbucket \<Rightarrow> bool" where
  "kbucket_is_full b \<longleftrightarrow> K \<le> length (kb_entries b)"

datatype insert_result = Added | Existing | Replaced | Full

definition rotate_left :: "nat \<Rightarrow> 'a list \<Rightarrow> 'a list" where
  "rotate_left n xs = drop n xs @ take n xs"

definition remove_nth :: "nat \<Rightarrow> 'a list \<Rightarrow> 'a list" where
  "remove_nth n xs = take n xs @ drop (Suc n) xs"

definition kbucket_insert :: "nat \<Rightarrow> kbucket_entry \<Rightarrow> kbucket \<Rightarrow> kbucket \<times> insert_result" where
  "kbucket_insert now entry b =
     (case position (\<lambda>e. kb_node_id e = kb_node_id entry) (kb_entries b) of
        Some pos \<Rightarrow>
          let e = (kb_entries b ! pos)\<lparr>kb_last_seen := now, kb_latency := kb_latency entry\<rparr>
          in (b\<lparr>kb_entries := rotate_left pos ((kb_entries b)[pos := e])\<rparr>, Existing)
      | None \<Rightarrow>
          if \<not> kbucket_is_full b then (b\<lparr>kb_entries := kb_entries b @ [entry]\<rparr>, Added)
          else case position (\<lambda>e. STALE_INTERVAL < now - kb_last_seen e) (kb_entries b) of
            Some pos \<Rightarrow> (b\<lparr>kb_entries := remove_nth pos (kb_entries b) @ [entry]\<rparr>, Replaced)
          | None \<Rightarrow> (b, Full))"

definition kbucket_remove :: "node_id \<Rightarrow> kbucket \<Rightarrow> kbucket" where
  "kbucket_remove n b = b\<lparr>kb_entries := filter (\<lambda>e. kb_node_id e \<noteq> n) (kb_entries b)\<rparr>"

definition kbucket_find_closest :: "node_id \<Rightarrow> nat \<Rightarrow> kbucket \<Rightarrow> kbucket_entry list" where
  "kbucket_find_closest target count b =
     take count (sort_key (\<lambda>e. xor_distance (kb_node_id e) target) (kb_entries b))"

definition kbucket_needs_refresh :: "nat \<Rightarrow> kbucket \<Rightarrow> bool" where
  "kbucket_needs_refresh now b \<longleftrightarrow> REFRESH_INTERVAL < now - kb_last_refreshed b"

definition kbucket_mark_refreshed :: "nat \<Rightarrow> kbucket \<Rightarrow> kbucket" where
  "kbucket_mark_refreshed now b = b\<lparr>kb_last_refreshed := now\<rparr>"

text \<open>Bit \<open>bucket_idx\<close> of the distance to the local node; the index into the distance may panic.\<close>

definition split_bit :: "node_id \<Rightarrow> nat \<Rightarrow> kbucket_entry \<Rightarrow> bool" where
  "split_bit local_id idx e =
     (xor_distance local_id (kb_node_id e) ! (idx div 8) AND push_bit (7 - idx mod 8) 1 \<noteq> 0)"

definition kbucket_split :: "nat \<Rightarrow> node_id \<Rightarrow> nat \<Rightarrow> kbucket \<Rightarrow> (kbucket \<times> kbucket, qvod_error) result" where
  "kbucket_split now local_id idx b =
     (if kb_entries b \<noteq> [] \<and> 20 \<le> idx div 8 then Panic
      else Ok ((kbucket_new now)\<lparr>kb_entries := filter (\<lambda>e. \<not> split_bit local_id idx e) (kb_entries b)\<rparr>,
               (kbucket_new now)\<lparr>kb_entries := filter (\<lambda>e. split_bit local_id idx e) (kb_entries b)\<rparr>))"

section \<open>The table\<close>

record routing_table =
  rt_local_id :: node_id
  rt_buckets :: "kbucket list"

definition rt_new :: "nat \<Rightarrow> node_id \<Rightarrow> routing_table" where
  "rt_new now local_id = \<lparr>rt_local_id = local_id, rt_buckets = replicate 160 (kbucket_new now)\<rparr>"

text \<open>The position of the first set bit of the distance, \<open>160 * 8\<close> for the local id itself.\<close>

definition leading_bits :: "bytes \<Rightarrow> nat" where
  "leading_bits dist =
     (case position (\<lambda>b. b \<noteq> 0) dist of
        Some i \<Rightarrow> i * 8 + u8_leading_zeros (dist ! i)
      | None \<Rightarrow> 160 * 8)"

definition bucket_index :: "routing_table \<Rightarrow> node_id \<Rightarrow> nat" where
  "bucket_index t n = min ((1280 - 1) - leading_bits (xor_distance (rt_local_id t) n)) 159"

definition can_split :: "routing_table \<Rightarrow> nat \<Rightarrow> bool" where
  "can_split t idx \<longleftrightarrow> idx < length (rt_buckets t) \<and> idx = bucket_index t (rt_local_id t)"

definition split_bucket :: "nat \<Rightarrow> nat \<Rightarrow> routing_table \<Rightarrow> (routing_table \<times> bool, qvod_error) result" where
  "split_bucket now idx t =
     (if length (rt_buckets t) \<le> idx then Ok (t, False)
      else and_then (kbucket_split now (rt_local_id t) idx (rt_buckets t ! idx)) (\<lambda>(left, right).
        Ok (t\<lparr>rt_buckets := take idx (rt_buckets t) @ [left, right] @ drop (Suc idx) (rt_buckets t)\<rparr>, True)))"

definition rt_insert :: "nat \<Rightarrow> kbucket_entry \<Rightarrow> routing_table \<Rightarrow> (routing_table \<times> insert_result, qvod_error) result" where
  "rt_insert now entry t =
     (let idx = bucket_index t (kb_node_id entry)
      in if length (rt_buckets t) \<le> idx then Panic else
      let (b, res) = kbucket_insert now entry (rt_buckets t ! idx);
          t1 = t\<lparr>rt_buckets := (rt_buckets t)[idx := b]\<rparr>
      in if res = Full \<and> can_split t1 idx then
           let bit = split_bit (rt_local_id t) idx entry
           in and_then (split_bucket now idx t1) (\<lambda>(t2, _).
              let new_idx = (if bit then idx + 1 else idx)
              in if length (rt_buckets t2) \<le> new_idx then Panic else
              let (b2, res2) = kbucket_insert now entry (rt_buckets t2 ! new_idx)
              in Ok (t2\<lparr>rt_buckets := (rt_buckets t2)[new_idx := b2]\<rparr>, res2))
         else Ok (t1, res))"

definition rt_remove :: "node_id \<Rightarrow> routing_table \<Rightarrow> routing_table" where
  "rt_remove n t =
     (let idx = bucket_index t n
      in if idx < length (rt_buckets t) then
           t\<lparr>rt_buckets := (rt_buckets t)[idx := kbucket_remove n (rt_buckets t ! idx)]\<rparr>
         else t)"

text \<open>
  The candidate loop of \<open>find_closest\<close>: buckets at growing distance from the target's, until
  enough candidates are collected.
\<close>

fun collect_candidates :: "kbucket list \<Rightarrow> nat \<Rightarrow> nat \<Rightarrow> kbucket_entry list \<Rightarrow> nat list \<Rightarrow> kbucket_entry list" where
  "collect_candidates bs idx count cand [] = cand"
| "collect_candidates bs idx count cand (offset # os) =
     (let n = length bs;
          lower = (if offset \<le> idx then Some (idx - offset) else None);
          upper = idx + offset;
          c1 = cand @ (case lower of Some l \<Rightarrow> if l < n then kb_entries (bs ! l) else [] | None \<Rightarrow> []);
          c2 = c1 @ (if upper < n \<and> lower \<noteq> Some upper then kb_entries (bs ! upper) else [])
      in if count \<le> length c2 then c2 else collect_candidates bs idx count c2 os)"

definition rt_find_closest :: "routing_table \<Rightarrow> node_id \<Rightarrow> nat \<Rightarrow> kbucket_entry list" where
  "rt_find_closest t target count =
     take count (sort_key (\<lambda>e. xor_distance (kb_node_id e) target)
       (collect_candidates (rt_buckets t) (bucket_index t target) count [] [0..<length (rt_buckets t)]))"

definition rt_refresh_list :: "nat \<Rightarrow> routing_table \<Rightarrow> nat list" where
  "rt_refresh_list now t = filter (\<lambda>i. kbucket_needs_refresh now (rt_buckets t ! i)) [0..<length (rt_buckets t)]"

definition rt_mark_refreshed :: "nat \<Rightarrow> nat \<Rightarrow> routing_table \<Rightarrow> routing_table" where
  "rt_mark_refreshed now i t =
     (if i < length (rt_buckets t)
      then t\<lparr>rt_buckets := (rt_buckets t)[i := kbucket_mark_refreshed now (rt_buckets t ! i)]\<rparr> else t)"

definition rt_size :: "routing_table \<Rightarrow> nat" where
  "rt_size t = sum_list (map (\<lambda>b. length (kb_entries b)) (rt_buckets t))"

section \<open>The bucket invariant\<close>

definition kbucket_wf :: "kbucket \<Rightarrow> bool" where
  "kbucket_wf b \<longleftrightarrow> length (kb_entries b) \<le> K \<and> distinct (map kb_node_id (kb_entries b))"

definition bucket_ids :: "kbucket \<Rightarrow> node_id set" where
  "bucket_ids b = kb_node_id ` set (kb_entries b)"

lemma kbucket_wf_new [simp]: "kbucket_wf (kbucket_new now)"
  by (simp add: kbucket_wf_def kbucket_new_def)

lemma bucket_ids_new [simp]: "bucket_ids (kbucket_new now) = {}"
  by (simp add: bucket_ids_def kbucket_new_def)

lemma distinct_drop_take: "distinct (drop n ys @ take n ys) = distinct ys"
  by (metis Int_commute append_take_drop_id distinct_append)

lemma distinct_rotate [simp]: "distinct (map f (rotate_left n xs)) = distinct (map f xs)"
  using distinct_drop_take [of n "map f xs"] by (simp only: rotate_left_def map_append drop_map take_map)

lemma length_rotate [simp]: "length (rotate_left n xs) = length xs"
  by (simp add: rotate_left_def)

lemma set_rotate [simp]: "set (rotate_left n xs) = set xs"
  unfolding rotate_left_def by (metis Un_commute append_take_drop_id set_append)

lemma map_update_same: "pos < length xs \<Longrightarrow> f e = f (xs ! pos) \<Longrightarrow> map f (xs[pos := e]) = map f xs"
  by (simp add: map_update list_update_same_conv)

lemma set_remove_nth: "n < length xs \<Longrightarrow> insert (xs ! n) (set (remove_nth n xs)) = set xs"
  unfolding remove_nth_def by (metis Un_insert_right id_take_nth_drop list.simps(15) set_append)

lemma distinct_remove_nth:
  assumes "n < length xs" and "distinct (map f xs)"
  shows "distinct (map f (remove_nth n xs)) \<and> f (xs ! n) \<notin> f ` set (remove_nth n xs)"
proof -
  have "distinct (map f (take n xs @ xs ! n # drop (Suc n) xs))"
    using assms by (metis id_take_nth_drop)
  then show ?thesis by (auto simp: remove_nth_def)
qed

lemma kbucket_insert_wf:
  assumes "kbucket_wf b" and "kbucket_insert now entry b = (b', r)"
  shows "kbucket_wf b' \<and> bucket_ids b' \<subseteq> insert (kb_node_id entry) (bucket_ids b) \<and>
    (r \<noteq> Full \<longrightarrow> kb_node_id entry \<in> bucket_ids b') \<and> (r = Full \<longrightarrow> b' = b)"
proof (cases "position (\<lambda>e. kb_node_id e = kb_node_id entry) (kb_entries b)")
  case (Some pos)
  then have pos: "pos < length (kb_entries b)" "kb_node_id (kb_entries b ! pos) = kb_node_id entry"
    using position_Some by blast+
  let ?e = "(kb_entries b ! pos)\<lparr>kb_last_seen := now, kb_latency := kb_latency entry\<rparr>"
  define es where "es = (kb_entries b)[pos := ?e]"
  have ids: "map kb_node_id es = map kb_node_id (kb_entries b)"
    using pos by (simp add: map_update_same es_def)
  then have set: "kb_node_id ` set es = kb_node_id ` set (kb_entries b)"
    by (metis list.set_map)
  have mem: "kb_node_id entry \<in> kb_node_id ` set (kb_entries b)"
    using pos by (metis imageI nth_mem)
  have len: "length es = length (kb_entries b)"
    by (simp add: es_def)
  have b': "b' = b\<lparr>kb_entries := rotate_left pos es\<rparr>" "r = Existing"
    using assms(2) Some by (simp_all add: kbucket_insert_def es_def)
  show ?thesis
    using assms(1) mem by (simp add: b' kbucket_wf_def bucket_ids_def set len ids subset_insertI)
next
  case None
  then have new: "kb_node_id entry \<notin> kb_node_id ` set (kb_entries b)"
    by (auto simp: position_None)
  show ?thesis
  proof (cases "position (\<lambda>e. STALE_INTERVAL < now - kb_last_seen e) (kb_entries b)")
    case stale: None
    with assms None new show ?thesis
      by (auto simp: kbucket_insert_def kbucket_wf_def bucket_ids_def kbucket_is_full_def split: if_splits)
  next
    case (Some pos)
    then have pos: "pos < length (kb_entries b)" using position_Some by blast
    have sub: "set (remove_nth pos (kb_entries b)) \<subseteq> set (kb_entries b)"
      using set_remove_nth [OF pos] by auto
    have "length (remove_nth pos (kb_entries b)) = length (kb_entries b) - 1"
      using pos by (simp add: remove_nth_def)
    moreover have "kb_node_id entry \<notin> kb_node_id ` set (remove_nth pos (kb_entries b))"
      using new sub by blast
    moreover have "\<forall>x \<in> set (remove_nth pos (kb_entries b)). kb_node_id x \<in> kb_node_id ` set (kb_entries b)"
      using sub by blast
    ultimately show ?thesis
      using assms None new Some pos distinct_remove_nth [OF pos, of kb_node_id]
      by (auto simp: kbucket_insert_def kbucket_wf_def bucket_ids_def kbucket_is_full_def split: if_splits)
  qed
qed

lemma kbucket_insert_not_full:
  "length (kb_entries b) < K \<Longrightarrow> kbucket_insert now entry b = (b', r) \<Longrightarrow> r \<noteq> Full"
  by (auto simp: kbucket_insert_def kbucket_is_full_def Let_def split: option.splits if_splits)

lemma kbucket_remove_wf:
  "kbucket_wf b \<Longrightarrow> kbucket_wf (kbucket_remove n b) \<and> bucket_ids (kbucket_remove n b) = bucket_ids b - {n}"
  using length_filter_le [of "\<lambda>e. kb_node_id e \<noteq> n" "kb_entries b"]
  by (auto simp: kbucket_wf_def kbucket_remove_def bucket_ids_def intro: distinct_map_filter order_trans [OF length_filter_le])

section \<open>Where a node goes\<close>

lemma u8_leading_zeros_le: "b \<noteq> 0 \<Longrightarrow> u8_leading_zeros b \<le> 7"
proof -
  assume "b \<noteq> 0"
  then obtain i where i: "bit b i" by (metis bit_eqI bit_0_eq bot_apply bot_bool_def)
  then have "i < 8" using bit_imp_le_length by fastforce
  with i have "\<exists>j \<in> set (rev [0..<8]). bit b j" by auto
  then have "takeWhile (\<lambda>i. \<not> bit b i) (rev [0..<8]) \<noteq> rev [0..<8]"
    by (metis takeWhile_eq_all_conv)
  then have "length (takeWhile (\<lambda>i. \<not> bit b i) (rev [0..<8])) < length (rev [0..<8 :: nat])"
    by (metis length_takeWhile_le nat_less_le takeWhile_eq_take take_all_iff)
  then show ?thesis by (simp add: u8_leading_zeros_def)
qed

lemma xor_zero_iff: "(a :: 'a::len word) XOR b = 0 \<longleftrightarrow> a = b"
  by (metis xor.left_neutral xor.right_neutral bit.xor_self xor.assoc)

lemma xor_distance_zero:
  assumes "length (nid_bytes a) = length (nid_bytes b)"
  shows "(\<forall>x \<in> set (xor_distance a b). x = 0) \<longleftrightarrow> a = b"
proof -
  have "(\<forall>x \<in> set (map2 (XOR) xs ys). x = 0) \<longleftrightarrow> xs = ys" if "length xs = length ys" for xs ys :: bytes
    using that by (induction xs ys rule: list_induct2) (auto simp: xor_zero_iff)
  from this [OF assms] show ?thesis
    by (auto simp: xor_distance_def intro: node_id.expand)
qed

text \<open>The index formula puts every remote node into bucket 159 and the local id into bucket 0.\<close>

lemma bucket_index_eq:
  assumes "arr20 (nid_bytes (rt_local_id t))" and "arr20 (nid_bytes n)"
  shows "bucket_index t n = (if n = rt_local_id t then 0 else 159)"
proof (cases "position (\<lambda>b. b \<noteq> 0) (xor_distance (rt_local_id t) n)")
  case None
  then have "n = rt_local_id t"
    using xor_distance_zero [of "rt_local_id t" n] assms by (auto simp: position_None arr20_def)
  with None show ?thesis by (simp add: bucket_index_def leading_bits_def)
next
  case (Some i)
  let ?d = "xor_distance (rt_local_id t) n"
  have i: "i < length ?d" "?d ! i \<noteq> 0" using position_Some [OF Some] by auto
  moreover have "length ?d = 20" using assms by (simp add: xor_distance_def arr20_def)
  ultimately have "i * 8 + u8_leading_zeros (?d ! i) \<le> 159"
    using u8_leading_zeros_le [of "?d ! i"] by linarith
  moreover have "n \<noteq> rt_local_id t"
    using i xor_distance_zero [of n n] by (metis nth_mem)
  ultimately show ?thesis
    using Some by (simp add: bucket_index_def leading_bits_def)
qed

section \<open>The table invariant\<close>

definition rt_wf :: "routing_table \<Rightarrow> bool" where
  "rt_wf t \<longleftrightarrow> length (rt_buckets t) = 160 \<and> arr20 (nid_bytes (rt_local_id t)) \<and>
     (\<forall>i < 160. kbucket_wf (rt_buckets t ! i) \<and>
        (\<forall>n \<in> bucket_ids (rt_buckets t ! i). arr20 (nid_bytes n) \<and> bucket_index t n = i))"

lemma bucket_index_cong: "rt_local_id t = rt_local_id t' \<Longrightarrow> bucket_index t n = bucket_index t' n"
  by (simp add: bucket_index_def)

lemma rt_wf_new: "arr20 (nid_bytes l) \<Longrightarrow> rt_wf (rt_new now l)"
  by (simp add: rt_wf_def rt_new_def)

lemma rt_wf_update:
  assumes "rt_wf t" and "kbucket_wf b" and "i < 160"
    and "\<forall>n \<in> bucket_ids b. arr20 (nid_bytes n) \<and> bucket_index t n = i"
  shows "rt_wf (t\<lparr>rt_buckets := (rt_buckets t)[i := b]\<rparr>)"
  using assms by (auto simp: rt_wf_def nth_list_update bucket_index_cong [of "t\<lparr>rt_buckets := _\<rparr>" t])

lemma rt_wfD:
  assumes "rt_wf t" and "i < 160"
  shows "kbucket_wf (rt_buckets t ! i)"
    and "n \<in> bucket_ids (rt_buckets t ! i) \<Longrightarrow> arr20 (nid_bytes n) \<and> bucket_index t n = i"
    and "n \<in> bucket_ids (rt_buckets t ! i) \<Longrightarrow> n = rt_local_id t \<and> i = 0 \<or> n \<noteq> rt_local_id t \<and> i = 159"
proof -
  show "kbucket_wf (rt_buckets t ! i)" using assms by (simp add: rt_wf_def)
  show *: "arr20 (nid_bytes n) \<and> bucket_index t n = i" if "n \<in> bucket_ids (rt_buckets t ! i)"
    using assms that by (simp add: rt_wf_def)
  show "n = rt_local_id t \<and> i = 0 \<or> n \<noteq> rt_local_id t \<and> i = 159" if "n \<in> bucket_ids (rt_buckets t ! i)"
    using * [OF that] assms(1) bucket_index_eq [of t n] by (auto simp: rt_wf_def split: if_splits)
qed

lemma bucket_0_small:
  assumes "rt_wf t"
  shows "length (kb_entries (rt_buckets t ! 0)) \<le> 1"
proof -
  let ?b = "rt_buckets t ! 0"
  have "bucket_ids ?b \<subseteq> {rt_local_id t}"
    using rt_wfD(3) [OF assms, of 0] by auto
  then have "card (bucket_ids ?b) \<le> 1"
    using card_mono [of "{rt_local_id t}"] by simp
  moreover have "card (bucket_ids ?b) = length (kb_entries ?b)"
    using rt_wfD(1) [OF assms, of 0] distinct_card [of "map kb_node_id (kb_entries ?b)"]
    by (simp add: kbucket_wf_def bucket_ids_def)
  ultimately show ?thesis by simp
qed

lemma rt_insert_wf:
  assumes "rt_wf t" and "arr20 (nid_bytes (kb_node_id e))"
  obtains t' r where "rt_insert now e t = Ok (t', r)" and "rt_wf t'" and "rt_local_id t' = rt_local_id t"
    and "r \<noteq> Full \<Longrightarrow> kb_node_id e \<in> bucket_ids (rt_buckets t' ! bucket_index t (kb_node_id e))"
    and "r = Full \<Longrightarrow> t' = t"
proof -
  let ?i = "bucket_index t (kb_node_id e)"
  obtain b r where br: "kbucket_insert now e (rt_buckets t ! ?i) = (b, r)" by fastforce
  let ?t = "t\<lparr>rt_buckets := (rt_buckets t)[?i := b]\<rparr>"
  have i: "?i < 160" "?i < length (rt_buckets t)"
    using assms by (auto simp: rt_wf_def bucket_index_def)
  have old: "kbucket_wf (rt_buckets t ! ?i)"
    using assms i by (simp add: rt_wf_def)
  note ins = kbucket_insert_wf [OF old br]
  have "arr20 (nid_bytes n) \<and> bucket_index t n = ?i" if "n \<in> bucket_ids b" for n
  proof (cases "n = kb_node_id e")
    case False
    with that ins have "n \<in> bucket_ids (rt_buckets t ! ?i)" by auto
    then show ?thesis by (rule rt_wfD(2) [OF assms(1) i(1)])
  qed (use assms in simp)
  with ins i assms have wf: "rt_wf ?t" by (intro rt_wf_update) auto
  have nf: "\<not> (r = Full \<and> can_split ?t ?i)"
  proof
    assume full: "r = Full \<and> can_split ?t ?i"
    then have "?i = bucket_index ?t (rt_local_id ?t)"
      by (simp add: can_split_def)
    also have "\<dots> = 0"
      using wf by (simp add: bucket_index_eq rt_wf_def)
    finally have "length (kb_entries (rt_buckets t ! ?i)) < K"
      using bucket_0_small [OF assms(1)] by (simp add: K_def)
    from kbucket_insert_not_full [OF this br] full show False by simp
  qed
  then have eq: "rt_insert now e t = Ok (?t, r)"
    using i by (simp only: rt_insert_def Let_def br prod.case nf if_False not_le [symmetric])
  show thesis
  proof (rule that [OF eq wf])
    assume "r = Full"
    with ins i show "?t = t" by (simp add: list_update_id)
  qed (use ins i in auto)
qed

lemma rt_remove_wf: "rt_wf t \<Longrightarrow> rt_wf (rt_remove n t)"
proof -
  assume wf: "rt_wf t"
  let ?i = "bucket_index t n"
  have i: "?i < 160" by (simp add: bucket_index_def)
  then have "rt_wf (t\<lparr>rt_buckets := (rt_buckets t)[?i := kbucket_remove n (rt_buckets t ! ?i)]\<rparr>)"
    using wf kbucket_remove_wf [of "rt_buckets t ! ?i" n] by (intro rt_wf_update) (auto simp: rt_wf_def)
  with i wf show ?thesis by (simp add: rt_remove_def Let_def rt_wf_def)
qed

lemma rt_mark_refreshed_wf: "rt_wf t \<Longrightarrow> rt_wf (rt_mark_refreshed now i t)"
proof (cases "i < length (rt_buckets t)")
  assume wf: "rt_wf t"
  case True
  have eq: "kbucket_wf (kbucket_mark_refreshed now b) = kbucket_wf b"
    "bucket_ids (kbucket_mark_refreshed now b) = bucket_ids b" for b
    by (simp_all add: kbucket_mark_refreshed_def kbucket_wf_def bucket_ids_def)
  have "i < 160" using True wf by (simp add: rt_wf_def)
  with wf have "rt_wf (t\<lparr>rt_buckets := (rt_buckets t)[i := kbucket_mark_refreshed now (rt_buckets t ! i)]\<rparr>)"
    by (intro rt_wf_update) (simp_all add: eq rt_wfD)
  with True show ?thesis by (simp add: rt_mark_refreshed_def)
qed (simp add: rt_mark_refreshed_def)

section \<open>Reachable tables\<close>

inductive rt_reach :: "node_id \<Rightarrow> routing_table \<Rightarrow> bool" for l where
  rt_reach_new: "rt_reach l (rt_new now l)"
| rt_reach_insert: "rt_reach l t \<Longrightarrow> arr20 (nid_bytes (kb_node_id e)) \<Longrightarrow>
    rt_insert now e t = Ok (t', r) \<Longrightarrow> rt_reach l t'"
| rt_reach_remove: "rt_reach l t \<Longrightarrow> rt_reach l (rt_remove n t)"
| rt_reach_mark: "rt_reach l t \<Longrightarrow> rt_reach l (rt_mark_refreshed now i t)"

lemma rt_reach_wf: "rt_reach l t \<Longrightarrow> arr20 (nid_bytes l) \<Longrightarrow> rt_wf t \<and> rt_local_id t = l"
proof (induction rule: rt_reach.induct)
  case (rt_reach_insert t e now t' r)
  then show ?case using rt_insert_wf [of t e now] by (metis Pair_inject result.inject(1))
next
  case (rt_reach_new now)
  then show ?case using rt_wf_new [of l now] by (simp add: rt_new_def)
next
  case (rt_reach_remove t n)
  then show ?case using rt_remove_wf [of t n] by (simp add: rt_remove_def Let_def)
next
  case (rt_reach_mark t now i)
  then show ?case using rt_mark_refreshed_wf [of t now i] by (simp add: rt_mark_refreshed_def)
qed

lemma other_buckets_empty:
  assumes "rt_wf t" and "i < 159" and "0 < i"
  shows "kb_entries (rt_buckets t ! i) = []"
proof (rule ccontr)
  assume "kb_entries (rt_buckets t ! i) \<noteq> []"
  then obtain e where "e \<in> set (kb_entries (rt_buckets t ! i))" by (meson last_in_set)
  then have "kb_node_id e \<in> bucket_ids (rt_buckets t ! i)" by (simp add: bucket_ids_def)
  with assms show False using rt_wfD(3) [of t i "kb_node_id e"] by auto
qed

lemma concat_only:
  assumes "k < length xs" and "\<forall>i < length xs. i \<noteq> k \<longrightarrow> i \<noteq> 0 \<longrightarrow> xs ! i = []" and "0 < k"
  shows "concat xs = xs ! 0 @ xs ! k"
proof -
  have "xs = take k xs @ xs ! k # drop (Suc k) xs"
    using assms by (simp add: id_take_nth_drop)
  moreover have "concat (drop (Suc k) xs) = []"
    using assms by (auto simp: in_set_conv_nth)
  moreover have "concat (take k xs) = xs ! 0"
  proof -
    have "take k xs = xs ! 0 # take (k - 1) (tl xs)"
      using assms by (cases xs; cases k) auto
    moreover have "concat (take (k - 1) (tl xs)) = []"
      using assms by (auto simp: in_set_conv_nth nth_tl)
    ultimately show ?thesis by simp
  qed
  ultimately show ?thesis by (metis append_Nil2 concat.simps(2) concat_append)
qed

lemma table_entries:
  assumes "rt_wf t"
  shows "concat (map kb_entries (rt_buckets t)) = kb_entries (rt_buckets t ! 0) @ kb_entries (rt_buckets t ! 159)"
  using assms concat_only [of 159 "map kb_entries (rt_buckets t)"] other_buckets_empty [OF assms]
  by (auto simp: rt_wf_def)

section \<open>Closest nodes\<close>

lemma collect_none:
  assumes "\<forall>d \<in> set os. (d \<le> idx \<longrightarrow> idx - d < length bs \<longrightarrow> kb_entries (bs ! (idx - d)) = []) \<and>
      (idx + d < length bs \<longrightarrow> d \<noteq> 0 \<longrightarrow> kb_entries (bs ! (idx + d)) = [])"
    and "length cand < count"
  shows "collect_candidates bs idx count cand (os @ os') = collect_candidates bs idx count cand os'"
  using assms(1)
proof (induction os)
  case (Cons d os)
  then have "(case if d \<le> idx then Some (idx - d) else None of Some l \<Rightarrow> if l < length bs then kb_entries (bs ! l) else []
      | None \<Rightarrow> []) = []"
    by simp
  moreover have "(if idx + d < length bs \<and> (if d \<le> idx then Some (idx - d) else None) \<noteq> Some (idx + d)
      then kb_entries (bs ! (idx + d)) else []) = []"
    using Cons.prems by (cases d) auto
  ultimately show ?case
    using Cons assms(2) by (simp only: append_Cons collect_candidates.simps Let_def append_Nil2) simp
qed simp

lemma collect_all:
  assumes "rt_wf t" and "kb_entries (rt_buckets t ! 0) = []" and "idx = 0 \<or> idx = 159" and "0 < count"
  shows "collect_candidates (rt_buckets t) idx count [] [0..<length (rt_buckets t)] = kb_entries (rt_buckets t ! 159)"
proof -
  have len: "length (rt_buckets t) = 160" using assms(1) by (simp add: rt_wf_def)
  have empty: "kb_entries (rt_buckets t ! i) = []" if "i < 159" for i
    using other_buckets_empty [OF assms(1), of i] assms(2) that by (cases "i = 0") auto
  let ?E = "kb_entries (rt_buckets t ! 159)"
  show ?thesis
  proof (cases "idx = 0")
    case True
    have "collect_candidates (rt_buckets t) 0 count [] ([0..<159] @ [159]) = collect_candidates (rt_buckets t) 0 count [] [159]"
      using assms(4) by (intro collect_none) (auto simp: empty)
    moreover have "[0..<length (rt_buckets t)] = [0..<159] @ [159]"
      by (simp add: len upt_Suc_append [symmetric] flip: upt_Suc_append)
    ultimately show ?thesis using True by (simp add: len Let_def)
  next
    case False
    with assms(3) have idx: "idx = 159" by simp
    have tail: "collect_candidates (rt_buckets t) 159 count ?E ([1..<160] @ []) = ?E" if "length ?E < count"
      using that by (subst collect_none) (auto simp: empty len)
    have "[0..<length (rt_buckets t)] = 0 # [1..<160]"
      by (simp add: len upt_conv_Cons)
    then show ?thesis using tail by (simp add: idx len Let_def)
  qed
qed

lemma rt_size_concat: "rt_size t = length (concat (map kb_entries (rt_buckets t)))"
  by (simp add: rt_size_def length_concat comp_def)


text \<open>
  C10: whatever sequence of insertions, removals and refreshes a table has seen, it still has its 160
  buckets, never splits or panics, and holds each node id at most once; because every remote id
  falls into bucket 159, it holds at most \<open>K\<close> remote nodes in all.
\<close>

theorem routing_table_bounded:
  assumes "rt_reach l t" and "arr20 (nid_bytes l)"
  shows "length (rt_buckets t) = 160 \<and>
    distinct (map kb_node_id (concat (map kb_entries (rt_buckets t)))) \<and>
    length (filter (\<lambda>e. kb_node_id e \<noteq> l) (concat (map kb_entries (rt_buckets t)))) \<le> K \<and>
    rt_size t \<le> K + 1 \<and>
    (arr20 (nid_bytes (kb_node_id e)) \<longrightarrow> rt_insert now e t \<noteq> Panic)"
proof (intro conjI)
  from assms have wf: "rt_wf t" and l: "rt_local_id t = l"
    using rt_reach_wf by blast+
  let ?z = "rt_buckets t ! 0" and ?b = "rt_buckets t ! 159"
  have b0: "kbucket_wf ?z" and b: "kbucket_wf ?b"
    using rt_wfD(1) [OF wf] by simp_all
  have ids0: "kb_node_id e = l" if "e \<in> set (kb_entries ?z)" for e
    using rt_wfD(3) [of t 0 "kb_node_id e"] wf that l by (auto simp: bucket_ids_def)
  have ids: "kb_node_id e \<noteq> l" if "e \<in> set (kb_entries ?b)" for e
    using rt_wfD(3) [of t 159 "kb_node_id e"] wf that l by (auto simp: bucket_ids_def)
  show "length (rt_buckets t) = 160" using wf by (simp add: rt_wf_def)
  show "distinct (map kb_node_id (concat (map kb_entries (rt_buckets t))))"
    using b0 b ids0 ids by (auto simp: table_entries [OF wf] kbucket_wf_def)
  have "filter (\<lambda>e. kb_node_id e \<noteq> l) (kb_entries ?z) = []"
    using ids0 by (auto simp: filter_empty_conv)
  then show "length (filter (\<lambda>e. kb_node_id e \<noteq> l) (concat (map kb_entries (rt_buckets t)))) \<le> K"
    using b by (auto simp: table_entries [OF wf] kbucket_wf_def intro: order_trans [OF length_filter_le])
  show "rt_size t \<le> K + 1"
    using b bucket_0_small [OF wf] by (simp add: rt_size_concat table_entries [OF wf] kbucket_wf_def)
  show "arr20 (nid_bytes (kb_node_id e)) \<longrightarrow> rt_insert now e t \<noteq> Panic"
    using rt_insert_wf [OF wf, of e now] by (metis result.distinct(3))
qed

text \<open>
  C11: with the local id itself not stored, \<open>find_closest\<close> returns exactly the \<open>count\<close> nearest
  nodes of the whole table in order of distance, although it stops collecting early.
\<close>

theorem find_closest_correct:
  assumes "rt_reach l t" and "arr20 (nid_bytes l)" and "arr20 (nid_bytes target)"
    and "kb_entries (rt_buckets t ! 0) = []"
  shows "rt_find_closest t target count =
    take count (sort_key (\<lambda>e. xor_distance (kb_node_id e) target) (concat (map kb_entries (rt_buckets t))))"
proof (cases "count = 0")
  case False
  from assms have wf: "rt_wf t" and l: "rt_local_id t = l"
    using rt_reach_wf by blast+
  have "bucket_index t target = 0 \<or> bucket_index t target = 159"
    using assms l by (simp add: bucket_index_eq)
  with False show ?thesis
    using collect_all [OF wf assms(4)] by (simp add: rt_find_closest_def table_entries [OF wf] assms(4))
qed (simp add: rt_find_closest_def)


definition sample_entry :: "u8 \<Rightarrow> kbucket_entry" where
  "sample_entry x = \<lparr>kb_node_id = NodeId (replicate 20 x), kb_addr = \<lparr>sa_ip = V4 [10, 0, 0, x], sa_port = 8621\<rparr>,
     kb_last_seen = 0, kb_latency = 5, kb_is_firewalled = False\<rparr>"

definition sample_table :: routing_table where
  "sample_table = (rt_new 0 (NodeId (replicate 20 0)))
     \<lparr>rt_buckets := (replicate 160 (kbucket_new 0))[159 := \<lparr>kb_entries = [sample_entry 9], kb_last_refreshed = 0\<rparr>]\<rparr>"

lemma sample_table_reach: "rt_reach (NodeId (replicate 20 0)) sample_table"
proof (rule rt_reach_insert)
  show "rt_reach (NodeId (replicate 20 0)) (rt_new 0 (NodeId (replicate 20 0)))"
    by (rule rt_reach_new)
  show "arr20 (nid_bytes (kb_node_id (sample_entry 9)))"
    by (simp add: sample_entry_def arr20_def)
  have "bucket_index (rt_new 0 (NodeId (replicate 20 0))) (kb_node_id (sample_entry 9)) = 159"
    by (subst bucket_index_eq) (simp_all add: rt_new_def arr20_def sample_entry_def)
  then show "rt_insert 0 (sample_entry 9) (rt_new 0 (NodeId (replicate 20 0))) = Ok (sample_table, Added)"
    by (simp add: rt_insert_def Let_def rt_new_def kbucket_insert_def kbucket_new_def kbucket_is_full_def K_def sample_table_def)
qed

theorem routing_table_bounded_witness:
  "rt_size sample_table \<le> K + 1 \<and> distinct (map kb_node_id (concat (map kb_entries (rt_buckets sample_table))))"
  using routing_table_bounded [OF sample_table_reach] by (simp add: arr20_def)

theorem find_closest_correct_witness:
  "rt_find_closest sample_table (NodeId (replicate 20 3)) 2 =
    take 2 (sort_key (\<lambda>e. xor_distance (kb_node_id e) (NodeId (replicate 20 3)))
      (concat (map kb_entries (rt_buckets sample_table))))"
  by (rule find_closest_correct [OF sample_table_reach]) (simp_all add: arr20_def sample_table_def kbucket_new_def)

text \<open>An entry seen again moves to the front of its bucket, not to the most-recently-seen end.\<close>

lemma existing_moves_to_front:
  "map kb_node_id (kb_entries (fst (kbucket_insert 9 (sample_entry 2)
     \<lparr>kb_entries = [sample_entry 1, sample_entry 2, sample_entry 3], kb_last_refreshed = 0\<rparr>)))
   = map (\<lambda>x. NodeId (replicate 20 x)) [2, 3, 1]"
  by code_simp

end
