(* ===== verification/Dht_Token.thy ===== *)
theory Dht_Token
  imports Core_Types
begin

text \<open>
  Announce tokens (\<open>qvs-dht/src/token.rs\<close>): the first four bytes of the SHA-1 of address and secret,
  with the previous secret still accepted. SHA-1 and the random secrets are parameters. The text
  form of IP addresses is that of \<open>std::net\<close>.
\<close>

section \<open>The text form of addresses\<close>

fun show_hex_nat :: "nat \<Rightarrow> string" where
  "show_hex_nat n = (if n < 16 then [hex_char n] else show_hex_nat (n div 16) @ [hex_char (n mod 16)])"

declare show_hex_nat.simps [simp del]

definition show_ipv4 :: "bytes \<Rightarrow> string" where
  "show_ipv4 bs = join ''.'' (map (\<lambda>b. show_nat (unat b)) bs)"

definition ipv6_segments :: "bytes \<Rightarrow> u16 list" where
  "ipv6_segments bs = map (\<lambda>c. u16_from_be (c ! 0) (c ! 1)) (chunks_exact 2 bs)"

text \<open>The first longest run of zero segments, as start and length.\<close>

fun longest_zeros :: "nat \<Rightarrow> nat \<times> nat \<Rightarrow> nat \<times> nat \<Rightarrow> u16 list \<Rightarrow> nat \<times> nat" where
  "longest_zeros i longest current [] = longest"
| "longest_zeros i longest current (x # xs) =
     (if x = 0 then
        let c = (if snd current = 0 then (i, 1) else (fst current, snd current + 1))
        in longest_zeros (i + 1) (if snd longest < snd c then c else longest) c xs
      else longest_zeros (i + 1) longest (0, 0) xs)"

definition show_ipv6 :: "bytes \<Rightarrow> string" where
  "show_ipv6 bs =
     (let segs = ipv6_segments bs;
          show_segs = (\<lambda>ss. join '':'' (map (\<lambda>s. show_hex_nat (unat s)) ss));
          (start, len) = longest_zeros 0 (0, 0) (0, 0) segs
      in if take 12 bs = replicate 10 0 @ [0xFF, 0xFF] then ''::ffff:'' @ show_ipv4 (drop 12 bs)
         else if 1 < len then show_segs (take start segs) @ ''::'' @ show_segs (drop (start + len) segs)
         else show_segs segs)"

fun show_ip :: "ip_addr \<Rightarrow> string" where
  "show_ip (V4 bs) = show_ipv4 bs"
| "show_ip (V6 bs) = show_ipv6 bs"

section \<open>The token manager\<close>

record token_manager =
  tm_secret_a :: bytes
  tm_secret_b :: bytes
  tm_last_rotation :: nat

definition tm_new :: "nat \<Rightarrow> bytes \<Rightarrow> bytes \<Rightarrow> token_manager" where
  "tm_new now rnd_a rnd_b = \<lparr>tm_secret_a = rnd_a, tm_secret_b = rnd_b, tm_last_rotation = now\<rparr>"

definition generate_with_secret :: "(bytes \<Rightarrow> bytes) \<Rightarrow> socket_addr \<Rightarrow> bytes \<Rightarrow> bytes" where
  "generate_with_secret sha1 addr secret =
     take 4 (sha1 (as_bytes (show_ip (sa_ip addr)) @ as_bytes '':'' @
       as_bytes (show_nat (unat (sa_port addr))) @ as_bytes '':'' @ secret))"

definition generate_token :: "(bytes \<Rightarrow> bytes) \<Rightarrow> token_manager \<Rightarrow> socket_addr \<Rightarrow> bytes" where
  "generate_token sha1 tm addr = generate_with_secret sha1 addr (tm_secret_a tm)"

definition verify_token :: "(bytes \<Rightarrow> bytes) \<Rightarrow> token_manager \<Rightarrow> socket_addr \<Rightarrow> bytes \<Rightarrow> bool" where
  "verify_token sha1 tm addr token \<longleftrightarrow>
     (if generate_token sha1 tm addr = token then True
      else generate_with_secret sha1 addr (tm_secret_b tm) = token)"

definition rotate_secret :: "nat \<Rightarrow> bytes \<Rightarrow> token_manager \<Rightarrow> token_manager" where
  "rotate_secret now rnd tm = \<lparr>tm_secret_a = rnd, tm_secret_b = tm_secret_a tm, tm_last_rotation = now\<rparr>"

definition check_rotation :: "nat \<Rightarrow> bytes \<Rightarrow> token_manager \<Rightarrow> token_manager" where
  "check_rotation now rnd tm =
     (if 600 \<le> (now - tm_last_rotation tm) div 10 ^ 9 then rotate_secret now rnd tm else tm)"

section \<open>Validity of tokens\<close>

text \<open>
  The contract of tokens: a token of the current epoch verifies, and still does after one rotation.
\<close>

locale token_scheme =
  fixes gen :: "'s \<Rightarrow> 'a \<Rightarrow> 't" and ver :: "'s \<Rightarrow> 'a \<Rightarrow> 't \<Rightarrow> bool" and rot :: "'r \<Rightarrow> 's \<Rightarrow> 's"
  assumes ver_current: "ver s a (gen s a)"
    and ver_previous: "ver (rot r s) a (gen s a)"
    and ver_sound: "ver (rot r s) a t \<Longrightarrow> t = gen (rot r s) a \<or> t = gen s a"
begin

text \<open>After two rotations a token verifies only if it equals one of the two current ones.\<close>

lemma expires:
  "ver (rot r' (rot r s)) a (gen s a) \<Longrightarrow> gen (rot r' (rot r s)) a \<noteq> gen s a \<Longrightarrow> gen (rot r s) a = gen s a"
  using ver_sound by metis

end

lemma verify_current: "verify_token sha1 tm addr (generate_token sha1 tm addr)"
  by (simp add: verify_token_def)

interpretation tokens: token_scheme "generate_token sha1" "verify_token sha1" "\<lambda>(now, rnd). rotate_secret now rnd"
  for sha1
  by unfold_locales (auto simp: verify_token_def generate_token_def rotate_secret_def split: if_splits)

lemma check_rotation_verifies:
  "verify_token sha1 (check_rotation now rnd tm) addr (generate_token sha1 tm addr)"
  using tokens.ver_previous [of sha1 "(now, rnd)" tm addr] verify_current
  by (auto simp: check_rotation_def)

text \<open>
  C19: a token given to an address verifies for it at once and after one rotation of the secret;
  after two it verifies only on a collision of the truncated hash.
\<close>

theorem token_lifetime:
  "verify_token sha1 tm addr (generate_token sha1 tm addr) \<and>
   verify_token sha1 (check_rotation now rnd tm) addr (generate_token sha1 tm addr) \<and>
   (verify_token sha1 (rotate_secret now' rnd' (rotate_secret now rnd tm)) addr token \<longleftrightarrow>
     token \<in> {generate_with_secret sha1 addr rnd', generate_with_secret sha1 addr rnd})"
  using verify_current check_rotation_verifies
  by (auto simp: verify_token_def generate_token_def rotate_secret_def)

end
