(* ===== verification/Dht_Krpc.thy ===== *)
theory Dht_Krpc
  imports Dht_Rpc Dht_Routing Dht_Token
begin

text \<open>
  The RPC layer of the DHT (\<open>qvs-dht/src/krpc.rs\<close>): the server side \<open>handle_message\<close> with its peer
  store, and the iterative search. The network is an argument: the outcomes of the successive
  datagram exchanges, consumed in order; every function returns the datagrams it sends. The map
  of known peers is a partial function.
\<close>

definition MAX_PEERS_PER_HASH :: nat where "MAX_PEERS_PER_HASH = 50"

record krpc =
  kr_table :: routing_table
  kr_tokens :: token_manager
  kr_peers :: "bytes \<Rightarrow> peer_info list option"

definition krpc_new :: "routing_table \<Rightarrow> token_manager \<Rightarrow> krpc" where
  "krpc_new rt tm = \<lparr>kr_table = rt, kr_tokens = tm, kr_peers = Map.empty\<rparr>"

section \<open>The server side\<close>

fun v4_octets :: "ip_addr \<Rightarrow> bytes" where
  "v4_octets (V4 bs) = bs"
| "v4_octets (V6 bs) = [0, 0, 0, 0]"

definition entry_node_info :: "kbucket_entry \<Rightarrow> node_info" where
  "entry_node_info e =
     \<lparr>ni_node_id = kb_node_id e, ni_ip = v4_octets (sa_ip (kb_addr e)), ni_port = sa_port (kb_addr e)\<rparr>"

definition compact_peer :: "peer_info \<Rightarrow> bytes" where
  "compact_peer p = v4_octets (sa_ip (pi_addr p)) @ u16_be (sa_port (pi_addr p))"

definition reply_header :: "message_header \<Rightarrow> message_header" where
  "reply_header h =
     \<lparr>mh_magic = MAGIC, mh_msg_type = mh_msg_type h, mh_txn_id = mh_txn_id h, mh_ver = PROTOCOL_VERSION\<rparr>"

definition plain_peer :: "socket_addr \<Rightarrow> peer_info" where
  "plain_peer addr =
     \<lparr>pi_peer_id = replicate 20 0, pi_addr = addr, pi_is_firewalled = False, pi_bw_up = 0, pi_bw_down = 0,
      pi_location = None, pi_latency = 0\<rparr>"

definition get_peers :: "krpc \<Rightarrow> info_hash \<Rightarrow> peer_info list" where
  "get_peers k h = (case kr_peers k (ih_bytes h) of Some ps \<Rightarrow> ps | None \<Rightarrow> [])"

text \<open>\<open>entry(hash).or_default()\<close> and a push below the limit.\<close>

definition store_peer :: "bytes \<Rightarrow> peer_info \<Rightarrow> krpc \<Rightarrow> krpc" where
  "store_peer ih p k =
     (let ps = (case kr_peers k ih of Some ps \<Rightarrow> ps | None \<Rightarrow> [])
      in k\<lparr>kr_peers := (kr_peers k)(ih \<mapsto> if length ps < MAX_PEERS_PER_HASH then ps @ [p] else ps)\<rparr>)"

fun handle_message :: "(bytes \<Rightarrow> bytes) \<Rightarrow> krpc \<Rightarrow> dht_message \<Rightarrow> socket_addr \<Rightarrow>
    krpc \<times> (dht_message option, qvod_error) result" where
  "handle_message sha1 k (Ping h _) sender =
     (k, Ok (Some (PingResponse (reply_header h) (rt_local_id (kr_table k)))))"
| "handle_message sha1 k (FindNode h _ target) sender =
     (k, Ok (Some (FindNodeResponse (reply_header h) (rt_local_id (kr_table k))
        (map entry_node_info (rt_find_closest (kr_table k) target K)))))"
| "handle_message sha1 k (FindPeers h _ ih) sender =
     (let peers = get_peers k (InfoHash ih)
      in (k, Ok (Some (FindPeersResponse (reply_header h) (rt_local_id (kr_table k))
           (if peers \<noteq> [] then Peers (map compact_peer peers)
            else Nodes (map entry_node_info (rt_find_closest (kr_table k) (NodeId ih) K)))))))"
| "handle_message sha1 k (Announce h _ ih token port) sender =
     (if \<not> verify_token sha1 (kr_tokens k) sender token then (k, Err (Protocol ''invalid announce token''))
      else (store_peer ih (plain_peer \<lparr>sa_ip = sa_ip sender, sa_port = port\<rparr>) k,
            Ok (Some (AnnounceResponse (reply_header h) (rt_local_id (kr_table k))))))"
| "handle_message sha1 k _ sender = (k, Err (Protocol ''unhandled message''))"

section \<open>The iterative search\<close>

text \<open>The outcome of one exchange with a node: nothing sent, no answer in time, or a datagram.\<close>

datatype exchange = SendFailed | NoReply | Reply bytes

fun next_exchange :: "exchange list \<Rightarrow> exchange \<times> exchange list" where
  "next_exchange [] = (NoReply, [])"
| "next_exchange (e # es) = (e, es)"

text \<open>The receive buffer has 1400 bytes; a longer datagram is cut.\<close>

definition decode_reply :: "bytes \<Rightarrow> (dht_message, qvod_error) result" where
  "decode_reply bs = dht_decode (take 1400 bs)"

record search =
  se_queried :: "socket_addr list"
  se_shortlist :: "kbucket_entry list"
  se_found_any :: bool

definition node_entry :: "nat \<Rightarrow> node_info \<Rightarrow> kbucket_entry" where
  "node_entry now n =
     \<lparr>kb_node_id = ni_node_id n, kb_addr = \<lparr>sa_ip = V4 (ni_ip n), sa_port = ni_port n\<rparr>, kb_last_seen = now,
      kb_latency = 0, kb_is_firewalled = False\<rparr>"

definition add_candidate :: "nat \<Rightarrow> node_info \<Rightarrow> search \<Rightarrow> search" where
  "add_candidate now n s =
     (let e = node_entry now n
      in if (\<forall>x \<in> set (se_shortlist s). kb_addr x \<noteq> kb_addr e) \<and> kb_addr e \<notin> set (se_queried s)
         then s\<lparr>se_shortlist := se_shortlist s @ [e], se_found_any := True\<rparr> else s)"

definition decode_compact :: "bytes \<Rightarrow> peer_info" where
  "decode_compact cp = plain_peer \<lparr>sa_ip = V4 (take 4 cp), sa_port = u16_from_be (cp ! 4) (cp ! 5)\<rparr>"

definition find_peers_request :: "node_id \<Rightarrow> info_hash \<Rightarrow> dht_message" where
  "find_peers_request local_id ih =
     FindPeers \<lparr>mh_magic = MAGIC, mh_msg_type = TFindPeers, mh_txn_id = 0, mh_ver = PROTOCOL_VERSION\<rparr>
       local_id (ih_bytes ih)"

text \<open>A received datagram: peers end the search, nodes become candidates, the rest is ignored.\<close>

definition process_reply :: "nat \<Rightarrow> info_hash \<Rightarrow> bytes \<Rightarrow> search \<Rightarrow> krpc \<Rightarrow> peer_info list option \<times> search \<times> krpc" where
  "process_reply now ih bs s k =
     (case decode_reply bs of
        Ok (FindPeersResponse _ _ (Peers cps)) \<Rightarrow>
          (let ps = map decode_compact cps
           in if ps \<noteq> [] then (Some ps, s, foldl (\<lambda>k p. store_peer (ih_bytes ih) p k) k ps) else (None, s, k))
      | Ok (FindPeersResponse _ _ (Nodes ns)) \<Rightarrow> (None, foldl (\<lambda>s n. add_candidate now n s) s ns, k)
      | Ok (FindNodeResponse _ _ ns) \<Rightarrow> (None, foldl (\<lambda>s n. add_candidate now n s) s ns, k)
      | _ \<Rightarrow> (None, s, k))"

text \<open>
  The queries of one round: \<open>Inl\<close> the peers found, which ends the search, or \<open>Inr\<close> the state
  after the last entry.
\<close>

fun query_entries :: "nat \<Rightarrow> info_hash \<Rightarrow> kbucket_entry list \<Rightarrow> exchange list \<Rightarrow> search \<Rightarrow> krpc \<Rightarrow>
    (peer_info list + unit) \<times> search \<times> krpc \<times> exchange list" where
  "query_entries now ih [] net s k = (Inr (), s, k, net)"
| "query_entries now ih (e # es) net s k =
     (let s1 = s\<lparr>se_queried := kb_addr e # se_queried s\<rparr>;
          (x, net') = next_exchange net
      in case x of
           Reply bs \<Rightarrow>
             (case process_reply now ih bs s1 k of
                (Some ps, s2, k2) \<Rightarrow> (Inl ps, s2, k2, net')
              | (None, s2, k2) \<Rightarrow> query_entries now ih es net' s2 k2)
         | _ \<Rightarrow> query_entries now ih es net' s1 k)"

definition by_distance :: "node_id \<Rightarrow> kbucket_entry list \<Rightarrow> kbucket_entry list" where
  "by_distance target es = sort_key (\<lambda>e. xor_distance target (kb_node_id e)) es"

fun search_rounds :: "nat \<Rightarrow> nat \<Rightarrow> info_hash \<Rightarrow> nat \<Rightarrow> node_id option \<Rightarrow> exchange list \<Rightarrow> search \<Rightarrow> krpc \<Rightarrow>
    (peer_info list + unit) \<times> search \<times> krpc \<times> exchange list" where
  "search_rounds 0 now ih alpha closest net s k = (Inr (), s, k, net)"
| "search_rounds (Suc n) now ih alpha closest net s k =
     (let target = NodeId (ih_bytes ih);
          s1 = s\<lparr>se_shortlist := by_distance target (se_shortlist s)\<rparr>;
          to_query = take alpha (filter (\<lambda>e. kb_addr e \<notin> set (se_queried s1)) (se_shortlist s1))
      in if to_query = [] then (Inr (), s1, k, net)
         else case query_entries now ih to_query net (s1\<lparr>se_found_any := False\<rparr>) k of
           (Inl ps, r) \<Rightarrow> (Inl ps, r)
         | (Inr _, s2, k2, net2) \<Rightarrow>
             (let s3 = s2\<lparr>se_shortlist := by_distance target (se_shortlist s2)\<rparr>;
                  current = (case se_shortlist s3 of [] \<Rightarrow> None | e # _ \<Rightarrow> Some (kb_node_id e))
              in if current \<noteq> None \<and> closest \<noteq> None \<and> current = closest then (Inr (), s3, k2, net2)
                 else if \<not> se_found_any s3 then (Inr (), s3, k2, net2)
                 else search_rounds n now ih alpha (if current = None then closest else current) net2 s3 k2))"

definition MAX_ROUNDS :: nat where "MAX_ROUNDS = 8"

fun insert_all :: "nat \<Rightarrow> kbucket_entry list \<Rightarrow> routing_table \<Rightarrow> (routing_table, qvod_error) result" where
  "insert_all now [] t = Ok t"
| "insert_all now (e # es) t = and_then (rt_insert now e t) (\<lambda>(t', _). insert_all now es t')"

text \<open>The result: the peers found and the closest nodes, with the state after the search.\<close>

definition iterative_find_peers :: "nat \<Rightarrow> info_hash \<Rightarrow> nat \<Rightarrow> exchange list \<Rightarrow> krpc \<Rightarrow>
    krpc \<times> (peer_info list \<times> kbucket_entry list, qvod_error) result" where
  "iterative_find_peers now ih alpha net k =
     (let shortlist = rt_find_closest (kr_table k) (NodeId (ih_bytes ih)) K
      in if shortlist = [] then
           (k, Err (DhtRoutingFailed ''no nodes in routing table for iterative find_peers''))
         else case search_rounds MAX_ROUNDS now ih alpha None net
             \<lparr>se_queried = [], se_shortlist = shortlist, se_found_any = False\<rparr> k of
           (Inl ps, s, k', _) \<Rightarrow> (k', Ok (ps, se_shortlist s))
         | (Inr _, s, k', _) \<Rightarrow>
             (case insert_all now (se_shortlist s) (kr_table k') of
                Ok t \<Rightarrow> (k'\<lparr>kr_table := t\<rparr>, Ok ([], se_shortlist s))
              | Err e \<Rightarrow> (k', Err e)
              | Panic \<Rightarrow> (k', Panic)))"

section \<open>Refreshing\<close>

text \<open>The datagrams \<open>refresh_buckets\<close> sends; the answers are read and dropped.\<close>

definition refresh_target :: "nat \<Rightarrow> node_id" where
  "refresh_target idx = NodeId (of_nat (idx mod 256) # of_nat (idx div 256 mod 256) # replicate 18 0)"

definition refresh_buckets :: "nat \<Rightarrow> nat \<Rightarrow> node_id \<Rightarrow> krpc \<Rightarrow> krpc \<times> (socket_addr \<times> bytes) list" where
  "refresh_buckets now now' local_id k =
     (let idxs = rt_refresh_list now (kr_table k);
          sent = concat (map (\<lambda>idx.
            case rt_find_closest (kr_table k) (refresh_target idx) K of
              [] \<Rightarrow> []
            | e # _ \<Rightarrow> [(kb_addr e, dht_encode (FindNode
                \<lparr>mh_magic = MAGIC, mh_msg_type = TFindNode, mh_txn_id = 0, mh_ver = PROTOCOL_VERSION\<rparr>
                local_id (refresh_target idx)))]) idxs)
      in (k\<lparr>kr_table := foldl (\<lambda>t i. rt_mark_refreshed now' i t) (kr_table k) idxs\<rparr>, sent))"

definition routing_table_size :: "krpc \<Rightarrow> nat" where
  "routing_table_size k = rt_size (kr_table k)"

section \<open>The store of peers\<close>

definition peers_bounded :: "krpc \<Rightarrow> bool" where
  "peers_bounded k \<longleftrightarrow> (\<forall>ih ps. kr_peers k ih = Some ps \<longrightarrow> length ps \<le> MAX_PEERS_PER_HASH)"

lemma peers_bounded_new [simp]: "peers_bounded (krpc_new rt tm)"
  by (simp add: peers_bounded_def krpc_new_def)

lemma store_peer_bounded: "peers_bounded k \<Longrightarrow> peers_bounded (store_peer ih p k)"
  by (fastforce simp: peers_bounded_def store_peer_def Let_def MAX_PEERS_PER_HASH_def split: option.splits)

lemma store_peer_table [simp]:
  "kr_table (store_peer ih p k) = kr_table k" "kr_tokens (store_peer ih p k) = kr_tokens k"
  by (simp_all add: store_peer_def Let_def)

lemma store_all_bounded:
  "peers_bounded k \<Longrightarrow> peers_bounded (foldl (\<lambda>k p. store_peer ih p k) k ps)"
  by (induction ps arbitrary: k) (simp_all add: store_peer_bounded)

lemma store_all_frame [simp]:
  "kr_table (foldl (\<lambda>k p. store_peer ih p k) k ps) = kr_table k"
  "kr_tokens (foldl (\<lambda>k p. store_peer ih p k) k ps) = kr_tokens k"
  by (induction ps arbitrary: k) simp_all

lemma get_peers_store:
  assumes "length (get_peers k (InfoHash ih)) < MAX_PEERS_PER_HASH"
  shows "get_peers (store_peer ih p k) (InfoHash ih) = get_peers k (InfoHash ih) @ [p]"
  using assms by (auto simp: get_peers_def store_peer_def Let_def split: option.splits)

text \<open>The peers of a store after one more is stored.\<close>

lemma get_peers_store_iff:
  "set (get_peers (store_peer ih p k) h) \<subseteq> set (get_peers k h) \<union> (if ih_bytes h = ih then {p} else {})"
  by (auto simp: get_peers_def store_peer_def Let_def split: option.splits if_splits)

definition serve :: "(bytes \<Rightarrow> bytes) \<Rightarrow> krpc \<Rightarrow> (dht_message \<times> socket_addr) list \<Rightarrow> krpc" where
  "serve sha1 k ms = foldl (\<lambda>k (m, sender). fst (handle_message sha1 k m sender)) k ms"

lemma serve_snoc: "serve sha1 k (ms @ [(m, s)]) = fst (handle_message sha1 (serve sha1 k ms) m s)"
  by (simp add: serve_def)

lemma handle_message_state:
  "fst (handle_message sha1 k m sender) = k \<or>
   (\<exists>h n ih token port. m = Announce h n ih token port \<and> verify_token sha1 (kr_tokens k) sender token \<and>
      fst (handle_message sha1 k m sender) = store_peer ih (plain_peer \<lparr>sa_ip = sa_ip sender, sa_port = port\<rparr>) k)"
  by (cases m) (simp_all add: Let_def)

lemma handle_message_frame [simp]:
  "kr_table (fst (handle_message sha1 k m s)) = kr_table k"
  "kr_tokens (fst (handle_message sha1 k m s)) = kr_tokens k"
  using handle_message_state [of sha1 k m s] by auto

lemma serve_tokens [simp]: "kr_tokens (serve sha1 k ms) = kr_tokens k"
  unfolding serve_def by (induction ms arbitrary: k) auto

lemma serve_bounded: "peers_bounded k \<Longrightarrow> peers_bounded (serve sha1 k ms)"
proof (induction ms rule: rev_induct)
  case (snoc ms_s ms)
  obtain m s where ms: "ms_s = (m, s)" by fastforce
  show ?case
    using snoc handle_message_state [of sha1 "serve sha1 k ms" m s]
    by (auto simp: ms serve_snoc store_peer_bounded)
qed (simp add: serve_def)

text \<open>
  C4: whatever messages arrive, in any order and from anyone, the node stores at most
  \<open>MAX_PEERS_PER_HASH\<close> peers per hash, and only peers at the address of a sender whose
  announce for that hash carried a token valid for the sender. The peers that the answers to its own searches name are not
  among these.
\<close>

theorem announced_peers_authentic:
  "length (get_peers (serve sha1 (krpc_new rt tm) ms) h) \<le> MAX_PEERS_PER_HASH \<and>
   (\<forall>p \<in> set (get_peers (serve sha1 (krpc_new rt tm) ms) h).
     \<exists>hd n token port sender. (Announce hd n (ih_bytes h) token port, sender) \<in> set ms \<and>
       verify_token sha1 tm sender token \<and> pi_addr p = \<lparr>sa_ip = sa_ip sender, sa_port = port\<rparr>)"
proof (intro conjI ballI)
  have "peers_bounded (serve sha1 (krpc_new rt tm) ms)"
    by (simp add: serve_bounded)
  then show "length (get_peers (serve sha1 (krpc_new rt tm) ms) h) \<le> MAX_PEERS_PER_HASH"
    by (auto simp: peers_bounded_def get_peers_def split: option.splits)
  show "\<exists>hd n token port sender. (Announce hd n (ih_bytes h) token port, sender) \<in> set ms \<and>
       verify_token sha1 tm sender token \<and> pi_addr p = \<lparr>sa_ip = sa_ip sender, sa_port = port\<rparr>"
    if "p \<in> set (get_peers (serve sha1 (krpc_new rt tm) ms) h)" for p
    using that
  proof (induction ms rule: rev_induct)
    case Nil
    then show ?case by (simp add: serve_def krpc_new_def get_peers_def)
  next
    case (snoc ms_s ms)
    obtain m s where ms: "ms_s = (m, s)" by fastforce
    let ?k = "serve sha1 (krpc_new rt tm) ms"
    have p: "p \<in> set (get_peers (fst (handle_message sha1 ?k m s)) h)"
      using snoc.prems by (simp add: ms serve_snoc)
    show ?case
    proof (cases "p \<in> set (get_peers ?k h)")
      case True
      from snoc.IH [OF this] show ?thesis unfolding ms set_append by blast
    next
      case False
      with p have "fst (handle_message sha1 ?k m s) \<noteq> ?k" by auto
      with handle_message_state [of sha1 ?k m s] obtain hd n ih token port where
        m: "m = Announce hd n ih token port" "verify_token sha1 (kr_tokens ?k) s token"
        and st: "fst (handle_message sha1 ?k m s) = store_peer ih (plain_peer \<lparr>sa_ip = sa_ip s, sa_port = port\<rparr>) ?k"
        by auto
      have "p \<in> (if ih_bytes h = ih then {plain_peer \<lparr>sa_ip = sa_ip s, sa_port = port\<rparr>} else {})"
        using False p [unfolded st] get_peers_store_iff by blast
      with m show ?thesis
        by (auto simp: ms plain_peer_def krpc_new_def split: if_splits)
    qed
  qed
qed

text \<open>
  An announce with a valid token is answered, and every later search for its hash is answered
  with the known peers, the announcing one last.
\<close>

theorem announce_then_find:
  assumes "verify_token sha1 (kr_tokens k) sender token"
    and "length (get_peers k (InfoHash ih)) < MAX_PEERS_PER_HASH"
  shows "snd (handle_message sha1 k (Announce h n ih token port) sender) =
      Ok (Some (AnnounceResponse (reply_header h) (rt_local_id (kr_table k)))) \<and>
    snd (handle_message sha1 (fst (handle_message sha1 k (Announce h n ih token port) sender)) (FindPeers h' n' ih) s') =
      Ok (Some (FindPeersResponse (reply_header h') (rt_local_id (kr_table k))
        (Peers (map compact_peer (get_peers k (InfoHash ih)) @ [v4_octets (sa_ip sender) @ u16_be port]))))"
  using assms by (simp_all add: get_peers_store Let_def compact_peer_def plain_peer_def)

section \<open>The search keeps the table sound\<close>

lemma decode_node_info_arr20: "decode_node_info d = Ok (n, r) \<Longrightarrow> node_info_wf n"
  by (auto simp: decode_node_info_def node_info_wf_def arr20_def min_def split: if_splits)

lemma decode_nodes_wf: "decode_nodes d = Ok ns \<Longrightarrow> n \<in> set ns \<Longrightarrow> node_info_wf n"
proof (induction d arbitrary: ns rule: decode_nodes.induct)
  case (1 d)
  show ?case
  proof (cases "26 \<le> length d")
    case True
    with "1.prems" obtain m r ms where *: "decode_node_info d = Ok (m, r)" "decode_nodes r = Ok ms" "ns = m # ms"
      by (subst (asm) decode_nodes.simps) (auto simp: and_then_Ok_iff)
    with "1.IH" [OF True *(1) refl *(2)] "1.prems" show ?thesis
      by (auto dest: decode_node_info_arr20)
  next
    case False
    with "1.prems" show ?thesis by (subst (asm) decode_nodes.simps) simp
  qed
qed

lemma decode_nodes_count_wf: "n \<in> set (decode_nodes_count c d) \<Longrightarrow> node_info_wf n"
proof (induction c arbitrary: d)
  case (Suc c)
  then show ?case
    by (auto split: if_splits result.splits dest: decode_node_info_arr20)
qed simp

lemma dht_decode_nodes_wf:
  assumes "dht_decode d = Ok m"
  shows "m = FindNodeResponse h i ns \<Longrightarrow> n \<in> set ns \<Longrightarrow> node_info_wf n"
    and "m = FindPeersResponse h i (Nodes ns) \<Longrightarrow> n \<in> set ns \<Longrightarrow> node_info_wf n"
proof -
  obtain hd rest where hd: "decode_header d = Ok (hd, rest)"
    using assms by (auto simp: dht_decode_def and_then_Ok_iff)
  show "m = FindNodeResponse h i ns \<Longrightarrow> n \<in> set ns \<Longrightarrow> node_info_wf n"
    using assms hd by (cases "mh_msg_type hd")
      (auto simp: dht_decode_def and_then_Ok_iff Let_def split: if_splits dest: decode_nodes_wf)
  show "m = FindPeersResponse h i (Nodes ns) \<Longrightarrow> n \<in> set ns \<Longrightarrow> node_info_wf n"
    using assms hd by (cases "mh_msg_type hd")
      (auto simp: dht_decode_def and_then_Ok_iff Let_def split: if_splits dest: decode_nodes_count_wf)
qed

definition entries_ok :: "kbucket_entry list \<Rightarrow> bool" where
  "entries_ok es \<longleftrightarrow> (\<forall>e \<in> set es. arr20 (nid_bytes (kb_node_id e)))"

lemma add_candidate_ok:
  "entries_ok (se_shortlist s) \<Longrightarrow> node_info_wf n \<Longrightarrow> entries_ok (se_shortlist (add_candidate now n s))"
  by (simp add: entries_ok_def add_candidate_def Let_def node_entry_def node_info_wf_def)

lemma add_candidates_ok:
  "entries_ok (se_shortlist s) \<Longrightarrow> \<forall>n \<in> set ns. node_info_wf n \<Longrightarrow>
    entries_ok (se_shortlist (foldl (\<lambda>s n. add_candidate now n s) s ns))"
  by (induction ns arbitrary: s) (simp_all add: add_candidate_ok)

lemma process_reply_ok:
  assumes "process_reply now ih bs s k = (r, s', k')" and "entries_ok (se_shortlist s)"
  shows "entries_ok (se_shortlist s') \<and> kr_table k' = kr_table k \<and> (peers_bounded k \<longrightarrow> peers_bounded k')"
proof (cases "decode_reply bs")
  case (Ok m)
  then have dec: "dht_decode (take 1400 bs) = Ok m" by (simp add: decode_reply_def)
  show ?thesis
  proof (cases m)
    case (FindNodeResponse h i ns)
    with assms Ok dht_decode_nodes_wf(1) [OF dec] show ?thesis
      by (auto simp: process_reply_def intro!: add_candidates_ok)
  next
    case (FindPeersResponse h i v)
    with assms Ok dht_decode_nodes_wf(2) [OF dec] show ?thesis
      by (cases v) (auto simp: process_reply_def Let_def intro!: add_candidates_ok store_all_bounded split: if_splits)
  qed (use assms Ok in \<open>simp_all add: process_reply_def\<close>)
qed (use assms in \<open>simp_all add: process_reply_def\<close>)

lemma query_entries_ok:
  assumes "query_entries now ih es net s k = (r, s', k', net')" and "entries_ok (se_shortlist s)"
  shows "entries_ok (se_shortlist s') \<and> kr_table k' = kr_table k \<and> (peers_bounded k \<longrightarrow> peers_bounded k')"
  using assms
proof (induction es arbitrary: net s k)
  case (Cons e es)
  let ?s = "s\<lparr>se_queried := kb_addr e # se_queried s\<rparr>"
  obtain x net1 where net: "next_exchange net = (x, net1)" by fastforce
  show ?case
  proof (cases x)
    case (Reply bs)
    obtain p s2 k2 where pr: "process_reply now ih bs ?s k = (p, s2, k2)" by (cases "process_reply now ih bs ?s k")
    have ok: "entries_ok (se_shortlist s2) \<and> kr_table k2 = kr_table k \<and> (peers_bounded k \<longrightarrow> peers_bounded k2)"
      using Cons.prems by (intro process_reply_ok [OF pr]) simp
    show ?thesis
    proof (cases p)
      case None
      with Cons.prems(1) net Reply pr have "query_entries now ih es net1 s2 k2 = (r, s', k', net')" by simp
      from Cons.IH [OF this] ok show ?thesis by auto
    next
      case (Some ps)
      with Cons.prems(1) net Reply pr ok show ?thesis by auto
    qed
  qed (use Cons net in auto)
qed simp

lemma entries_ok_sort [simp]: "entries_ok (by_distance t es) = entries_ok es"
  by (simp add: entries_ok_def by_distance_def)

lemma search_rounds_ok:
  assumes "search_rounds n now ih alpha closest net s k = (r, s', k', net')" and "entries_ok (se_shortlist s)"
  shows "entries_ok (se_shortlist s') \<and> kr_table k' = kr_table k \<and> (peers_bounded k \<longrightarrow> peers_bounded k')"
  using assms
proof (induction n arbitrary: closest net s k)
  case (Suc n)
  let ?t = "NodeId (ih_bytes ih)"
  let ?s1 = "s\<lparr>se_shortlist := by_distance ?t (se_shortlist s)\<rparr>"
  let ?q = "take alpha (filter (\<lambda>e. kb_addr e \<notin> set (se_queried ?s1)) (se_shortlist ?s1))"
  show ?case
  proof (cases "?q = []")
    case True
    with Suc.prems show ?thesis by (auto simp: Let_def)
  next
    case False
    obtain q s2 k2 net2 where q: "query_entries now ih ?q net (?s1\<lparr>se_found_any := False\<rparr>) k = (q, s2, k2, net2)"
      by (cases "query_entries now ih ?q net (?s1\<lparr>se_found_any := False\<rparr>) k")
    have ok: "entries_ok (se_shortlist s2) \<and> kr_table k2 = kr_table k \<and> (peers_bounded k \<longrightarrow> peers_bounded k2)"
      using Suc.prems by (intro query_entries_ok [OF q]) simp
    let ?s3 = "s2\<lparr>se_shortlist := by_distance ?t (se_shortlist s2)\<rparr>"
    have next_ok: "entries_ok (se_shortlist s') \<and> kr_table k' = kr_table k \<and> (peers_bounded k \<longrightarrow> peers_bounded k')"
      if "search_rounds n now ih alpha c net2 ?s3 k2 = (r, s', k', net')" for c
      using Suc.IH [OF that] ok by auto
    show ?thesis
    proof (cases q)
      case (Inl ps)
      with Suc.prems(1) False q ok show ?thesis by (simp add: Let_def)
    next
      case (Inr u)
      with Suc.prems(1) False q have "(r, s', k', net') = (Inr (), ?s3, k2, net2) \<or>
          (\<exists>c. search_rounds n now ih alpha c net2 ?s3 k2 = (r, s', k', net'))"
        by (simp add: Let_def split: if_splits) blast+
      with next_ok ok show ?thesis by auto
    qed
  qed
qed simp

lemma collect_subset:
  "set (collect_candidates bs idx count cand os) \<subseteq> set cand \<union> (\<Union>b \<in> set bs. set (kb_entries b))"
proof (induction os arbitrary: cand)
  case (Cons d os)
  have step: "set (cand @ xs @ ys) \<subseteq> set cand \<union> (\<Union>b \<in> set bs. set (kb_entries b))"
    if "\<forall>x \<in> set xs. \<exists>b \<in> set bs. x \<in> set (kb_entries b)" "\<forall>y \<in> set ys. \<exists>b \<in> set bs. y \<in> set (kb_entries b)" for xs ys
    using that by auto
  let ?xs = "case if d \<le> idx then Some (idx - d) else None of Some l \<Rightarrow> if l < length bs then kb_entries (bs ! l) else []
      | None \<Rightarrow> []"
  let ?ys = "if idx + d < length bs \<and> (if d \<le> idx then Some (idx - d) else None) \<noteq> Some (idx + d)
      then kb_entries (bs ! (idx + d)) else []"
  have sub: "set (cand @ ?xs @ ?ys) \<subseteq> set cand \<union> (\<Union>b \<in> set bs. set (kb_entries b))"
    by (rule step) auto
  have eq: "collect_candidates bs idx count cand (d # os) = (if count \<le> length (cand @ ?xs @ ?ys)
      then cand @ ?xs @ ?ys else collect_candidates bs idx count (cand @ ?xs @ ?ys) os)"
    by (simp only: collect_candidates.simps Let_def append_assoc)
  show ?case
  proof (cases "count \<le> length (cand @ ?xs @ ?ys)")
    case True
    then show ?thesis using sub by (simp only: eq if_True)
  next
    case False
    then show ?thesis using subset_trans [OF Cons.IH [of "cand @ ?xs @ ?ys"] Un_least [OF sub Un_upper2]]
      by (simp only: eq if_False)
  qed
qed simp

lemma find_closest_ok: "rt_wf t \<Longrightarrow> entries_ok (rt_find_closest t target count)"
proof -
  assume wf: "rt_wf t"
  have "arr20 (nid_bytes (kb_node_id e))" if "b \<in> set (rt_buckets t)" "e \<in> set (kb_entries b)" for b e
  proof -
    from that(1) wf obtain i where "i < 160" "b = rt_buckets t ! i" by (auto simp: rt_wf_def in_set_conv_nth)
    with that(2) rt_wfD(2) [OF wf, of i "kb_node_id e"] show ?thesis by (simp add: bucket_ids_def)
  qed
  then show ?thesis
    using collect_subset [of "rt_buckets t" "bucket_index t target" count "[]" "[0..<length (rt_buckets t)]"]
    by (auto simp: rt_find_closest_def entries_ok_def dest!: in_set_takeD)
qed

lemma insert_all_wf: "rt_wf t \<Longrightarrow> entries_ok es \<Longrightarrow> \<exists>t'. insert_all now es t = Ok t' \<and> rt_wf t'"
proof (induction es arbitrary: t)
  case (Cons e es)
  then have "arr20 (nid_bytes (kb_node_id e))" by (simp add: entries_ok_def)
  from rt_insert_wf [OF Cons.prems(1) this] obtain t1 r where "rt_insert now e t = Ok (t1, r)" "rt_wf t1"
    by metis
  with Cons show ?case by (simp add: entries_ok_def)
qed simp


text \<open>
  C7: a peer search ends without panic whatever the network answers and keeps the invariants of
  the routing table and of the peer store.
\<close>

theorem iterative_search_safe:
  assumes "rt_wf (kr_table k)" and "peers_bounded k" and "iterative_find_peers now ih alpha net k = (k', r)"
  shows "r \<noteq> Panic \<and> rt_wf (kr_table k') \<and> peers_bounded k'"
proof -
  let ?sl = "rt_find_closest (kr_table k) (NodeId (ih_bytes ih)) K"
  let ?s = "\<lparr>se_queried = [], se_shortlist = ?sl, se_found_any = False\<rparr>"
  have ok0: "entries_ok ?sl"
    using assms(1) by (rule find_closest_ok)
  obtain q s k1 n1 where q: "search_rounds MAX_ROUNDS now ih alpha None net ?s k = (q, s, k1, n1)"
    by (cases "search_rounds MAX_ROUNDS now ih alpha None net ?s k")
  have ok: "entries_ok (se_shortlist s) \<and> kr_table k1 = kr_table k \<and> (peers_bounded k \<longrightarrow> peers_bounded k1)"
    using ok0 by (intro search_rounds_ok [OF q]) simp
  then obtain t where t: "insert_all now (se_shortlist s) (kr_table k1) = Ok t" "rt_wf t"
    using insert_all_wf [of "kr_table k1" "se_shortlist s" now] assms(1) by auto
  show ?thesis
  proof (cases "?sl = []")
    case True
    with assms show ?thesis by (auto simp: iterative_find_peers_def)
  next
    case False
    with assms q ok t show ?thesis
      by (cases q) (auto simp: iterative_find_peers_def peers_bounded_def)
  qed
qed


definition sample_krpc :: krpc where
  "sample_krpc = krpc_new sample_table (tm_new 0 (replicate 16 1) (replicate 16 2))"

definition sample_sender :: socket_addr where
  "sample_sender = \<lparr>sa_ip = V4 [192, 168, 1, 1], sa_port = 9\<rparr>"

definition sample_announce :: dht_message where
  "sample_announce = Announce (sample_header TAnnounce) (NodeId (replicate 20 1)) (replicate 20 2) (replicate 4 0) 8621"

lemma sample_table_wf: "rt_wf sample_table"
  using rt_reach_wf [OF sample_table_reach] by (simp add: arr20_def)

theorem announced_peers_authentic_witness:
  "\<exists>hd n token port sender. (Announce hd n (replicate 20 2) token port, sender) \<in> set [(sample_announce, sample_sender)] \<and>
     verify_token (\<lambda>_. replicate 20 0) (kr_tokens sample_krpc) sender token \<and>
     pi_addr (plain_peer \<lparr>sa_ip = V4 [192, 168, 1, 1], sa_port = 8621\<rparr>) = \<lparr>sa_ip = sa_ip sender, sa_port = port\<rparr>"
proof -
  let ?p = "plain_peer \<lparr>sa_ip = V4 [192, 168, 1, 1], sa_port = 8621\<rparr>"
  have "?p \<in> set (get_peers (serve (\<lambda>_. replicate 20 0) sample_krpc [(sample_announce, sample_sender)]) (InfoHash (replicate 20 2)))"
    by (simp add: serve_def sample_krpc_def krpc_new_def sample_announce_def sample_sender_def verify_token_def
        generate_token_def generate_with_secret_def store_peer_def get_peers_def MAX_PEERS_PER_HASH_def tm_new_def)
  from bspec [OF conjunct2 [OF announced_peers_authentic] this [unfolded sample_krpc_def]] show ?thesis
    by (simp add: sample_krpc_def krpc_new_def)
qed

theorem announce_then_find_witness:
  "snd (handle_message (\<lambda>_. replicate 20 0)
      (fst (handle_message (\<lambda>_. replicate 20 0) sample_krpc sample_announce sample_sender))
      (FindPeers (sample_header TFindPeers) (NodeId []) (replicate 20 2)) sample_sender) =
    Ok (Some (FindPeersResponse (reply_header (sample_header TFindPeers)) (rt_local_id sample_table)
      (Peers [[192, 168, 1, 1] @ u16_be 8621])))"
proof -
  have v: "verify_token (\<lambda>_. replicate 20 0) (kr_tokens sample_krpc) sample_sender (replicate 4 0)"
    by (simp add: verify_token_def generate_token_def generate_with_secret_def)
  have g: "get_peers sample_krpc (InfoHash (replicate 20 2)) = []"
    by (simp add: get_peers_def sample_krpc_def krpc_new_def)
  then have "length (get_peers sample_krpc (InfoHash (replicate 20 2))) < MAX_PEERS_PER_HASH"
    by (simp add: MAX_PEERS_PER_HASH_def)
  from conjunct2 [OF announce_then_find [OF v this]] show ?thesis
    unfolding sample_announce_def g by (simp add: sample_sender_def sample_krpc_def krpc_new_def)
qed

theorem iterative_search_safe_witness:
  "rt_wf (kr_table (fst (iterative_find_peers 5 (InfoHash (replicate 20 7)) 3 [Reply [1, 2, 3], NoReply] sample_krpc)))"
  by (rule iterative_search_safe [OF _ _ surjective_pairing, THEN conjunct2, THEN conjunct1])
    (simp_all add: sample_krpc_def krpc_new_def peers_bounded_def sample_table_wf)

end
