(* ===== verification/Dht_Node.thy ===== *)
theory Dht_Node
  imports Dht_Krpc
begin

text \<open>
  The DHT node: bootstrapping from seed nodes (\<open>qvs-dht/src/bootstrap.rs\<close>) and the node's receive
  loop and client operations (\<open>qvs-dht/src/node.rs\<close>). A seed is given by the address it resolves
  to, if any.
\<close>

section \<open>Bootstrapping\<close>

definition ping_request :: "node_id \<Rightarrow> dht_message" where
  "ping_request local_id =
     Ping \<lparr>mh_magic = MAGIC, mh_msg_type = TPing, mh_txn_id = 0, mh_ver = PROTOCOL_VERSION\<rparr> local_id"

definition fresh_entry :: "nat \<Rightarrow> node_id \<Rightarrow> socket_addr \<Rightarrow> kbucket_entry" where
  "fresh_entry now n addr =
     \<lparr>kb_node_id = n, kb_addr = addr, kb_last_seen = now, kb_latency = 0, kb_is_firewalled = False\<rparr>"

text \<open>The loop over the seeds: each resolved one is pinged, and its \<open>PingResponse\<close> is stored.\<close>

fun ping_seeds :: "nat \<Rightarrow> socket_addr option list \<Rightarrow> exchange list \<Rightarrow> routing_table \<Rightarrow>
    (routing_table \<times> exchange list, qvod_error) result" where
  "ping_seeds now [] net t = Ok (t, net)"
| "ping_seeds now (None # seeds) net t = ping_seeds now seeds net t"
| "ping_seeds now (Some addr # seeds) net t =
     (let (x, net') = next_exchange net
      in case x of
           Reply bs \<Rightarrow>
             (case decode_reply bs of
                Ok (PingResponse _ n) \<Rightarrow>
                  and_then (rt_insert now (fresh_entry now n addr) t) (\<lambda>(t', _). ping_seeds now seeds net' t')
              | _ \<Rightarrow> ping_seeds now seeds net' t)
         | _ \<Rightarrow> ping_seeds now seeds net' t)"

text \<open>\<open>iterative_find_nodes\<close>: the entries of one round, then the rounds.\<close>

fun insert_nodes :: "nat \<Rightarrow> node_info list \<Rightarrow> routing_table \<Rightarrow> (routing_table, qvod_error) result" where
  "insert_nodes now [] t = Ok t"
| "insert_nodes now (n # ns) t =
     and_then (rt_insert now (node_entry now n) t) (\<lambda>(t', _). insert_nodes now ns t')"

fun find_nodes_round :: "nat \<Rightarrow> kbucket_entry list \<Rightarrow> exchange list \<Rightarrow> socket_addr list \<Rightarrow> bool \<Rightarrow> routing_table \<Rightarrow>
    (routing_table \<times> socket_addr list \<times> bool \<times> exchange list, qvod_error) result" where
  "find_nodes_round now [] net queried found t = Ok (t, queried, found, net)"
| "find_nodes_round now (e # es) net queried found t =
     (if kb_addr e \<in> set queried then find_nodes_round now es net queried found t
      else let queried' = kb_addr e # queried; (x, net') = next_exchange net
           in case x of
                Reply bs \<Rightarrow>
                  (case decode_reply bs of
                     Ok (FindNodeResponse _ _ ns) \<Rightarrow>
                       and_then (insert_nodes now ns t) (\<lambda>t'.
                         find_nodes_round now es net' queried' (found \<or> ns \<noteq> []) t')
                   | _ \<Rightarrow> find_nodes_round now es net' queried' found t)
              | _ \<Rightarrow> find_nodes_round now es net' queried' found t)"

fun iterative_find_nodes :: "nat \<Rightarrow> nat \<Rightarrow> node_id \<Rightarrow> exchange list \<Rightarrow> socket_addr list \<Rightarrow> routing_table \<Rightarrow>
    (routing_table, qvod_error) result" where
  "iterative_find_nodes 0 now target net queried t = Ok t"
| "iterative_find_nodes (Suc n) now target net queried t =
     (let closest = rt_find_closest t target 8
      in if closest = [] then Ok t
         else and_then (find_nodes_round now closest net queried False t) (\<lambda>(t', queried', found, net').
           if \<not> found then Ok t' else iterative_find_nodes n now target net' queried' t'))"

text \<open>\<open>bind\<close> is the outcome of binding the socket.\<close>

definition bootstrap :: "nat \<Rightarrow> (unit, qvod_error) result \<Rightarrow> socket_addr option list \<Rightarrow> exchange list \<Rightarrow> routing_table \<Rightarrow>
    (routing_table, qvod_error) result" where
  "bootstrap now bind seeds net t =
     (if seeds = [] then Err (DhtRoutingFailed ''no seed nodes'')
      else and_then bind (\<lambda>_.
      and_then (ping_seeds now seeds net t) (\<lambda>(t', net').
      if rt_size t' = 0 then Err DhtTimeout
      else iterative_find_nodes 3 now (rt_local_id t) net' [] t')))"

section \<open>The node\<close>

record dht_stats =
  ds_total_peers_found :: u64
  ds_messages_sent :: u64
  ds_messages_received :: u64
  ds_routing_table_size :: nat

record dht_config =
  dc_listen_port :: u16
  dc_k :: u8
  dc_alpha :: u8
  dc_refresh_interval :: u64
  dc_peer_timeout :: u64
  dc_seed_nodes :: "string list"

definition dht_config_default :: dht_config where
  "dht_config_default = \<lparr>dc_listen_port = DEFAULT_PORT, dc_k = 8, dc_alpha = 3, dc_refresh_interval = 900,
     dc_peer_timeout = 1800, dc_seed_nodes = []\<rparr>"

record dht_node =
  dn_config :: dht_config
  dn_local_id :: node_id
  dn_krpc :: krpc
  dn_stats :: dht_stats
  dn_stopped :: bool

definition dht_node_new :: "dht_config \<Rightarrow> nat \<Rightarrow> bytes \<Rightarrow> bytes \<Rightarrow> bytes \<Rightarrow> dht_node" where
  "dht_node_new config now rnd_id rnd_a rnd_b =
     (let local_id = NodeId (take 20 rnd_id)
      in \<lparr>dn_config = config, dn_local_id = local_id,
          dn_krpc = krpc_new (rt_new now local_id) (tm_new now rnd_a rnd_b),
          dn_stats = \<lparr>ds_total_peers_found = 0, ds_messages_sent = 0, ds_messages_received = 0, ds_routing_table_size = 0\<rparr>,
          dn_stopped = False\<rparr>)"

definition dn_stop :: "dht_node \<Rightarrow> dht_node" where
  "dn_stop d = d\<lparr>dn_stopped := True\<rparr>"

definition dn_set_alpha :: "u8 \<Rightarrow> dht_node \<Rightarrow> dht_node" where
  "dn_set_alpha a d = d\<lparr>dn_config := (dn_config d)\<lparr>dc_alpha := a\<rparr>\<rparr>"

definition dn_set_k :: "u8 \<Rightarrow> dht_node \<Rightarrow> dht_node" where
  "dn_set_k k d = d\<lparr>dn_config := (dn_config d)\<lparr>dc_k := k\<rparr>\<rparr>"

definition count_sent :: "dht_node \<Rightarrow> dht_node" where
  "count_sent d = d\<lparr>dn_stats := (dn_stats d)\<lparr>ds_messages_sent := ds_messages_sent (dn_stats d) + 1\<rparr>\<rparr>"

text \<open>One received datagram in the loop of \<open>start\<close>: the new state and the datagram sent back, if any.\<close>

definition dn_receive :: "(bytes \<Rightarrow> bytes) \<Rightarrow> dht_node \<Rightarrow> bytes \<Rightarrow> socket_addr \<Rightarrow> dht_node \<times> bytes option" where
  "dn_receive sha1 d0 bs sender =
     (let d = d0\<lparr>dn_stats := (dn_stats d0)\<lparr>ds_messages_received := ds_messages_received (dn_stats d0) + 1\<rparr>\<rparr>
      in case decode_reply bs of
           Ok msg \<Rightarrow>
             (let (k, r) = handle_message sha1 (dn_krpc d) msg sender; d1 = d\<lparr>dn_krpc := k\<rparr>
              in case r of
                   Ok (Some response) \<Rightarrow> (count_sent d1, Some (dht_encode response))
                 | Ok None \<Rightarrow> (d1, None)
                 | Err e \<Rightarrow>
                     (case error_response msg of
                        Some err \<Rightarrow> (count_sent d1, Some (dht_encode err))
                      | None \<Rightarrow> (d1, None))
                 | Panic \<Rightarrow> (d1, None))
         | _ \<Rightarrow> (d, None))"

definition dn_find_peers :: "nat \<Rightarrow> info_hash \<Rightarrow> exchange list \<Rightarrow> dht_node \<Rightarrow> dht_node \<times> (peer_info list, qvod_error) result" where
  "dn_find_peers now ih net d =
     (let cached = get_peers (dn_krpc d) ih
      in if cached \<noteq> [] then (d, Ok cached)
         else case iterative_find_peers now ih (unat (dc_alpha (dn_config d))) net (dn_krpc d) of
           (k, Ok (ps, _)) \<Rightarrow> (d\<lparr>dn_krpc := k\<rparr>, if ps \<noteq> [] then Ok ps else Err NoPeers)
         | (k, Err _) \<Rightarrow> (d\<lparr>dn_krpc := k\<rparr>, Err NoPeers)
         | (k, Panic) \<Rightarrow> (d\<lparr>dn_krpc := k\<rparr>, Panic))"

text \<open>The datagrams \<open>announce\<close> sends; the token is one of the node's own.\<close>

definition dn_announce :: "(bytes \<Rightarrow> bytes) \<Rightarrow> info_hash \<Rightarrow> u16 \<Rightarrow> dht_node \<Rightarrow> (socket_addr \<times> bytes) list" where
  "dn_announce sha1 ih port d =
     map (\<lambda>e. (kb_addr e, dht_encode (Announce
         \<lparr>mh_magic = MAGIC, mh_msg_type = TAnnounce, mh_txn_id = 0, mh_ver = PROTOCOL_VERSION\<rparr>
         (dn_local_id d) (ih_bytes ih) (generate_token sha1 (kr_tokens (dn_krpc d)) (kb_addr e)) port)))
       (rt_find_closest (kr_table (dn_krpc d)) (NodeId (ih_bytes ih)) 8)"

definition dn_stats_now :: "dht_node \<Rightarrow> dht_stats" where
  "dn_stats_now d = (dn_stats d)\<lparr>ds_routing_table_size := routing_table_size (dn_krpc d)\<rparr>"

section \<open>Bootstrapping never stores a seed\<close>

lemma decode_reply_no_ping_response: "decode_reply bs \<noteq> Ok (PingResponse h n)"
  by (simp add: decode_reply_def dht_decode_no_ping_response)

lemma ping_seeds_unchanged: "\<exists>net'. ping_seeds now seeds net t = Ok (t, net')"
proof (induction seeds arbitrary: net)
  case (Cons seed seeds)
  show ?case
  proof (cases seed)
    case (Some addr)
    obtain x net1 where x: "next_exchange net = (x, net1)" by fastforce
    show ?thesis
    proof (cases x)
      case (Reply bs)
      have "ping_seeds now (seed # seeds) net t = ping_seeds now seeds net1 t"
        using x Some Reply decode_reply_no_ping_response [of bs]
        by (simp split: result.split dht_message.split)
      with Cons.IH show ?thesis by simp
    qed (use x Some Cons.IH in simp_all)
  qed (use Cons.IH in simp)
qed simp

text \<open>
  The answers of the seed nodes are never stored, because the decoder reads a
  \<open>PingResponse\<close> as a \<open>Ping\<close>: bootstrapping a node whose table is empty fails with a timeout
  whatever the seeds answer.
\<close>

theorem bootstrap_never_succeeds:
  assumes "rt_size t = 0" and "seeds \<noteq> []"
  shows "bootstrap now (Ok ()) seeds net t = Err DhtTimeout"
  using assms ping_seeds_unchanged [of now seeds net t] by (auto simp: bootstrap_def)

theorem bootstrap_never_succeeds_witness:
  "bootstrap 0 (Ok ()) [Some \<lparr>sa_ip = V4 [1, 2, 3, 4], sa_port = 8621\<rparr>]
     [Reply (dht_encode (PingResponse (sample_header TPing) (NodeId (replicate 20 9))))]
     (rt_new 0 (NodeId (replicate 20 0))) = Err DhtTimeout"
  by (rule bootstrap_never_succeeds) (simp_all add: rt_size_def rt_new_def kbucket_new_def sum_list_triv)

section \<open>The receive loop\<close>

text \<open>
  A peer search over the wire, between a node that knows a peer and one that asks: the answer the
  node sends is not decoded to the answer it meant.
\<close>

lemma dn_receive_find_peers:
  assumes "get_peers (dn_krpc d) (InfoHash ih) = p # ps" and "arr20 ih" and "arr20 (nid_bytes n)" and "header_wf TFindPeers h"
  shows "snd (dn_receive sha1 d (dht_encode (FindPeers h n ih)) sender) =
    Some (dht_encode (FindPeersResponse (reply_header h) (rt_local_id (kr_table (dn_krpc d)))
      (Peers (map compact_peer (p # ps)))))"
proof -
  have len: "length (dht_encode (FindPeers h n ih)) = 48"
    using assms by (simp add: encode_header_def MAGIC_def arr20_def)
  have "dht_decode (dht_encode (FindPeers h n ih)) = Ok (FindPeers h n ih)"
    using assms by (simp add: dht_decode_def decode_encode_header header_wf_def arr20_def subslice_def node_id.expand)
  with len have "decode_reply (dht_encode (FindPeers h n ih)) = Ok (FindPeers h n ih)"
    by (simp add: decode_reply_def del: dht_encode.simps)
  with assms show ?thesis
    by (simp add: dn_receive_def Let_def del: dht_encode.simps)
qed

text \<open>
  Every datagram received is counted, a datagram is sent back only to a decodable message and
  is then counted, and neither the routing table nor the token secrets change.
\<close>

theorem dn_receive_effects:
  "ds_messages_received (dn_stats (fst (dn_receive sha1 d bs sender))) = ds_messages_received (dn_stats d) + 1 \<and>
   ds_messages_sent (dn_stats (fst (dn_receive sha1 d bs sender))) =
     ds_messages_sent (dn_stats d) + (case snd (dn_receive sha1 d bs sender) of None \<Rightarrow> 0 | Some _ \<Rightarrow> 1) \<and>
   (snd (dn_receive sha1 d bs sender) = None \<longleftrightarrow>
     (case dht_decode (take 1400 bs) of Ok m \<Rightarrow> is_response m | _ \<Rightarrow> True)) \<and>
   kr_table (dn_krpc (fst (dn_receive sha1 d bs sender))) = kr_table (dn_krpc d) \<and>
   kr_tokens (dn_krpc (fst (dn_receive sha1 d bs sender))) = kr_tokens (dn_krpc d)"
proof (cases "dht_decode (take 1400 bs)")
  case (Ok m)
  then show ?thesis
    by (cases m) (simp_all add: dn_receive_def decode_reply_def Let_def count_sent_def)
qed (simp_all add: dn_receive_def decode_reply_def Let_def)

end
