(* ===== verification/Dht_Session.thy ===== *)
theory Dht_Session
  imports Dht_Node
begin

text \<open>
  The DHT node as it runs (\<open>DhtNode::start\<close> in \<open>qvs-dht/src/node.rs\<close>): the loop over datagrams and refresh ticks, and
  sessions of calls and events. The lemmas say that nothing a node can do ever puts another node into its routing
  table.
\<close>

section \<open>The loop\<close>

text \<open>What the loop waits for: a datagram, an error of the socket, a tick of the refresh timer.\<close>

datatype node_event = NeDatagram bytes socket_addr | NeSocketError | NeTick nat nat

text \<open>
  One turn: the node after it, whether the loop goes on, what is sent. The flag that stops the loop is read before it
  waits, so a stop takes effect after the next event.
\<close>

definition node_turn :: "(bytes \<Rightarrow> bytes) \<Rightarrow> node_event \<Rightarrow> dht_node \<Rightarrow> dht_node \<times> bool \<times> (socket_addr \<times> bytes) list" where
  "node_turn sha1 ev d =
     (case ev of
        NeDatagram bs sender \<Rightarrow>
          (let (d1, r) = dn_receive sha1 d bs sender
           in (d1, \<not> dn_stopped d1, case r of Some out \<Rightarrow> [(sender, out)] | None \<Rightarrow> []))
      | NeSocketError \<Rightarrow> (d, False, [])
      | NeTick now now' \<Rightarrow>
          (let (k, sent) = refresh_buckets now now' (dn_local_id d) (dn_krpc d) in (d\<lparr>dn_krpc := k\<rparr>, \<not> dn_stopped d, sent)))"

text \<open>Bootstrapping works on the table of the node; when it fails the table is as it was.\<close>

definition dn_bootstrap :: "nat \<Rightarrow> (unit, qvod_error) result \<Rightarrow> socket_addr option list \<Rightarrow> exchange list \<Rightarrow> dht_node \<Rightarrow>
    dht_node \<times> (unit, qvod_error) result" where
  "dn_bootstrap now bind seeds net d =
     (case bootstrap now bind seeds net (kr_table (dn_krpc d)) of
        Ok t \<Rightarrow> (d\<lparr>dn_krpc := (dn_krpc d)\<lparr>kr_table := t\<rparr>\<rparr>, Ok ())
      | Err e \<Rightarrow> (d, Err e)
      | Panic \<Rightarrow> (d, Panic))"

section \<open>Sessions\<close>

text \<open>What a node meets: calls of its user, the start of its loop, events for it.\<close>

datatype node_action =
    NaBootstrap nat "(unit, qvod_error) result" "socket_addr option list" "exchange list"
  | NaFindPeers nat info_hash "exchange list"
  | NaAnnounce info_hash u16
  | NaSetAlpha u8
  | NaSetK u8
  | NaStart
  | NaStop
  | NaEvent node_event

text \<open>The node and whether its loop runs.\<close>

definition node_step :: "(bytes \<Rightarrow> bytes) \<Rightarrow> node_action \<Rightarrow> dht_node \<times> bool \<Rightarrow> dht_node \<times> bool" where
  "node_step sha1 act s =
     (let (d, alive) = s
      in case act of
           NaBootstrap now bind seeds net \<Rightarrow> (fst (dn_bootstrap now bind seeds net d), alive)
         | NaFindPeers now ih net \<Rightarrow> (fst (dn_find_peers now ih net d), alive)
         | NaAnnounce ih port \<Rightarrow> (d, alive)
         | NaSetAlpha a \<Rightarrow> (dn_set_alpha a d, alive)
         | NaSetK k \<Rightarrow> (dn_set_k k d, alive)
         | NaStart \<Rightarrow> (d, alive \<or> \<not> dn_stopped d)
         | NaStop \<Rightarrow> (dn_stop d, alive)
         | NaEvent ev \<Rightarrow> if alive then (let (d1, alive1, _) = node_turn sha1 ev d in (d1, alive1)) else s)"

definition node_run :: "(bytes \<Rightarrow> bytes) \<Rightarrow> node_action list \<Rightarrow> dht_node \<Rightarrow> dht_node \<times> bool" where
  "node_run sha1 acts d = fold (node_step sha1) acts (d, False)"

section \<open>An empty table stays empty\<close>

lemma collect_empty: "\<forall>b \<in> set bs. kb_entries b = [] \<Longrightarrow> collect_candidates bs idx count cand os = cand"
  by (induction os arbitrary: cand) (auto simp: Let_def)

lemma find_closest_empty: "rt_size t = 0 \<Longrightarrow> rt_find_closest t target count = []"
  by (simp add: rt_size_def rt_find_closest_def collect_empty)

lemma rt_size_marked: "rt_size (foldl (\<lambda>t i. rt_mark_refreshed now i t) t idxs) = rt_size t"
proof (induction idxs arbitrary: t)
  case (Cons i idxs)
  have "map (\<lambda>b. length (kb_entries b)) (rt_buckets (rt_mark_refreshed now i t)) = map (\<lambda>b. length (kb_entries b)) (rt_buckets t)"
    by (intro nth_equalityI) (auto simp: rt_mark_refreshed_def kbucket_mark_refreshed_def nth_list_update split: if_splits)
  then have "rt_size (rt_mark_refreshed now i t) = rt_size t" by (simp add: rt_size_def)
  with Cons show ?case by simp
qed simp

lemma rt_size_new: "rt_size (rt_new now i) = 0"
  by (simp add: rt_size_def rt_new_def kbucket_new_def sum_list_triv)

lemma bootstrap_empty: "rt_size t = 0 \<Longrightarrow> \<not> is_ok (bootstrap now bind seeds net t)"
  using ping_seeds_unchanged [of now seeds net t] by (cases bind) (auto simp: bootstrap_def)

lemma refresh_empty:
  "rt_size (kr_table k) = 0 \<Longrightarrow> refresh_buckets now now' i k =
    (k\<lparr>kr_table := foldl (\<lambda>t i. rt_mark_refreshed now' i t) (kr_table k) (rt_refresh_list now (kr_table k))\<rparr>, [])"
  by (simp add: refresh_buckets_def Let_def find_closest_empty)

lemma find_peers_empty:
  "rt_size (kr_table (dn_krpc d)) = 0 \<Longrightarrow> dn_find_peers now ih net d =
    (d, if get_peers (dn_krpc d) ih = [] then Err NoPeers else Ok (get_peers (dn_krpc d) ih))"
  by (simp add: dn_find_peers_def iterative_find_peers_def find_closest_empty Let_def)


text \<open>
  What a list of actions announces to a node, computed from the actions alone: the loop hears a datagram if it runs, and every
  announce it hears with a token valid for its sender names a peer, at the address of the sender.
\<close>

fun loop_state :: "node_action \<Rightarrow> bool \<times> bool \<Rightarrow> bool \<times> bool" where
  "loop_state NaStart (stopped, alive) = (stopped, alive \<or> \<not> stopped)"
| "loop_state NaStop (stopped, alive) = (True, alive)"
| "loop_state (NaEvent NeSocketError) (stopped, alive) = (stopped, False)"
| "loop_state (NaEvent _) (stopped, alive) = (stopped, alive \<and> \<not> stopped)"
| "loop_state _ st = st"

definition announced_peer :: "(bytes \<Rightarrow> bytes) \<Rightarrow> token_manager \<Rightarrow> info_hash \<Rightarrow> node_action \<Rightarrow> peer_info list" where
  "announced_peer sha1 tm ih act =
     (case act of
        NaEvent (NeDatagram bs sender) \<Rightarrow>
          (case decode_reply bs of
             Ok (Announce h n i token port) \<Rightarrow>
               if i = ih_bytes ih \<and> verify_token sha1 tm sender token then [plain_peer \<lparr>sa_ip = sa_ip sender, sa_port = port\<rparr>] else []
           | _ \<Rightarrow> [])
      | _ \<Rightarrow> [])"

fun announced_to :: "(bytes \<Rightarrow> bytes) \<Rightarrow> token_manager \<Rightarrow> info_hash \<Rightarrow> node_action list \<Rightarrow> bool \<times> bool \<Rightarrow> peer_info list" where
  "announced_to sha1 tm ih [] st = []"
| "announced_to sha1 tm ih (act # acts) st =
     (if snd st then announced_peer sha1 tm ih act else []) @ announced_to sha1 tm ih acts (loop_state act st)"

definition isolated :: "token_manager \<Rightarrow> dht_node \<Rightarrow> bool" where
  "isolated tm d \<longleftrightarrow> rt_size (kr_table (dn_krpc d)) = 0 \<and> kr_tokens (dn_krpc d) = tm \<and>
     (\<forall>ih. length (get_peers (dn_krpc d) ih) \<le> MAX_PEERS_PER_HASH)"

lemma receive_krpc:
  "dn_krpc (fst (dn_receive sha1 d bs sender)) =
     (case decode_reply bs of Ok m \<Rightarrow> fst (handle_message sha1 (dn_krpc d) m sender) | _ \<Rightarrow> dn_krpc d)"
  by (auto simp: dn_receive_def Let_def count_sent_def split: result.split option.split prod.split)

lemma receive_stopped: "dn_stopped (fst (dn_receive sha1 d bs sender)) = dn_stopped d"
  by (auto simp: dn_receive_def Let_def count_sent_def split: result.split option.split prod.split)

lemma get_peers_stored:
  assumes "length (get_peers k h) \<le> MAX_PEERS_PER_HASH"
  shows "get_peers (store_peer ih p k) h = take MAX_PEERS_PER_HASH (get_peers k h @ (if ih = ih_bytes h then [p] else []))"
  using assms by (auto simp: get_peers_def store_peer_def Let_def split: option.splits)

lemma receive_peers:
  assumes "isolated tm d"
  shows "get_peers (dn_krpc (fst (dn_receive sha1 d bs sender))) ih =
    take MAX_PEERS_PER_HASH (get_peers (dn_krpc d) ih @ announced_peer sha1 tm ih (NaEvent (NeDatagram bs sender)))"
proof -
  have l: "length (get_peers (dn_krpc d) ih) \<le> MAX_PEERS_PER_HASH" and t: "kr_tokens (dn_krpc d) = tm" using assms by (simp_all add: isolated_def)
  show ?thesis
  proof (cases "decode_reply bs")
    case (Ok m)
    then show ?thesis
      using l t get_peers_stored [OF l] by (cases m) (auto simp: receive_krpc announced_peer_def Let_def)
  qed (use l in \<open>simp_all add: receive_krpc announced_peer_def\<close>)
qed

lemma receive_table:
  "kr_table (dn_krpc (fst (dn_receive sha1 d bs sender))) = kr_table (dn_krpc d)"
  "kr_tokens (dn_krpc (fst (dn_receive sha1 d bs sender))) = kr_tokens (dn_krpc d)"
  by (auto simp: receive_krpc split: result.split)

text \<open>One action: the node stays isolated, its loop follows the actions, and it knows what was announced to it.\<close>

lemma node_step_isolated:
  assumes "isolated tm d" and "node_step sha1 act (d, alive) = (d', alive')"
  shows "isolated tm d' \<and> (dn_stopped d', alive') = loop_state act (dn_stopped d, alive) \<and>
    get_peers (dn_krpc d') ih =
      take MAX_PEERS_PER_HASH (get_peers (dn_krpc d) ih @ (if alive then announced_peer sha1 tm ih act else []))"
proof -
  have e: "rt_size (kr_table (dn_krpc d)) = 0" and l: "length (get_peers (dn_krpc d) h) \<le> MAX_PEERS_PER_HASH" for h
    using assms(1) by (simp_all add: isolated_def)
  have same: "isolated tm d1 \<and> get_peers (dn_krpc d1) ih = take MAX_PEERS_PER_HASH (get_peers (dn_krpc d) ih @ [])"
    if "dn_krpc d1 = (dn_krpc d)\<lparr>kr_table := t\<rparr>" "rt_size t = 0" for d1 t
    using that assms(1) l by (auto simp: isolated_def get_peers_def)
  have id: "isolated tm d1 \<and> get_peers (dn_krpc d1) ih = take MAX_PEERS_PER_HASH (get_peers (dn_krpc d) ih @ [])"
    if "dn_krpc d1 = dn_krpc d" for d1
    using that assms(1) l by (auto simp: isolated_def)
  show ?thesis
  proof (cases act)
    case (NaBootstrap now bind seeds net)
    have "fst (dn_bootstrap now bind seeds net d) = d"
      using bootstrap_empty [OF e, of now bind seeds net] by (auto simp: dn_bootstrap_def split: result.split)
    with NaBootstrap assms(2) id [of d] show ?thesis by (simp add: node_step_def announced_peer_def)
  next
    case (NaFindPeers now h net)
    with assms(2) id [of d] show ?thesis by (simp add: node_step_def find_peers_empty [OF e] announced_peer_def)
  next
    case (NaEvent ev)
    show ?thesis
    proof (cases ev)
      case (NeDatagram bs sender)
      have "isolated tm (fst (dn_receive sha1 d bs sender))"
        using assms(1) receive_peers [OF assms(1), of sha1 bs sender] by (simp add: isolated_def receive_table del: take_append)
      with NaEvent NeDatagram assms(2) receive_peers [OF assms(1), of sha1 bs sender ih] receive_stopped [of sha1 d bs sender] id [of d] show ?thesis
        by (auto simp: node_step_def node_turn_def Let_def split: prod.splits if_splits)
    next
      case (NeTick now now')
      have "isolated tm (d\<lparr>dn_krpc := fst (refresh_buckets now now' (dn_local_id d) (dn_krpc d))\<rparr>) \<and>
          get_peers (fst (refresh_buckets now now' (dn_local_id d) (dn_krpc d))) ih = take MAX_PEERS_PER_HASH (get_peers (dn_krpc d) ih @ [])"
        using same [of "d\<lparr>dn_krpc := fst (refresh_buckets now now' (dn_local_id d) (dn_krpc d))\<rparr>"] e
        by (simp add: refresh_empty rt_size_marked)
      with NaEvent NeTick assms(2) id [of d] show ?thesis
        by (auto simp: node_step_def node_turn_def announced_peer_def split: prod.splits if_splits)
    qed (use NaEvent assms(2) id [of d] in \<open>auto simp: node_step_def node_turn_def announced_peer_def split: if_splits\<close>)
  qed (use assms(2) id [of d'] in \<open>auto simp: node_step_def dn_set_alpha_def dn_set_k_def dn_stop_def announced_peer_def\<close>)
qed

lemma take_prefix: "take n (take n xs @ ys) = take n (xs @ ys)"
  by (cases "n \<le> length xs") simp_all

lemma node_run_isolated:
  assumes "isolated tm d"
  shows "isolated tm (fst (fold (node_step sha1) acts (d, alive))) \<and>
    get_peers (dn_krpc (fst (fold (node_step sha1) acts (d, alive)))) ih =
      take MAX_PEERS_PER_HASH (get_peers (dn_krpc d) ih @ announced_to sha1 tm ih acts (dn_stopped d, alive))"
  using assms
proof (induction acts arbitrary: d alive)
  case Nil
  then show ?case by (simp add: isolated_def)
next
  case (Cons act acts)
  obtain d1 alive1 where s: "node_step sha1 act (d, alive) = (d1, alive1)" by fastforce
  let ?h = "if alive then announced_peer sha1 tm ih act else []"
  note step = node_step_isolated [OF Cons.prems s, of ih]
  then have "get_peers (dn_krpc (fst (fold (node_step sha1) (act # acts) (d, alive)))) ih =
      take MAX_PEERS_PER_HASH (take MAX_PEERS_PER_HASH (get_peers (dn_krpc d) ih @ ?h) @ announced_to sha1 tm ih acts (loop_state act (dn_stopped d, alive)))"
    using Cons.IH [of d1 alive1] by (simp add: s del: take_append)
  with step Cons.IH [of d1 alive1] show ?case by (simp add: s take_prefix del: take_append)
qed

lemma node_new_isolated:
  "isolated (tm_new now rnd_a rnd_b) (dht_node_new cfg now rnd_id rnd_a rnd_b)"
  by (simp add: isolated_def dht_node_new_def krpc_new_def get_peers_def rt_size_new Let_def)

lemma node_new_peers:
  "get_peers (dn_krpc (dht_node_new cfg now rnd_id rnd_a rnd_b)) ih = [] \<and> \<not> dn_stopped (dht_node_new cfg now rnd_id rnd_a rnd_b)"
  by (simp add: dht_node_new_def krpc_new_def get_peers_def Let_def)

text \<open>
  C39: a DHT node never joins the network. Whatever its user does and whatever arrives, its routing table stays empty:
  bootstrapping never succeeds, an announce is sent to nobody, no refresh sends anything, and a peer search sends
  nothing and finds exactly the peers that announced themselves to this very node with a valid token while its loop was
  running, the first fifty of them in the order of their announces. And the secrets of its tokens never change, because
  nothing calls the rotation.
\<close>

theorem dht_node_isolated:
  assumes "node_run sha1 acts (dht_node_new cfg now rnd_id rnd_a rnd_b) = (d, alive)"
  shows "rt_size (kr_table (dn_krpc d)) = 0 \<and> kr_tokens (dn_krpc d) = tm_new now rnd_a rnd_b \<and>
    \<not> is_ok (snd (dn_bootstrap t bind seeds net d)) \<and> dn_announce sha1 ih port d = [] \<and>
    snd (snd (node_turn sha1 (NeTick t t') d)) = [] \<and>
    dn_find_peers t ih net d =
      (d, let ps = take 50 (announced_to sha1 (tm_new now rnd_a rnd_b) ih acts (False, False)) in if ps = [] then Err NoPeers else Ok ps)"
proof -
  from node_run_isolated [where ?sha1.0 = sha1 and acts = acts and alive = False and ih = ih,
    OF node_new_isolated [of now rnd_a rnd_b cfg rnd_id]] assms
  have i: "isolated (tm_new now rnd_a rnd_b) d"
    and p: "get_peers (dn_krpc d) ih = take 50 (announced_to sha1 (tm_new now rnd_a rnd_b) ih acts (False, False))"
    by (simp_all add: node_run_def node_new_peers MAX_PEERS_PER_HASH_def)
  from i have e: "rt_size (kr_table (dn_krpc d)) = 0" by (simp add: isolated_def)
  have "\<not> is_ok (snd (dn_bootstrap t bind seeds net d))"
    using bootstrap_empty [OF e, of t bind seeds net] by (auto simp: dn_bootstrap_def split: result.split)
  moreover have "dn_announce sha1 ih port d = []" by (simp add: dn_announce_def find_closest_empty e)
  moreover have "snd (snd (node_turn sha1 (NeTick t t') d)) = []" by (simp add: node_turn_def refresh_empty e)
  ultimately show ?thesis using i e by (simp add: isolated_def find_peers_empty p Let_def)
qed

theorem dht_node_isolated_witness:
  "let acts = [NaStart, NaEvent (NeDatagram (dht_encode sample_announce) sample_sender)];
       d = fst (node_run (\<lambda>_. replicate 20 0) acts (dht_node_new dht_config_default 0 (replicate 20 5) (replicate 16 1) (replicate 16 2)))
   in get_peers (dn_krpc d) (InfoHash (replicate 20 2)) = [plain_peer \<lparr>sa_ip = V4 [192, 168, 1, 1], sa_port = 8621\<rparr>] \<and>
      dn_announce (\<lambda>_. replicate 20 0) (InfoHash (replicate 20 2)) 8621 d = []"
proof -
  let ?s = "\<lambda>_::bytes. replicate 20 (0::u8)"
  let ?n = "dht_node_new dht_config_default 0 (replicate 20 5) (replicate 16 1) (replicate 16 2)"
  let ?acts = "[NaStart, NaEvent (NeDatagram (dht_encode sample_announce) sample_sender)]"
  have "decode_reply (dht_encode sample_announce) = Ok sample_announce" by code_simp
  moreover have "verify_token ?s (kr_tokens (dn_krpc ?n)) sample_sender (replicate 4 0)"
    by (simp add: verify_token_def generate_token_def generate_with_secret_def)
  ultimately have k: "dn_krpc (fst (dn_receive ?s ?n (dht_encode sample_announce) sample_sender)) =
      store_peer (replicate 20 2) (plain_peer \<lparr>sa_ip = V4 [192, 168, 1, 1], sa_port = 8621\<rparr>) (dn_krpc ?n)"
    by (simp add: receive_krpc sample_announce_def sample_sender_def del: dht_encode.simps)
  have r: "fst (node_run ?s ?acts ?n) = fst (dn_receive ?s ?n (dht_encode sample_announce) sample_sender)"
    by (simp add: node_run_def node_step_def node_turn_def Let_def dht_node_new_def split: prod.split del: dht_encode.simps)
  have "get_peers (dn_krpc (fst (node_run ?s ?acts ?n))) (InfoHash (replicate 20 2)) =
      [plain_peer \<lparr>sa_ip = V4 [192, 168, 1, 1], sa_port = 8621\<rparr>]"
    unfolding r k by (simp add: store_peer_def get_peers_def MAX_PEERS_PER_HASH_def dht_node_new_def krpc_new_def Let_def)
  moreover have "dn_announce ?s (InfoHash (replicate 20 2)) 8621 (fst (node_run ?s ?acts ?n)) = []"
    using dht_node_isolated [of ?s ?acts dht_config_default 0 "replicate 20 5" "replicate 16 1" "replicate 16 2"]
    by (cases "node_run ?s ?acts ?n") simp
  ultimately show ?thesis by (simp only: Let_def)
qed

end
