(* ===== verification/Peer_Message.thy ===== *)
theory Peer_Message
  imports Core_Types
begin

text \<open>
  The messages of the peer connection (\<open>qvs-transport/src/message.rs\<close>), length-prefixed, and the
  handshake (\<open>handshake.rs\<close>), with the laws of their codecs.
\<close>

section \<open>Messages\<close>

datatype msg_id =
    MChoke | MUnchoke | MInterested | MNotInterested | MHave | MBitfield | MRequest | MPiece | MCancel
  | MPort | MSuggestPiece | MHaveAll | MHaveNone | MRejectRequest | MAllowedFast

fun msg_id_u8 :: "msg_id \<Rightarrow> u8" where
  "msg_id_u8 MChoke = 0"
| "msg_id_u8 MUnchoke = 1"
| "msg_id_u8 MInterested = 2"
| "msg_id_u8 MNotInterested = 3"
| "msg_id_u8 MHave = 4"
| "msg_id_u8 MBitfield = 5"
| "msg_id_u8 MRequest = 6"
| "msg_id_u8 MPiece = 7"
| "msg_id_u8 MCancel = 8"
| "msg_id_u8 MPort = 9"
| "msg_id_u8 MSuggestPiece = 13"
| "msg_id_u8 MHaveAll = 14"
| "msg_id_u8 MHaveNone = 15"
| "msg_id_u8 MRejectRequest = 16"
| "msg_id_u8 MAllowedFast = 17"

definition msg_id_from_u8 :: "u8 \<Rightarrow> msg_id option" where
  "msg_id_from_u8 v =
     (if v = 0 then Some MChoke else if v = 1 then Some MUnchoke else if v = 2 then Some MInterested
      else if v = 3 then Some MNotInterested else if v = 4 then Some MHave else if v = 5 then Some MBitfield
      else if v = 6 then Some MRequest else if v = 7 then Some MPiece else if v = 8 then Some MCancel
      else if v = 9 then Some MPort else if v = 13 then Some MSuggestPiece else if v = 14 then Some MHaveAll
      else if v = 15 then Some MHaveNone else if v = 16 then Some MRejectRequest
      else if v = 17 then Some MAllowedFast else None)"

record peer_message =
  pm_msg_id :: msg_id
  pm_payload :: bytes

definition pm_new :: "msg_id \<Rightarrow> bytes \<Rightarrow> peer_message" where
  "pm_new i p = \<lparr>pm_msg_id = i, pm_payload = p\<rparr>"

definition keep_alive :: bytes where
  "keep_alive = replicate 4 0"

definition pm_encode :: "peer_message \<Rightarrow> bytes" where
  "pm_encode m = u32_be (1 + of_nat (length (pm_payload m))) @ [msg_id_u8 (pm_msg_id m)] @ pm_payload m"

definition be32_at :: "nat \<Rightarrow> bytes \<Rightarrow> u32" where
  "be32_at i bs = u32_from_be (bs ! i) (bs ! (i + 1)) (bs ! (i + 2)) (bs ! (i + 3))"

definition pm_decode :: "bytes \<Rightarrow> (peer_message, qvod_error) result" where
  "pm_decode data =
     (if length data < 4 then Err (Protocol ''message too short'') else
      let len = unat (be32_at 0 data)
      in if len = 0 then Err (Protocol ''keep-alive has no msg_id'')
         else if length data < 4 + len then Err (Protocol ''message truncated'')
         else and_then (ok_or (msg_id_from_u8 (data ! 4))
                (Protocol (''unknown msg_id: '' @ show_nat (unat (data ! 4))))) (\<lambda>i.
              Ok \<lparr>pm_msg_id = i, pm_payload = subslice 5 (4 + len) data\<rparr>))"

subsection \<open>Constructors\<close>

definition pm_have :: "u32 \<Rightarrow> peer_message" where
  "pm_have i = \<lparr>pm_msg_id = MHave, pm_payload = u32_be i\<rparr>"

definition pm_bitfield :: "bytes \<Rightarrow> peer_message" where
  "pm_bitfield bs = \<lparr>pm_msg_id = MBitfield, pm_payload = bs\<rparr>"

definition pm_request :: "u32 \<Rightarrow> u32 \<Rightarrow> u32 \<Rightarrow> peer_message" where
  "pm_request i b l = \<lparr>pm_msg_id = MRequest, pm_payload = u32_be i @ u32_be b @ u32_be l\<rparr>"

definition pm_piece :: "u32 \<Rightarrow> u32 \<Rightarrow> bytes \<Rightarrow> peer_message" where
  "pm_piece i b d = \<lparr>pm_msg_id = MPiece, pm_payload = u32_be i @ u32_be b @ d\<rparr>"

definition pm_cancel :: "u32 \<Rightarrow> u32 \<Rightarrow> u32 \<Rightarrow> peer_message" where
  "pm_cancel i b l = \<lparr>pm_msg_id = MCancel, pm_payload = u32_be i @ u32_be b @ u32_be l\<rparr>"

definition pm_port :: "u16 \<Rightarrow> peer_message" where
  "pm_port p = \<lparr>pm_msg_id = MPort, pm_payload = u16_be p\<rparr>"

definition pm_have_all :: peer_message where
  "pm_have_all = \<lparr>pm_msg_id = MHaveAll, pm_payload = []\<rparr>"

definition pm_have_none :: peer_message where
  "pm_have_none = \<lparr>pm_msg_id = MHaveNone, pm_payload = []\<rparr>"

definition pm_reject_request :: "u32 \<Rightarrow> u32 \<Rightarrow> u32 \<Rightarrow> peer_message" where
  "pm_reject_request i b l = \<lparr>pm_msg_id = MRejectRequest, pm_payload = u32_be i @ u32_be b @ u32_be l\<rparr>"

definition pm_allowed_fast :: "u32 \<Rightarrow> peer_message" where
  "pm_allowed_fast i = \<lparr>pm_msg_id = MAllowedFast, pm_payload = u32_be i\<rparr>"

definition pm_suggest_piece :: "u32 \<Rightarrow> peer_message" where
  "pm_suggest_piece i = \<lparr>pm_msg_id = MSuggestPiece, pm_payload = u32_be i\<rparr>"

subsection \<open>Payload parsers\<close>

definition parse_have :: "peer_message \<Rightarrow> u32 option" where
  "parse_have m =
     (if pm_msg_id m \<noteq> MHave \<or> length (pm_payload m) < 4 then None else Some (be32_at 0 (pm_payload m)))"

definition parse_request :: "peer_message \<Rightarrow> (u32 \<times> u32 \<times> u32) option" where
  "parse_request m =
     (if pm_msg_id m \<noteq> MRequest \<or> length (pm_payload m) < 12 then None
      else Some (be32_at 0 (pm_payload m), be32_at 4 (pm_payload m), be32_at 8 (pm_payload m)))"

definition parse_piece :: "peer_message \<Rightarrow> (u32 \<times> u32 \<times> bytes) option" where
  "parse_piece m =
     (if pm_msg_id m \<noteq> MPiece \<or> length (pm_payload m) < 8 then None
      else Some (be32_at 0 (pm_payload m), be32_at 4 (pm_payload m), drop 8 (pm_payload m)))"

definition parse_bitfield :: "peer_message \<Rightarrow> bytes option" where
  "parse_bitfield m = (if pm_msg_id m \<noteq> MBitfield \<or> pm_payload m = [] then None else Some (pm_payload m))"

definition parse_cancel :: "peer_message \<Rightarrow> (u32 \<times> u32 \<times> u32) option" where
  "parse_cancel m =
     (if pm_msg_id m \<noteq> MCancel \<or> length (pm_payload m) < 12 then None
      else Some (be32_at 0 (pm_payload m), be32_at 4 (pm_payload m), be32_at 8 (pm_payload m)))"

definition parse_port :: "peer_message \<Rightarrow> u16 option" where
  "parse_port m =
     (if pm_msg_id m \<noteq> MPort \<or> length (pm_payload m) < 2 then None
      else Some (u16_from_be (pm_payload m ! 0) (pm_payload m ! 1)))"

definition parse_suggest_piece :: "peer_message \<Rightarrow> u32 option" where
  "parse_suggest_piece m =
     (if pm_msg_id m \<noteq> MSuggestPiece \<or> length (pm_payload m) < 4 then None else Some (be32_at 0 (pm_payload m)))"

section \<open>The handshake\<close>

definition HANDSHAKE_PROTOCOL :: string where "HANDSHAKE_PROTOCOL = ''Qvod P2SP Protocol''"

record handshake =
  hs_info_hash :: info_hash
  hs_peer_id :: bytes
  hs_reserved :: bytes
  hs_supports_metadata :: bool

definition hs_new :: "info_hash \<Rightarrow> bytes \<Rightarrow> handshake" where
  "hs_new ih pid =
     \<lparr>hs_info_hash = ih, hs_peer_id = pid,
      hs_reserved = (replicate 8 0)[5 := (replicate 8 0 ! 5) OR 0x10], hs_supports_metadata = True\<rparr>"

definition hs_encode :: "handshake \<Rightarrow> bytes" where
  "hs_encode h =
     [of_nat (length HANDSHAKE_PROTOCOL)] @ as_bytes HANDSHAKE_PROTOCOL @ hs_reserved h @
     ih_bytes (hs_info_hash h) @ hs_peer_id h"

definition hs_decode :: "bytes \<Rightarrow> (handshake, qvod_error) result" where
  "hs_decode data =
     (if length data < 2 then Err (Protocol ''handshake too short'') else
      let pstrlen = unat (data ! 0); total_len = 1 + pstrlen + 8 + 20 + 20
      in if length data < total_len then Err (Protocol ''handshake truncated'') else
      let pstr = subslice 1 (1 + pstrlen) data
      in if pstr \<noteq> as_bytes HANDSHAKE_PROTOCOL then
           Err (Protocol (''unexpected protocol: '' @ from_utf8_lossy pstr)) else
      let reserved = subslice (1 + pstrlen) (1 + pstrlen + 8) data;
          info_hash = subslice (1 + pstrlen + 8) (1 + pstrlen + 8 + 20) data;
          peer_id = subslice (1 + pstrlen + 8 + 20) (1 + pstrlen + 8 + 20 + 20) data
      in Ok \<lparr>hs_info_hash = InfoHash info_hash, hs_peer_id = peer_id, hs_reserved = reserved,
             hs_supports_metadata = (reserved ! 5 AND 0x10 \<noteq> 0)\<rparr>)"

definition hs_verify :: "handshake \<Rightarrow> bool" where
  "hs_verify h \<longleftrightarrow> hs_reserved h ! 5 AND 0x10 = 0x10"

section \<open>Codec laws\<close>

lemma msg_id_from_u8_u8 [codec, simp]: "msg_id_from_u8 (msg_id_u8 i) = Some i"
  by (cases i) (simp_all add: msg_id_from_u8_def)

lemma be32_at_append [codec]: "length xs = i \<Longrightarrow> be32_at i (xs @ u32_be w @ ys) = w"
  by (simp add: be32_at_def u32_be_def nth_append)

lemma be32_at_0 [codec, simp]: "be32_at 0 (u32_be w @ ys) = w" "be32_at 0 (u32_be w) = w"
  by (simp_all add: be32_at_def u32_be_def)

lemma pm_decode_encode_append:
  assumes "length (pm_payload m) < 2 ^ 32 - 1"
  shows "pm_decode (pm_encode m @ rest) = Ok m"
proof -
  have "unat (1 + of_nat (length (pm_payload m)) :: u32) = 1 + length (pm_payload m)"
    using assms unat_of_nat [of "1 + length (pm_payload m)", where ?'a = 32] by simp
  then show ?thesis
    using be32_at_0(1) [of "1 + of_nat (length (pm_payload m))" "[msg_id_u8 (pm_msg_id m)] @ pm_payload m @ rest"]
    by (simp add: pm_decode_def pm_encode_def Let_def nth_append subslice_def u32_be_def)
qed

text \<open>
  Decoding the encoding of a message, followed by whatever the stream carries next, gives the
  message back, for payloads the 32-bit length can express.
\<close>

theorem peer_message_roundtrip:
  assumes "length (pm_payload m) < 2 ^ 32 - 1"
  shows "pm_decode (pm_encode m @ rest) = Ok m"
  using assms by (rule pm_decode_encode_append)

theorem peer_message_roundtrip_witness:
  "pm_decode (pm_encode (pm_piece 5 0 [1, 2, 3]) @ keep_alive) = Ok (pm_piece 5 0 [1, 2, 3])"
  by (rule peer_message_roundtrip) (simp add: pm_piece_def)

lemma u32_be_from_be: "u32_be (u32_from_be a b c d) = [a, b, c, d]"
  unfolding u32_be_def u32_from_be_def
  by (simp, intro conjI; rule bit_word_eqI) (auto simp: bit_simps dest: bit_imp_le_length)

lemma u16_be_from_be: "u16_be (u16_from_be a b) = [a, b]"
  unfolding u16_be_def u16_from_be_def
  by (simp, intro conjI; rule bit_word_eqI) (auto simp: bit_simps dest: bit_imp_le_length)

lemma u32_be_be32_at: "i + 4 \<le> length bs \<Longrightarrow> u32_be (be32_at i bs) = subslice i (i + 4) bs"
  by (rule nth_equalityI) (auto simp: be32_at_def u32_be_from_be subslice_def nth_Cons less_Suc_eq numeral_eq_Suc split: nat.splits)

lemma split_fields:
  assumes "8 \<le> length bs"
  shows "bs = u32_be (be32_at 0 bs) @ u32_be (be32_at 4 bs) @ drop 8 bs"
proof -
  have "bs = take 4 bs @ take 4 (drop 4 bs) @ drop 4 (drop 4 bs)"
    by (metis append_take_drop_id)
  then show ?thesis
    using assms by (simp add: u32_be_be32_at subslice_def)
qed

text \<open>
  The payload parsers invert the constructors: a message parses as a block of data exactly when it
  is the \<open>Piece\<close> message of it, and as a request or cancel exactly when its payload begins with
  the three fields.
\<close>

theorem payload_parsers:
  "(parse_piece m = Some (i, b, d) \<longleftrightarrow> m = pm_piece i b d) \<and>
   (parse_request m = Some (i, b, l) \<longleftrightarrow>
      (\<exists>t. m = (pm_request i b l)\<lparr>pm_payload := pm_payload (pm_request i b l) @ t\<rparr>)) \<and>
   (parse_cancel m = Some (i, b, l) \<longleftrightarrow>
      (\<exists>t. m = (pm_cancel i b l)\<lparr>pm_payload := pm_payload (pm_cancel i b l) @ t\<rparr>)) \<and>
   parse_have (pm_have i) = Some i \<and> parse_port (pm_port p) = Some p \<and>
   parse_suggest_piece (pm_suggest_piece i) = Some i"
proof (intro conjI)
  have 12: "length bs \<ge> 12 \<Longrightarrow>
      be32_at 0 bs = i \<and> be32_at 4 bs = b \<and> be32_at 8 bs = l \<longleftrightarrow> (\<exists>t. bs = u32_be i @ u32_be b @ u32_be l @ t)" for bs
  proof
    assume len: "length bs \<ge> 12" and eq: "be32_at 0 bs = i \<and> be32_at 4 bs = b \<and> be32_at 8 bs = l"
    from eq have e: "be32_at 0 bs = i" "be32_at 4 bs = b" "be32_at 8 bs = l" by blast+
    have "8 \<le> length bs" using len by simp
    note A = split_fields [OF this, unfolded e]
    have B: "drop 8 bs = u32_be l @ drop 12 bs"
      using len append_take_drop_id [of 4 "drop 8 bs"] by (simp add: e(3) [symmetric] u32_be_be32_at subslice_def)
    from A [unfolded B] show "\<exists>t. bs = u32_be i @ u32_be b @ u32_be l @ t" by blast
  next
    assume "\<exists>t. bs = u32_be i @ u32_be b @ u32_be l @ t"
    then show "be32_at 0 bs = i \<and> be32_at 4 bs = b \<and> be32_at 8 bs = l"
      using be32_at_append [of "u32_be i" 4 b] be32_at_append [of "u32_be i @ u32_be b" 8 l] by auto
  qed
  show "parse_piece m = Some (i, b, d) \<longleftrightarrow> m = pm_piece i b d"
    using split_fields [of "pm_payload m"] be32_at_append [of "u32_be i" 4 b d]
    by (cases m) (auto simp: parse_piece_def pm_piece_def)
  show "parse_request m = Some (i, b, l) \<longleftrightarrow>
      (\<exists>t. m = (pm_request i b l)\<lparr>pm_payload := pm_payload (pm_request i b l) @ t\<rparr>)"
    using 12 [of "pm_payload m"] by (cases m) (auto simp: parse_request_def pm_request_def not_less)
  show "parse_cancel m = Some (i, b, l) \<longleftrightarrow>
      (\<exists>t. m = (pm_cancel i b l)\<lparr>pm_payload := pm_payload (pm_cancel i b l) @ t\<rparr>)"
    using 12 [of "pm_payload m"] by (cases m) (auto simp: parse_cancel_def pm_cancel_def not_less)
  show "parse_have (pm_have i) = Some i" "parse_suggest_piece (pm_suggest_piece i) = Some i"
    by (simp_all add: parse_have_def pm_have_def parse_suggest_piece_def pm_suggest_piece_def)
  show "parse_port (pm_port p) = Some p"
    by (simp add: parse_port_def pm_port_def u16_be_def)
qed

section \<open>The handshake codec\<close>

definition hs_wf :: "handshake \<Rightarrow> bool" where
  "hs_wf h \<longleftrightarrow> arr20 (ih_bytes (hs_info_hash h)) \<and> arr20 (hs_peer_id h) \<and> length (hs_reserved h) = 8 \<and>
     hs_supports_metadata h = (hs_reserved h ! 5 AND 0x10 \<noteq> 0)"

lemma length_handshake_protocol: "length HANDSHAKE_PROTOCOL = 18"
  by (simp add: HANDSHAKE_PROTOCOL_def)

lemma hs_decode_encode:
  assumes "hs_wf h"
  shows "hs_decode (hs_encode h @ rest) = Ok h"
proof -
  let ?p = "as_bytes HANDSHAKE_PROTOCOL"
  have p: "length ?p = 18" by (simp add: length_handshake_protocol)
  then show ?thesis
    using assms by (cases h)
      (simp add: hs_decode_def hs_encode_def Let_def length_handshake_protocol hs_wf_def arr20_def subslice_def info_hash.expand)
qed

lemma hs_new_wf: "arr20 (ih_bytes ih) \<Longrightarrow> arr20 pid \<Longrightarrow> hs_wf (hs_new ih pid) \<and> hs_verify (hs_new ih pid)"
  by (simp add: hs_wf_def hs_new_def hs_verify_def)

lemma hs_decode_inv:
  assumes "hs_decode data = Ok h"
  shows "hs_wf h \<and> take 67 data = hs_encode h"
proof -
  let ?n = "unat (data ! 0)"
  have c: "2 \<le> length data" "1 + ?n + 8 + 20 + 20 \<le> length data"
    "subslice 1 (1 + ?n) data = as_bytes HANDSHAKE_PROTOCOL"
    and h: "h = \<lparr>hs_info_hash = InfoHash (subslice (1 + ?n + 8) (1 + ?n + 8 + 20) data),
      hs_peer_id = subslice (1 + ?n + 8 + 20) (1 + ?n + 8 + 20 + 20) data,
      hs_reserved = subslice (1 + ?n) (1 + ?n + 8) data,
      hs_supports_metadata = (subslice (1 + ?n) (1 + ?n + 8) data ! 5 AND 0x10 \<noteq> 0)\<rparr>"
    using assms by (auto simp: hs_decode_def Let_def not_less split: if_splits)
  have n: "?n = 18"
    using arg_cong [OF c(3), of length] c(2) by (simp add: length_handshake_protocol)
  then have "unat (data ! 0) = unat (18 :: u8)" by simp
  then have d0: "data ! 0 = 18" by (rule unsigned_word_eqI)
  have "take 67 data = take 1 data @ take 18 (drop 1 data) @ take 8 (drop 19 data) @ take 20 (drop 27 data) @ take 20 (drop 47 data)"
    using take_add [of 1 66 data] take_add [of 18 48 "drop 1 data"] take_add [of 8 40 "drop 19 data"]
      take_add [of 20 20 "drop 27 data"] by simp
  moreover have "take 1 data = [18]"
    using d0 c(1) by (cases data) auto
  ultimately show ?thesis
    using h c(2,3) n by (simp add: hs_wf_def hs_encode_def arr20_def subslice_def length_handshake_protocol)
qed

text \<open>
  C29: the handshake codec is a bijection between well-formed handshakes and the 67-byte
  prefixes it accepts: what is decoded was the encoding of exactly that handshake.
\<close>

theorem handshake_codec:
  "(hs_wf h \<longrightarrow> hs_decode (hs_encode h @ rest) = Ok h) \<and>
   (hs_decode data = Ok h \<longrightarrow> hs_wf h \<and> take 67 data = hs_encode h)"
  using hs_decode_encode hs_decode_inv by blast

theorem handshake_codec_witness:
  "hs_decode (hs_encode (hs_new (InfoHash (replicate 20 1)) (replicate 20 2)) @ [9]) =
     Ok (hs_new (InfoHash (replicate 20 1)) (replicate 20 2))"
  by (rule handshake_codec [THEN conjunct1, THEN mp]) (simp add: hs_new_wf arr20_def)

end
