(* ===== verification/Peer_Wire.thy ===== *)
theory Peer_Wire
  imports Peer_Message
begin

text \<open>
  The state machine of one peer connection (\<open>qvs-transport/src/peer_wire.rs\<close>): the handshake
  states, the four choke/interest flags and the counters.
\<close>

datatype connection_state = Initial | HandshakeSent | HandshakeReceived | Established | Disconnecting | Disconnected

record peer_wire =
  pw_state :: connection_state
  pw_am_choking :: bool
  pw_am_interested :: bool
  pw_peer_choking :: bool
  pw_peer_interested :: bool
  pw_bytes_sent :: u64
  pw_bytes_received :: u64
  pw_messages_sent :: u64
  pw_messages_received :: u64

definition pw_new :: peer_wire where
  "pw_new = \<lparr>pw_state = Initial, pw_am_choking = True, pw_am_interested = False, pw_peer_choking = True,
     pw_peer_interested = False, pw_bytes_sent = 0, pw_bytes_received = 0, pw_messages_sent = 0, pw_messages_received = 0\<rparr>"

definition on_handshake_sent :: "peer_wire \<Rightarrow> peer_wire" where
  "on_handshake_sent w = w\<lparr>pw_state := HandshakeSent\<rparr>"

definition on_handshake_received :: "peer_wire \<Rightarrow> peer_wire" where
  "on_handshake_received w =
     w\<lparr>pw_state := if pw_state w = HandshakeSent then Established else HandshakeReceived\<rparr>"

definition on_established :: "peer_wire \<Rightarrow> peer_wire" where
  "on_established w = w\<lparr>pw_state := Established\<rparr>"

definition pw_handle :: "peer_message \<Rightarrow> peer_wire \<Rightarrow> peer_wire \<times> (peer_message option, qvod_error) result" where
  "pw_handle m w0 =
     (let w = w0\<lparr>pw_messages_received := pw_messages_received w0 + 1\<rparr>
      in case pm_msg_id m of
           MChoke \<Rightarrow> (w\<lparr>pw_peer_choking := True\<rparr>, Ok None)
         | MUnchoke \<Rightarrow> (w\<lparr>pw_peer_choking := False\<rparr>, Ok None)
         | MInterested \<Rightarrow>
             (let w1 = w\<lparr>pw_peer_interested := True\<rparr>
              in if pw_am_choking w1 then (w1, Ok (Some (pm_new MUnchoke []))) else (w1, Ok None))
         | MNotInterested \<Rightarrow> (w\<lparr>pw_peer_interested := False\<rparr>, Ok None)
         | MRequest \<Rightarrow>
             (if pw_am_choking w then (w, Err (Protocol ''requested while choked'')) else (w, Ok None))
         | _ \<Rightarrow> (w, Ok None))"

definition build_interested :: "peer_wire \<Rightarrow> peer_message option" where
  "build_interested w = (if pw_am_interested w then None else Some (pm_new MInterested []))"

definition build_not_interested :: "peer_wire \<Rightarrow> peer_message option" where
  "build_not_interested w = (if pw_am_interested w then Some (pm_new MNotInterested []) else None)"

definition build_unchoke :: "peer_wire \<Rightarrow> peer_message option" where
  "build_unchoke w = (if pw_am_choking w then Some (pm_new MUnchoke []) else None)"

definition build_choke :: "peer_wire \<Rightarrow> peer_message option" where
  "build_choke w = (if pw_am_choking w then None else Some (pm_new MChoke []))"

definition build_request :: "block_request \<Rightarrow> peer_message" where
  "build_request b = pm_request (br_piece_index b) (br_begin b) (br_length b)"

definition build_have :: "u32 \<Rightarrow> peer_message" where
  "build_have i = pm_have i"

definition build_bitfield :: "bytes \<Rightarrow> peer_message" where
  "build_bitfield bs = pm_bitfield bs"

definition build_cancel :: "block_request \<Rightarrow> peer_message" where
  "build_cancel b = pm_cancel (br_piece_index b) (br_begin b) (br_length b)"

definition start_unchoke :: "peer_wire \<Rightarrow> peer_wire" where
  "start_unchoke w = w\<lparr>pw_am_choking := False\<rparr>"

definition start_choke :: "peer_wire \<Rightarrow> peer_wire" where
  "start_choke w = w\<lparr>pw_am_choking := True\<rparr>"

definition send_interested :: "peer_wire \<Rightarrow> peer_wire" where
  "send_interested w = w\<lparr>pw_am_interested := True\<rparr>"

definition send_not_interested :: "peer_wire \<Rightarrow> peer_wire" where
  "send_not_interested w = w\<lparr>pw_am_interested := False\<rparr>"

definition record_sent :: "u64 \<Rightarrow> peer_wire \<Rightarrow> peer_wire" where
  "record_sent n w = w\<lparr>pw_bytes_sent := pw_bytes_sent w + n, pw_messages_sent := pw_messages_sent w + 1\<rparr>"

definition record_received :: "u64 \<Rightarrow> peer_wire \<Rightarrow> peer_wire" where
  "record_received n w =
     w\<lparr>pw_bytes_received := pw_bytes_received w + n, pw_messages_received := pw_messages_received w + 1\<rparr>"

definition is_ready_for_request :: "peer_wire \<Rightarrow> bool" where
  "is_ready_for_request w \<longleftrightarrow> pw_state w = Established \<and> pw_am_interested w \<and> \<not> pw_peer_choking w"

section \<open>Steps of the connection\<close>

text \<open>The steps the connection can take: a local call, or a message from the peer.\<close>

inductive pw_step :: "peer_wire \<Rightarrow> peer_message option \<Rightarrow> peer_wire \<Rightarrow> bool" where
  step_hs_sent: "pw_step w None (on_handshake_sent w)"
| step_hs_received: "pw_step w None (on_handshake_received w)"
| step_established: "pw_step w None (on_established w)"
| step_unchoke: "pw_step w None (start_unchoke w)"
| step_choke: "pw_step w None (start_choke w)"
| step_interested: "pw_step w None (send_interested w)"
| step_not_interested: "pw_step w None (send_not_interested w)"
| step_sent: "pw_step w None (record_sent n w)"
| step_received: "pw_step w None (record_received n w)"
| step_message: "pw_step w (Some m) (fst (pw_handle m w))"

inductive_cases pw_step_None: "pw_step w None w'"
inductive_cases pw_step_Some: "pw_step w (Some m) w'"

inductive pw_steps :: "peer_wire \<Rightarrow> peer_message list \<Rightarrow> peer_wire \<Rightarrow> bool" where
  steps_refl: "pw_steps w [] w"
| steps_local: "pw_steps w ms w' \<Longrightarrow> pw_step w' None w'' \<Longrightarrow> pw_steps w ms w''"
| steps_recv: "pw_steps w ms w' \<Longrightarrow> pw_step w' (Some m) w'' \<Longrightarrow> pw_steps w (ms @ [m]) w''"

lemmas pw_local_defs = on_handshake_sent_def on_handshake_received_def on_established_def start_unchoke_def
  start_choke_def send_interested_def send_not_interested_def record_sent_def record_received_def

lemma pw_handle_frame:
  "pw_state (fst (pw_handle m w)) = pw_state w \<and> pw_am_choking (fst (pw_handle m w)) = pw_am_choking w \<and>
   pw_am_interested (fst (pw_handle m w)) = pw_am_interested w"
  by (cases "pm_msg_id m") (simp_all add: pw_handle_def Let_def)

definition last_choke :: "peer_message list \<Rightarrow> bool" where
  "last_choke ms =
     foldl (\<lambda>c m. if pm_msg_id m = MChoke then True else if pm_msg_id m = MUnchoke then False else c) True ms"

definition last_interest :: "peer_message list \<Rightarrow> bool" where
  "last_interest ms =
     foldl (\<lambda>c m. if pm_msg_id m = MInterested then True else if pm_msg_id m = MNotInterested then False else c) False ms"

lemma last_snoc:
  "last_choke (ms @ [m]) = (if pm_msg_id m = MChoke then True else if pm_msg_id m = MUnchoke then False else last_choke ms)"
  "last_interest (ms @ [m]) =
     (if pm_msg_id m = MInterested then True else if pm_msg_id m = MNotInterested then False else last_interest ms)"
  by (simp_all add: last_choke_def last_interest_def)

lemma pw_handle_flags:
  "pw_peer_choking (fst (pw_handle m w)) =
     (if pm_msg_id m = MChoke then True else if pm_msg_id m = MUnchoke then False else pw_peer_choking w)"
  "pw_peer_interested (fst (pw_handle m w)) =
     (if pm_msg_id m = MInterested then True else if pm_msg_id m = MNotInterested then False else pw_peer_interested w)"
  by (cases "pm_msg_id m"; simp add: pw_handle_def Let_def)+

text \<open>
  C26: whatever local calls are interleaved, the peer's flags are those of its last choke and interest
  messages, and no message of the peer changes either of the two local flags or the connection state.
\<close>

theorem peer_flags_track_messages:
  assumes "pw_steps pw_new ms w"
  shows "pw_peer_choking w = last_choke ms \<and> pw_peer_interested w = last_interest ms \<and>
    (is_ready_for_request w \<longleftrightarrow> pw_state w = Established \<and> pw_am_interested w \<and> \<not> last_choke ms) \<and>
    (\<forall>m. pw_am_choking (fst (pw_handle m w)) = pw_am_choking w \<and> pw_am_interested (fst (pw_handle m w)) = pw_am_interested w \<and>
       pw_state (fst (pw_handle m w)) = pw_state w)"
proof -
  have "pw_peer_choking w = last_choke ms \<and> pw_peer_interested w = last_interest ms"
    using assms
  proof (induction pw_new ms w rule: pw_steps.induct)
    case steps_refl
    show ?case by (simp add: pw_new_def last_choke_def last_interest_def)
  next
    case (steps_local ms w' w'')
    then show ?case by (auto elim!: pw_step_None simp: pw_local_defs)
  next
    case (steps_recv ms w' m w'')
    then show ?case by (auto elim!: pw_step_Some simp: pw_handle_flags last_snoc)
  qed
  then show ?thesis
    by (simp add: is_ready_for_request_def pw_handle_frame)
qed

theorem peer_flags_track_messages_witness:
  "pw_peer_choking (fst (pw_handle (pm_new MUnchoke []) (on_established pw_new))) = last_choke [pm_new MUnchoke []]"
proof -
  have "pw_steps pw_new ([] @ [pm_new MUnchoke []]) (fst (pw_handle (pm_new MUnchoke []) (on_established pw_new)))"
    by (rule steps_recv [OF steps_local [OF steps_refl step_established] step_message])
  from peer_flags_track_messages [OF this] show ?thesis by simp
qed

text \<open>The state after the messages of a list have been handled.\<close>

definition pw_handle_all :: "peer_message list \<Rightarrow> peer_wire \<Rightarrow> peer_wire" where
  "pw_handle_all ms w = foldl (\<lambda>w m. fst (pw_handle m w)) w ms"

lemma pw_handle_all_frame: "pw_am_choking (pw_handle_all ms w) = pw_am_choking w"
  by (induction ms arbitrary: w) (simp_all add: pw_handle_all_def pw_handle_frame)

text \<open>
  \<open>Interested\<close> is answered by \<open>Unchoke\<close> without recording it: the peer that was told it
  may request is refused with an error, whatever it sends in between, for as long as
  \<open>start_unchoke\<close> is not called.
\<close>

theorem unchoked_peer_refused:
  assumes "pw_am_choking w" and "pm_msg_id i = MInterested" and "pm_msg_id r = MRequest"
  shows "snd (pw_handle i w) = Ok (Some (pm_new MUnchoke [])) \<and>
    snd (pw_handle r (pw_handle_all (i # ms) w)) = Err (Protocol ''requested while choked'')"
proof -
  have "pw_am_choking (pw_handle_all (i # ms) w)" using assms(1) by (simp only: pw_handle_all_frame)
  then show ?thesis using assms by (simp add: pw_handle_def Let_def)
qed

theorem unchoked_peer_refused_witness:
  "snd (pw_handle (pm_new MInterested []) pw_new) = Ok (Some (pm_new MUnchoke [])) \<and>
   snd (pw_handle (pm_request 0 0 16384) (pw_handle_all [pm_new MInterested [], pm_have 3] pw_new)) =
     Err (Protocol ''requested while choked'')"
  by (rule unchoked_peer_refused) (simp_all add: pw_new_def pm_new_def pm_request_def)

lemma request_answer:
  "pm_msg_id m = MRequest \<Longrightarrow> is_ok (snd (pw_handle m w)) \<longleftrightarrow> \<not> pw_am_choking w"
  by (simp add: pw_handle_def Let_def)

end
