(* ===== verification/Scheduler.thy ===== *)
theory Scheduler
  imports Bitfield File_Meta
begin

text \<open>
  The piece scheduler (\<open>qvs-transport/src/scheduler.rs\<close>): priorities by distance to the playhead
  (cached), rarity among the peers, the sorted download queue and the choice of a peer.
\<close>

record scheduler =
  sc_metadata :: file_meta
  sc_playhead :: u32
  sc_queue :: "u32 list"
  sc_requested :: "u32 set"
  sc_completed :: "u32 set"
  sc_cache :: "u32 \<Rightarrow> piece_priority option"
  sc_seek_target :: "u32 option"

definition sc_new :: "file_meta \<Rightarrow> scheduler" where
  "sc_new m = \<lparr>sc_metadata = m, sc_playhead = 0, sc_queue = [], sc_requested = {}, sc_completed = {},
     sc_cache = Map.empty, sc_seek_target = None\<rparr>"

definition sc_num_pieces :: "scheduler \<Rightarrow> (u32, 'e) result" where
  "sc_num_pieces s = num_pieces_of (fm_file_size (sc_metadata s)) (fm_piece_length (sc_metadata s))"

definition set_playhead :: "u32 \<Rightarrow> scheduler \<Rightarrow> scheduler" where
  "set_playhead p s = s\<lparr>sc_playhead := p\<rparr>"

definition mark_completed :: "u32 \<Rightarrow> scheduler \<Rightarrow> scheduler" where
  "mark_completed p s = s\<lparr>sc_completed := insert p (sc_completed s), sc_requested := sc_requested s - {p}\<rparr>"

definition mark_requested :: "u32 \<Rightarrow> scheduler \<Rightarrow> scheduler" where
  "mark_requested p s = s\<lparr>sc_requested := insert p (sc_requested s)\<rparr>"

definition is_completed :: "scheduler \<Rightarrow> u32 \<Rightarrow> bool" where
  "is_completed s p \<longleftrightarrow> p \<in> sc_completed s"

definition is_requested :: "scheduler \<Rightarrow> u32 \<Rightarrow> bool" where
  "is_requested s p \<longleftrightarrow> p \<in> sc_requested s"

definition set_seek_target :: "u32 \<Rightarrow> scheduler \<Rightarrow> scheduler" where
  "set_seek_target p s = s\<lparr>sc_seek_target := Some p, sc_playhead := p\<rparr>"

definition abs_diff :: "u32 \<Rightarrow> u32 \<Rightarrow> u32" where
  "abs_diff a b = (if a < b then b - a else a - b)"

definition distance_priority :: "u32 \<Rightarrow> u32 \<Rightarrow> piece_priority" where
  "distance_priority playhead piece =
     (let dist = abs_diff piece playhead
      in if piece = playhead then Critical else if dist \<le> 2 then High else if dist \<le> 16 then Normal else Low)"

definition calculate_priority :: "u32 \<Rightarrow> scheduler \<Rightarrow> piece_priority \<times> scheduler" where
  "calculate_priority p s =
     (case sc_cache s p of
        Some c \<Rightarrow> (c, s)
      | None \<Rightarrow> (let pr = distance_priority (sc_playhead s) p in (pr, s\<lparr>sc_cache := (sc_cache s)(p \<mapsto> pr)\<rparr>)))"

text \<open>The number of peers that have each piece: the two nested loops over a map of counts.\<close>

definition count_pieces :: "u32 list \<Rightarrow> bitfield list \<Rightarrow> u32 \<Rightarrow> nat option" where
  "count_pieces pieces peers =
     foldl (\<lambda>c bf. foldl (\<lambda>c i.
         if bf_has bf i then c(i \<mapsto> (case c i of Some k \<Rightarrow> k | None \<Rightarrow> 0) + 1) else c) c pieces)
       Map.empty peers"

fun priority_score :: "piece_priority \<Rightarrow> int" where
  "priority_score Critical = 1000"
| "priority_score High = 100"
| "priority_score Normal = 10"
| "priority_score Low = 0"

definition seek_bonus :: "u32 option \<Rightarrow> u32 \<Rightarrow> int" where
  "seek_bonus target piece =
     (case target of
        None \<Rightarrow> 0
      | Some t \<Rightarrow> if (if t < 2 then 0 else t - 2) \<le> piece \<and> piece \<le> t + 2 then 500 else 0)"

text \<open>The scoring loop: pieces neither completed nor requested, with their scores.\<close>

fun score_pieces :: "nat \<Rightarrow> (u32 \<Rightarrow> nat option) \<Rightarrow> u32 list \<Rightarrow> scheduler \<Rightarrow> (u32 \<times> int) list \<times> scheduler" where
  "score_pieces all counts [] s = ([], s)"
| "score_pieces all counts (p # ps) s =
     (if p \<in> sc_completed s \<or> p \<in> sc_requested s then score_pieces all counts ps s
      else let rarity = int (all - (case counts p of Some k \<Rightarrow> k | None \<Rightarrow> 0));
               (priority, s1) = calculate_priority p s;
               (rest, s2) = score_pieces all counts ps s1
           in ((p, priority_score priority + rarity + seek_bonus (sc_seek_target s) p) # rest, s2))"

definition piece_range :: "u32 \<Rightarrow> u32 list" where
  "piece_range n = map of_nat [0..<unat n]"

definition update_download_queue :: "bitfield list \<Rightarrow> scheduler \<Rightarrow> (scheduler, 'e) result" where
  "update_download_queue peers s =
     and_then (sc_num_pieces s) (\<lambda>n.
     let counts = count_pieces (piece_range n) peers;
         (scored, s1) = score_pieces (length peers) counts (piece_range n) s
     in Ok (s1\<lparr>sc_queue := map fst (sort_key (\<lambda>x. - snd x) scored)\<rparr>))"

definition next_request :: "scheduler \<Rightarrow> block_request option" where
  "next_request s =
     (case sc_queue s of
        [] \<Rightarrow> None
      | p # _ \<Rightarrow> Some \<lparr>br_piece_index = p, br_begin = 0, br_length = ucast BLOCK_LENGTH\<rparr>)"

definition select_peer_for_piece :: "u32 \<Rightarrow> (bytes \<times> bitfield) list \<Rightarrow> bytes option" where
  "select_peer_for_piece p peers =
     map_option fst (min_by_key (\<lambda>x. bf_count (snd x)) (filter (\<lambda>x. bf_has (snd x) p) peers))"

definition rarest_first :: "u32 \<Rightarrow> bitfield list \<Rightarrow> u32" where
  "rarest_first p bfs = foldl (\<lambda>c bf. if bf_has bf p then c + 1 else c) 0 bfs"

section \<open>Rarity\<close>

lemma count_row:
  "distinct ps \<Longrightarrow> (foldl (\<lambda>c i. if bf_has bf i then c(i \<mapsto> (case c i of Some k \<Rightarrow> k | None \<Rightarrow> 0) + 1) else c) c ps) i =
    (if i \<in> set ps \<and> bf_has bf i then Some ((case c i of Some k \<Rightarrow> k | None \<Rightarrow> 0) + 1) else c i)"
  by (induction ps arbitrary: c) auto

definition peers_with :: "bitfield list \<Rightarrow> u32 \<Rightarrow> nat" where
  "peers_with peers p = length (filter (\<lambda>bf. bf_has bf p) peers)"

lemma count_pieces_eq:
  assumes "distinct ps" and "p \<in> set ps"
  shows "(case count_pieces ps peers p of Some k \<Rightarrow> k | None \<Rightarrow> 0) = peers_with peers p"
proof (induction peers rule: rev_induct)
  case (snoc bf peers)
  then show ?case
    using assms by (simp add: count_pieces_def peers_with_def count_row split: option.splits)
qed (simp add: count_pieces_def peers_with_def)

lemma distinct_piece_range: "distinct (piece_range n)"
proof -
  have "inj_on (of_nat :: nat \<Rightarrow> u32) {0..<unat n}"
  proof (rule inj_onI)
    fix i j assume ij: "i \<in> {0..<unat n}" "j \<in> {0..<unat n}" and eq: "(of_nat i :: u32) = of_nat j"
    have "unat n < 2 ^ LENGTH(32)" by (rule unsigned_less)
    with ij(1,2) have "i < 2 ^ LENGTH(32)" "j < 2 ^ LENGTH(32)"
      by (auto intro: less_trans)
    then have "unat (of_nat i :: u32) = i" "unat (of_nat j :: u32) = j"
      by (simp_all add: unat_of_nat)
    then show "i = j" using eq by metis
  qed
  then show ?thesis by (simp add: piece_range_def distinct_map)
qed

lemma set_piece_range: "p \<in> set (piece_range n) \<longleftrightarrow> p < n"
proof -
  have "unat n < 2 ^ LENGTH(32)" by (rule unsigned_less)
  then have "p < n" if "p = of_nat k" "k < unat n" for k
    using that by (simp add: word_less_nat_alt unat_of_nat)
  moreover have "p \<in> of_nat ` {0..<unat n}" if "p < n"
    using that by (intro image_eqI [of _ _ "unat p"]) (simp_all add: word_less_nat_alt)
  ultimately show ?thesis by (auto simp: piece_range_def)
qed

section \<open>The queue\<close>

text \<open>The score of a piece, from the cache if it has an entry.\<close>

definition piece_priority_now :: "scheduler \<Rightarrow> u32 \<Rightarrow> piece_priority" where
  "piece_priority_now s p = (case sc_cache s p of Some c \<Rightarrow> c | None \<Rightarrow> distance_priority (sc_playhead s) p)"

definition piece_score :: "bitfield list \<Rightarrow> scheduler \<Rightarrow> u32 \<Rightarrow> int" where
  "piece_score peers s p =
     priority_score (piece_priority_now s p) + int (length peers - peers_with peers p) + seek_bonus (sc_seek_target s) p"

lemma calculate_priority_frame:
  "calculate_priority p s = (pr, s') \<Longrightarrow> pr = piece_priority_now s p \<and> sc_completed s' = sc_completed s \<and>
    sc_requested s' = sc_requested s \<and> sc_seek_target s' = sc_seek_target s \<and> sc_playhead s' = sc_playhead s \<and>
    sc_metadata s' = sc_metadata s \<and> (\<forall>q. piece_priority_now s' q = piece_priority_now s q)"
  by (auto simp: calculate_priority_def piece_priority_now_def Let_def split: option.splits if_splits)

lemma score_pieces_eq:
  assumes "score_pieces all counts ps s = (scored, s')"
  shows "scored = map (\<lambda>p. (p, priority_score (piece_priority_now s p) +
      int (all - (case counts p of Some k \<Rightarrow> k | None \<Rightarrow> 0)) + seek_bonus (sc_seek_target s) p))
      (filter (\<lambda>p. p \<notin> sc_completed s \<and> p \<notin> sc_requested s) ps) \<and>
    sc_completed s' = sc_completed s \<and> sc_requested s' = sc_requested s \<and> sc_playhead s' = sc_playhead s \<and>
    sc_seek_target s' = sc_seek_target s \<and> (\<forall>q. piece_priority_now s' q = piece_priority_now s q)"
  using assms
proof (induction ps arbitrary: s scored s')
  case (Cons p ps)
  show ?case
  proof (cases "p \<in> sc_completed s \<or> p \<in> sc_requested s")
    case True
    with Cons.IH [of s scored s'] Cons.prems show ?thesis by auto
  next
    case False
    obtain pr s1 where pr: "calculate_priority p s = (pr, s1)" by fastforce
    obtain rest s2 where rest: "score_pieces all counts ps s1 = (rest, s2)" by fastforce
    from False Cons.prems pr rest have "scored = (p, priority_score pr +
        int (all - (case counts p of Some k \<Rightarrow> k | None \<Rightarrow> 0)) + seek_bonus (sc_seek_target s) p) # rest" "s' = s2"
      by (simp_all add: Let_def)
    with Cons.IH [OF rest] calculate_priority_frame [OF pr] False show ?thesis by simp
  qed
qed simp

lemma insort_key_map: "insort_key f (g x) (map g ys) = map g (insort_key (\<lambda>x. f (g x)) x ys)"
  by (induction ys) auto

lemma sort_key_map: "sort_key f (map g xs) = map g (sort_key (\<lambda>x. f (g x)) xs)"
  by (induction xs) (simp_all add: insort_key_map)

text \<open>
  C14: with \<open>n\<close> pieces in the file, the queue after \<open>update_download_queue\<close> holds every piece below
  \<open>n\<close> that is neither completed nor requested, once, by descending score, where the score is the
  priority plus the number of peers lacking the piece plus the seek bonus.
\<close>

theorem download_queue_correct:
  assumes "sc_num_pieces s = (Ok n :: (u32, 'e) result)"
    and "update_download_queue peers s = (Ok s' :: (scheduler, 'e) result)"
  shows "set (sc_queue s') = {p. p < n \<and> \<not> is_completed s p \<and> \<not> is_requested s p} \<and> distinct (sc_queue s') \<and>
    sorted (map (\<lambda>p. - piece_score peers s p) (sc_queue s')) \<and>
    sc_completed s' = sc_completed s \<and> sc_requested s' = sc_requested s"
proof -
  let ?ps = "piece_range n" and ?c = "count_pieces (piece_range n) peers"
  let ?todo = "filter (\<lambda>p. p \<notin> sc_completed s \<and> p \<notin> sc_requested s) ?ps"
  obtain scored s1 where sc: "score_pieces (length peers) ?c ?ps s = (scored, s1)" by fastforce
  note eq = score_pieces_eq [OF sc]
  have "(case ?c p of Some k \<Rightarrow> k | None \<Rightarrow> 0) = peers_with peers p" if "p \<in> set ?todo" for p
    using that by (intro count_pieces_eq distinct_piece_range) simp
  with eq have scored: "scored = map (\<lambda>p. (p, piece_score peers s p)) ?todo"
    by (simp add: piece_score_def)
  have "sc_queue s' = map fst (sort_key (\<lambda>x. - snd x) scored)" and fr: "sc_completed s' = sc_completed s" "sc_requested s' = sc_requested s"
    using assms(2) sc eq by (auto simp: update_download_queue_def assms(1) and_then_Ok_iff Let_def)
  moreover have "sort_key (\<lambda>x. - snd x) scored = map (\<lambda>p. (p, piece_score peers s p)) (sort_key (\<lambda>p. - piece_score peers s p) ?todo)"
    by (simp add: scored sort_key_map)
  ultimately have q: "sc_queue s' = sort_key (\<lambda>p. - piece_score peers s p) ?todo"
    by (simp add: comp_def)
  show ?thesis
    using distinct_piece_range [of n] by (auto simp: q fr is_completed_def is_requested_def set_piece_range sorted_sort_key)
qed


lemma update_download_queue_total:
  "0 < fm_piece_length (sc_metadata s) \<Longrightarrow> \<exists>s'. update_download_queue peers s = (Ok s' :: (scheduler, 'e) result)"
  by (auto simp: update_download_queue_def sc_num_pieces_def num_pieces_of_def Let_def split: prod.splits)

definition sample_meta :: "u64 \<Rightarrow> file_meta" where
  "sample_meta len = \<lparr>fm_info_hash = InfoHash (replicate 20 0), fm_filename = ''test.mp4'', fm_file_size = len,
     fm_piece_length = 4, fm_pieces = [], fm_keyframe_index = None, fm_duration_ms = 10000, fm_video_codec = None,
     fm_audio_codec = None, fm_width = 0, fm_height = 0, fm_bitrate = 0, fm_from_cache = False\<rparr>"

theorem download_queue_correct_witness:
  "\<exists>s'. update_download_queue [bitfield_new 3] (mark_completed 1 (sc_new (sample_meta 12))) = (Ok s' :: (scheduler, unit) result) \<and>
    set (sc_queue s') = {p. p < 3 \<and> \<not> is_completed (mark_completed 1 (sc_new (sample_meta 12))) p \<and>
      \<not> is_requested (mark_completed 1 (sc_new (sample_meta 12))) p}"
proof -
  let ?s = "mark_completed 1 (sc_new (sample_meta 12))"
  have n: "sc_num_pieces ?s = (Ok 3 :: (u32, unit) result)" by code_simp
  have "0 < fm_piece_length (sc_metadata ?s)" by code_simp
  from update_download_queue_total [OF this] obtain s' where
    "update_download_queue [bitfield_new 3] ?s = (Ok s' :: (scheduler, unit) result)" by blast
  with download_queue_correct [OF n this] show ?thesis by blast
qed

section \<open>The choice of a peer\<close>

text \<open>
  The selected peer has the piece, and none that has it has fewer pieces; no peer is selected
  exactly when none has the piece.
\<close>

theorem select_peer_correct:
  "case select_peer_for_piece p peers of
     None \<Rightarrow> \<forall>(i, bf) \<in> set peers. \<not> bf_has bf p
   | Some i \<Rightarrow> \<exists>bf. (i, bf) \<in> set peers \<and> bf_has bf p \<and>
       (\<forall>(j, bf') \<in> set peers. bf_has bf' p \<longrightarrow> bf_count bf \<le> bf_count bf')"
proof (cases "min_by_key (\<lambda>x. bf_count (snd x)) (filter (\<lambda>x. bf_has (snd x) p) peers)")
  case None
  then show ?thesis
    by (auto simp: select_peer_for_piece_def min_by_key_None filter_empty_conv)
next
  case (Some x)
  with min_by_key_Some [OF Some] show ?thesis
    by (cases x) (fastforce simp: select_peer_for_piece_def)
qed

theorem select_peer_correct_witness:
  "let peers = [([1], bf_set (bf_set (bitfield_new 2) 0 True) 1 True), ([2], bf_set (bitfield_new 2) 0 True)]
   in select_peer_for_piece 0 peers = Some [2] \<and> bf_count (snd (peers ! 1)) \<le> bf_count (snd (peers ! 0))"
proof -
  let ?a = "bf_set (bf_set (bitfield_new 2) 0 True) 1 True" and ?b = "bf_set (bitfield_new 2) 0 True"
  have s: "select_peer_for_piece 0 [([1], ?a), ([2], ?b)] = Some [2]" by code_simp
  have "bf_has ?a 0" by code_simp
  with select_peer_correct [of "[([1], ?a), ([2], ?b)]" 0] s show ?thesis by (auto simp: Let_def)
qed

section \<open>The priority cache is never invalidated\<close>

text \<open>
  Once computed, the priority of a piece stays what it was, wherever the playhead or the seek
  target moves.
\<close>

theorem priority_cache_stale:
  "calculate_priority p (set_seek_target t (set_playhead h (snd (calculate_priority p s)))) =
     (fst (calculate_priority p s), set_seek_target t (set_playhead h (snd (calculate_priority p s))))"
  by (auto simp: calculate_priority_def set_playhead_def set_seek_target_def Let_def split: option.splits)

text \<open>After a seek to piece 100 its priority can still be \<open>Low\<close>.\<close>

lemma priority_cache_stale_example:
  "let s = snd (calculate_priority 100 (sc_new (sample_meta 800)))
   in fst (calculate_priority 100 (set_seek_target 100 s)) = Low \<and> distance_priority 100 100 = Critical"
  by code_simp

text \<open>A completed piece stays at the head of the queue until the next update.\<close>

lemma next_request_completed:
  "sc_queue s = p # ps \<Longrightarrow> next_request (mark_completed p s) =
     Some \<lparr>br_piece_index = p, br_begin = 0, br_length = 16384\<rparr>"
  by (simp add: next_request_def mark_completed_def BLOCK_LENGTH_def)

end
