(* ===== verification/Nat_Traversal.thy ===== *)
theory Nat_Traversal
  imports Core_Types
begin

text \<open>
  NAT detection (\<open>qvs-transport/src/nat.rs\<close>): the STUN answer parser and the classification. The
  outcomes of the socket calls are arguments.
\<close>

datatype nat_type = NtNone | FullCone | RestrictedCone | PortRestrictedCone | Symmetric | Unknown

section \<open>The STUN answer\<close>

text \<open>The attribute loop of \<open>parse_stun_mapped_addr\<close> from \<open>offset\<close> on.\<close>

function stun_loop :: "bytes \<Rightarrow> nat \<Rightarrow> socket_addr option" where
  "stun_loop r offset =
     (if offset + 4 \<le> length r then
        let attr_type = u16_from_be (r ! offset) (r ! (offset + 1));
            attr_len = unat (u16_from_be (r ! (offset + 2)) (r ! (offset + 3)));
            off = offset + 4
        in if length r < off + attr_len then None
           else if attr_type = 1 \<and> 8 \<le> attr_len \<and> r ! (off + 1) = 1 then
             Some \<lparr>sa_ip = V4 [r ! (off + 4), r ! (off + 5), r ! (off + 6), r ! (off + 7)],
                   sa_port = u16_from_be (r ! (off + 2)) (r ! (off + 3))\<rparr>
           else stun_loop r (off + attr_len)
      else None)"
  by pat_completeness auto
termination
  by (relation "measure (\<lambda>(r, offset). length r - offset)") (auto simp: Let_def)

declare stun_loop.simps [simp del]

definition parse_stun_mapped_addr :: "bytes \<Rightarrow> socket_addr option" where
  "parse_stun_mapped_addr r = stun_loop r 20"

section \<open>Detection\<close>

text \<open>What the network does: binding, the local address, sending, receiving, and the probe.\<close>

datatype recv_outcome = Elapsed | RecvFailed | Received bytes

record probe_env =
  pe_bound :: bool
  pe_sent :: bool
  pe_recv :: recv_outcome

record nat_env =
  ne_bound :: bool
  ne_local :: "socket_addr option"
  ne_sent :: bool
  ne_recv :: recv_outcome
  ne_probe :: probe_env

record nat_detector =
  nd_stun_servers :: "socket_addr list"
  nd_local_addr :: "socket_addr option"
  nd_mapped_addr :: "socket_addr option"

definition nd_new :: "socket_addr list \<Rightarrow> nat_detector" where
  "nd_new servers = \<lparr>nd_stun_servers = servers, nd_local_addr = None, nd_mapped_addr = None\<rparr>"

definition probe_restriction :: "probe_env \<Rightarrow> bool" where
  "probe_restriction e \<longleftrightarrow> pe_bound e \<and> pe_sent e \<and> pe_recv e = Elapsed"

definition nd_detect :: "nat_env \<Rightarrow> nat_detector \<Rightarrow> nat_detector \<times> (nat_type, qvod_error) result" where
  "nd_detect e d =
     (if nd_stun_servers d = [] then (d, Ok NtNone)
      else if \<not> ne_bound e then (d, Err NatFailed)
      else let d1 = d\<lparr>nd_local_addr := ne_local e\<rparr>
           in if \<not> ne_sent e then (d1, Err NatFailed)
              else case ne_recv e of
                Elapsed \<Rightarrow> (d1, Err DhtTimeout)
              | RecvFailed \<Rightarrow> (d1, Err NatFailed)
              | Received bs \<Rightarrow>
                  (let buf = take 512 bs
                   in if length buf < 20 \<or> buf ! 0 \<noteq> 1 \<or> buf ! 1 \<noteq> 1 then (d1, Ok Unknown)
                      else case (ne_local e, parse_stun_mapped_addr buf) of
                        (Some l, Some m) \<Rightarrow>
                          (d1\<lparr>nd_mapped_addr := Some m\<rparr>,
                           Ok (if sa_ip l = sa_ip m \<and> sa_port l = sa_port m then NtNone
                               else if sa_ip l = sa_ip m then FullCone
                               else if probe_restriction (ne_probe e) then PortRestrictedCone else RestrictedCone))
                      | _ \<Rightarrow> (d1, Ok Unknown)))"

section \<open>Traversal\<close>

record nat_traversal =
  nt_nat_type :: nat_type
  nt_external_addr :: "socket_addr option"

definition nt_new :: nat_traversal where
  "nt_new = \<lparr>nt_nat_type = NtNone, nt_external_addr = None\<rparr>"

definition nt_detect :: "socket_addr list \<Rightarrow> nat_traversal \<Rightarrow> nat_traversal \<times> nat_type" where
  "nt_detect servers t =
     (if servers = [] then (t\<lparr>nt_nat_type := NtNone\<rparr>, NtNone) else (t\<lparr>nt_nat_type := RestrictedCone\<rparr>, RestrictedCone))"

definition nt_detect_async :: "nat_env \<Rightarrow> socket_addr list \<Rightarrow> nat_traversal \<Rightarrow> nat_traversal \<times> (nat_type, qvod_error) result" where
  "nt_detect_async e servers t =
     (let (d, r) = nd_detect e (nd_new servers)
      in case r of Ok n \<Rightarrow> (t\<lparr>nt_nat_type := n, nt_external_addr := nd_mapped_addr d\<rparr>, Ok n) | r \<Rightarrow> (t, r))"

text \<open>
  The loop of \<open>udp_hole_punching\<close>: one element per attempt, whether the send succeeded and whether
  anything came back (also a receive error, which \<open>timeout\<close> does not turn into an error) in time.
\<close>

definition HOLE_PUNCH_RETRIES :: nat where "HOLE_PUNCH_RETRIES = 5"

fun punch_loop :: "nat \<Rightarrow> ((unit, qvod_error) result \<times> bool) list \<Rightarrow> (unit, qvod_error) result" where
  "punch_loop 0 net = Err NatFailed"
| "punch_loop (Suc n) [] = Err NatFailed"
| "punch_loop (Suc n) ((sent, answered) # net) =
     and_then sent (\<lambda>_. if answered then Ok () else punch_loop n net)"

definition udp_hole_punching :: "(unit, qvod_error) result \<Rightarrow> (unit, qvod_error) result \<Rightarrow>
    ((unit, qvod_error) result \<times> bool) list \<Rightarrow> (unit, qvod_error) result" where
  "udp_hole_punching bind connect net =
     and_then bind (\<lambda>_. and_then connect (\<lambda>_. punch_loop HOLE_PUNCH_RETRIES net))"

text \<open>\<open>relay_fallback\<close>: \<open>None\<close> is a connection attempt that did not end in time.\<close>

definition relay_fallback :: "(unit, string) result option \<Rightarrow> (unit, qvod_error) result" where
  "relay_fallback connect =
     (case connect of
        None \<Rightarrow> Err (Timeout ''relay connect timeout'')
      | Some r \<Rightarrow> map_err Network (and_then r (\<lambda>_. Ok ())))"

definition nt_set_nat_type :: "nat_type \<Rightarrow> nat_traversal \<Rightarrow> nat_traversal" where
  "nt_set_nat_type n t = t\<lparr>nt_nat_type := n\<rparr>"

definition nt_set_external_addr :: "socket_addr \<Rightarrow> nat_traversal \<Rightarrow> nat_traversal" where
  "nt_set_external_addr a t = t\<lparr>nt_external_addr := Some a\<rparr>"

definition is_connectable :: "nat_traversal \<Rightarrow> bool" where
  "is_connectable t \<longleftrightarrow> nt_nat_type t \<noteq> Symmetric"

definition needs_relay :: "nat_traversal \<Rightarrow> bool" where
  "needs_relay t \<longleftrightarrow> nt_nat_type t = Symmetric"

section \<open>The parser on a list of attributes\<close>

definition stun_attr :: "u16 \<times> bytes \<Rightarrow> bytes" where
  "stun_attr a = u16_be (fst a) @ u16_be (of_nat (length (snd a))) @ snd a"

fun first_mapped :: "(u16 \<times> bytes) list \<Rightarrow> socket_addr option" where
  "first_mapped [] = None"
| "first_mapped ((t, v) # as) =
     (if t = 1 \<and> 8 \<le> length v \<and> v ! 1 = 1 then
        Some \<lparr>sa_ip = V4 [v ! 4, v ! 5, v ! 6, v ! 7], sa_port = u16_from_be (v ! 2) (v ! 3)\<rparr>
      else first_mapped as)"

lemma stun_loop_attrs:
  assumes "\<forall>a \<in> set as. length (snd a) < 2 ^ 16"
  shows "stun_loop (pre @ concat (map stun_attr as)) (length pre) = first_mapped as"
  using assms
proof (induction as arbitrary: pre)
  case Nil
  show ?case by (subst stun_loop.simps) simp
next
  case (Cons a as)
  obtain t v where a: "a = (t, v)" by fastforce
  let ?tl = "concat (map stun_attr as)"
  let ?r = "pre @ u16_be t @ u16_be (of_nat (length v)) @ v @ ?tl"
  have v: "unat (of_nat (length v) :: u16) = length v"
    using Cons.prems by (simp add: unat_of_nat a)
  have at: "?r ! (length pre + 4 + k) = v ! k" if "k < length v" for k
    using that by (simp add: nth_append u16_be_def)
  have hd: "u16_from_be (?r ! length pre) (?r ! (length pre + 1)) = t"
    "u16_from_be (?r ! (length pre + 2)) (?r ! (length pre + 3)) = of_nat (length v)"
    by (simp_all add: nth_append u16_be_def)
  have IH: "stun_loop ?r (length pre + 4 + length v) = first_mapped as"
  proof -
    have "length (pre @ u16_be t @ u16_be (of_nat (length v)) @ v) = length pre + 4 + length v" by (simp add: u16_be_def)
    moreover have "\<forall>a \<in> set as. length (snd a) < 2 ^ 16" using Cons.prems by simp
    ultimately show ?thesis using Cons.IH [of "pre @ u16_be t @ u16_be (of_nat (length v)) @ v"] by (simp only: append_assoc)
  qed
  have "stun_loop ?r (length pre) =
    (if t = 1 \<and> 8 \<le> length v \<and> ?r ! (length pre + 4 + 1) = 1 then
        Some \<lparr>sa_ip = V4 [?r ! (length pre + 4 + 4), ?r ! (length pre + 4 + 5), ?r ! (length pre + 4 + 6), ?r ! (length pre + 4 + 7)],
              sa_port = u16_from_be (?r ! (length pre + 4 + 2)) (?r ! (length pre + 4 + 3))\<rparr>
     else first_mapped as)"
    by (subst stun_loop.simps) (simp only: Let_def hd v IH, simp)
  also have "\<dots> = first_mapped (a # as)"
  proof (cases "8 \<le> length v")
    case True
    have "?r ! (length pre + 4 + 1) = v ! 1" "?r ! (length pre + 4 + 2) = v ! 2" "?r ! (length pre + 4 + 3) = v ! 3"
      "?r ! (length pre + 4 + 4) = v ! 4" "?r ! (length pre + 4 + 5) = v ! 5" "?r ! (length pre + 4 + 6) = v ! 6"
      "?r ! (length pre + 4 + 7) = v ! 7"
      using True by (intro at; simp)+
    then show ?thesis by (simp only: a first_mapped.simps)
  qed (simp add: a)
  finally have "stun_loop ?r (length pre) = first_mapped (a # as)" .
  moreover have "pre @ concat (map stun_attr (a # as)) = ?r" by (simp add: a stun_attr_def)
  ultimately show ?case by (simp only:)
qed

text \<open>
  On a STUN answer of a 20-byte header and a sequence of attributes, the parser returns the
  address of the first IPv4 \<open>MAPPED-ADDRESS\<close> attribute, or nothing if there is none.
\<close>

theorem stun_parse_correct:
  assumes "length header = 20" and "\<forall>a \<in> set attrs. length (snd a) < 2 ^ 16"
  shows "parse_stun_mapped_addr (header @ concat (map stun_attr attrs)) = first_mapped attrs"
  using stun_loop_attrs [OF assms(2), of header] assms(1) by (simp add: parse_stun_mapped_addr_def)

theorem stun_parse_correct_witness:
  "parse_stun_mapped_addr (replicate 20 0 @ concat (map stun_attr [(0x8022, [1, 2, 3]), (1, [0, 1, 0x21, 0xAD, 10, 0, 0, 7])])) =
     Some \<lparr>sa_ip = V4 [10, 0, 0, 7], sa_port = 8621\<rparr>"
  by (subst stun_parse_correct) (auto simp: u16_from_be_def)

text \<open>The detector never reports a symmetric NAT, so \<open>needs_relay\<close> holds of no detected state.\<close>

lemma detect_never_symmetric:
  "snd (nd_detect e d) \<noteq> Ok Symmetric"
  by (auto simp: nd_detect_def Let_def split: recv_outcome.splits option.splits if_splits)

lemma detected_never_needs_relay:
  assumes "nt_detect_async e servers t = (t', Ok n)"
  shows "\<not> needs_relay t'"
  using assms detect_never_symmetric [of e "nd_new servers"]
  by (auto simp: nt_detect_async_def needs_relay_def split: prod.splits result.splits)

end
