(* ===== verification/Congestion.thy ===== *)
theory Congestion
  imports Float64 Core_Types
begin

text \<open>
  Congestion control of the UDP transport (\<open>qvs-transport/src/congestion.rs\<close>). A \<open>Duration\<close> is its
  number of nanoseconds and the clock an argument. The transitions are a step relation; its
  invariant bounds the window in rounded arithmetic and excludes every panic.
\<close>

section \<open>Durations\<close>

definition DURATION_LIMIT :: nat where "DURATION_LIMIT = 2 ^ 64 * 10 ^ 9"

definition millis :: "nat \<Rightarrow> nat" where "millis n = n * 10 ^ 6"

text \<open>A sum or product of durations panics when it is out of range.\<close>

definition duration :: "nat \<Rightarrow> (nat, qvod_error) result" where
  "duration n = (if n < DURATION_LIMIT then Ok n else Panic)"

definition as_secs_f64 :: "nat \<Rightarrow> f64" where
  "as_secs_f64 d = f64_add (f64_of_nat (d div 10 ^ 9)) (f64_div (f64_of_nat (d mod 10 ^ 9)) (f64_of_nat (10 ^ 9)))"

definition from_secs_f64 :: "f64 \<Rightarrow> (nat, qvod_error) result" where
  "from_secs_f64 x = (if x < 0 then Panic else duration (nat (round_even (x * 10 ^ 9))))"

section \<open>State and transitions\<close>

datatype congestion_state = SlowStart | CongestionAvoidance | FastRecovery

record congestion =
  cg_state :: congestion_state
  cg_cwnd :: f64
  cg_ssthresh :: f64
  cg_max_cwnd :: f64
  cg_rtt_estimate :: nat
  cg_rtt_dev :: nat
  cg_loss_rate :: f64
  cg_in_flight :: u32
  cg_lost :: u32
  cg_sent :: u32
  cg_history :: "nat list"
  cg_last_ack :: "nat option"
  cg_streaming :: bool

definition cg_new :: congestion where
  "cg_new = \<lparr>cg_state = SlowStart, cg_cwnd = 2, cg_ssthresh = 64, cg_max_cwnd = 256,
     cg_rtt_estimate = millis 100, cg_rtt_dev = millis 20, cg_loss_rate = 0, cg_in_flight = 0, cg_lost = 0,
     cg_sent = 0, cg_history = [], cg_last_ack = None, cg_streaming = False\<rparr>"

definition update_loss_rate :: "congestion \<Rightarrow> congestion" where
  "update_loss_rate c =
     (if 0 < cg_sent c then
        let r = f64_div (f64_of_nat (unat (cg_lost c))) (f64_of_nat (unat (cg_sent c)))
        in c\<lparr>cg_loss_rate := r, cg_streaming := if f64_round (1 / 10) < r then True else cg_streaming c\<rparr>
      else c)"

definition push_rtt :: "nat \<Rightarrow> nat list \<Rightarrow> nat list" where
  "push_rtt rtt history = (let h = history @ [rtt] in if 100 < length h then tl h else h)"

definition rtt_gap :: "nat \<Rightarrow> nat \<Rightarrow> nat" where
  "rtt_gap rtt est = (if est < rtt then rtt - est else est - rtt)"

definition update_rtt :: "nat \<Rightarrow> congestion \<Rightarrow> (congestion, qvod_error) result" where
  "update_rtt rtt c =
     (let h = push_rtt rtt (cg_history c)
      in and_then (if 0 < length h then and_then (duration (sum_list h)) (\<lambda>s. Ok (s div length h)) else Ok (cg_rtt_estimate c)) (\<lambda>est.
         let diff = rtt_gap rtt est
         in and_then (duration (cg_rtt_dev c * 3)) (\<lambda>d3. and_then (duration (d3 + diff)) (\<lambda>d.
            Ok (c\<lparr>cg_history := h, cg_rtt_estimate := est, cg_rtt_dev := d div 4\<rparr>)))))"

definition sat_dec :: "u32 \<Rightarrow> u32" where "sat_dec n = (if n = 0 then 0 else n - 1)"

definition on_ack :: "nat \<Rightarrow> nat \<Rightarrow> congestion \<Rightarrow> (congestion, qvod_error) result" where
  "on_ack now rtt c =
     and_then (update_rtt rtt c) (\<lambda>c.
     let c = c\<lparr>cg_in_flight := sat_dec (cg_in_flight c)\<rparr>;
         c = (case cg_state c of
                CongestionAvoidance \<Rightarrow> c\<lparr>cg_cwnd := f64_add (cg_cwnd c) (f64_div 1 (cg_cwnd c))\<rparr>
              | _ \<Rightarrow> (let c = c\<lparr>cg_cwnd := f64_add (cg_cwnd c) 1\<rparr>
                     in if cg_ssthresh c \<le> cg_cwnd c then c\<lparr>cg_state := CongestionAvoidance\<rparr> else c))
     in Ok (c\<lparr>cg_cwnd := min (cg_cwnd c) (cg_max_cwnd c), cg_last_ack := Some now\<rparr>))"

definition on_loss :: "congestion \<Rightarrow> congestion" where
  "on_loss c =
     (let t = max (f64_div (cg_cwnd c) 2) 2
      in update_loss_rate (c\<lparr>cg_ssthresh := t, cg_cwnd := t, cg_in_flight := sat_dec (cg_in_flight c),
           cg_lost := cg_lost c + 1, cg_state := FastRecovery\<rparr>))"

definition on_timeout :: "congestion \<Rightarrow> congestion" where
  "on_timeout c =
     update_loss_rate (c\<lparr>cg_ssthresh := max (f64_div (cg_cwnd c) 2) 2, cg_cwnd := 2, cg_in_flight := 0,
       cg_lost := cg_lost c + 1, cg_state := SlowStart\<rparr>)"

definition on_packet_sent :: "congestion \<Rightarrow> congestion" where
  "on_packet_sent c = update_loss_rate (c\<lparr>cg_sent := cg_sent c + 1, cg_in_flight := cg_in_flight c + 1\<rparr>)"

definition can_send :: "congestion \<Rightarrow> bool" where
  "can_send c \<longleftrightarrow> cg_in_flight c < f64_to_u32 (cg_cwnd c)"

definition wait_time :: "congestion \<Rightarrow> (nat, qvod_error) result" where
  "wait_time c =
     (if cg_cwnd c \<le> 0 then Ok (millis 10)
      else and_then (from_secs_f64 (f64_div (as_secs_f64 (cg_rtt_estimate c)) (cg_cwnd c))) (\<lambda>i.
        let clamped = min (max i (millis 1)) (millis 50)
        in Ok (if cg_streaming c then max clamped (millis 5) else clamped)))"

definition set_streaming_mode :: "bool \<Rightarrow> congestion \<Rightarrow> congestion" where
  "set_streaming_mode b c = c\<lparr>cg_streaming := b\<rparr>"

definition timeout_duration :: "congestion \<Rightarrow> (nat, qvod_error) result" where
  "timeout_duration c = and_then (duration (cg_rtt_dev c * 4)) (\<lambda>d. duration (cg_rtt_estimate c + d))"

section \<open>The step relation\<close>

text \<open>Round-trip times up to this bound (over thirty years) are admitted.\<close>

definition RTT_BOUND :: nat where "RTT_BOUND = 10 ^ 18"

inductive cg_step :: "congestion \<Rightarrow> congestion \<Rightarrow> bool" where
  step_ack: "rtt \<le> RTT_BOUND \<Longrightarrow> on_ack now rtt c = Ok c' \<Longrightarrow> cg_step c c'"
| step_loss: "cg_step c (on_loss c)"
| step_timeout: "cg_step c (on_timeout c)"
| step_sent: "cg_step c (on_packet_sent c)"
| step_mode: "cg_step c (set_streaming_mode b c)"

inductive cg_reach :: "congestion \<Rightarrow> bool" where
  reach_new: "cg_reach cg_new"
| reach_step: "cg_reach c \<Longrightarrow> cg_step c c' \<Longrightarrow> cg_reach c'"

section \<open>The invariant\<close>

definition cg_window :: "congestion \<Rightarrow> bool" where
  "cg_window c \<longleftrightarrow> 2 \<le> cg_cwnd c \<and> cg_cwnd c \<le> 256 \<and> 2 \<le> cg_ssthresh c \<and> cg_ssthresh c \<le> 128 \<and> cg_max_cwnd c = 256"

definition cg_times :: "congestion \<Rightarrow> bool" where
  "cg_times c \<longleftrightarrow> cg_rtt_estimate c \<le> RTT_BOUND \<and> cg_rtt_dev c \<le> RTT_BOUND \<and> length (cg_history c) \<le> 100 \<and>
     (\<forall>r \<in> set (cg_history c). r \<le> RTT_BOUND)"

lemma update_loss_rate_frame [simp]:
  "cg_cwnd (update_loss_rate c) = cg_cwnd c" "cg_ssthresh (update_loss_rate c) = cg_ssthresh c"
  "cg_max_cwnd (update_loss_rate c) = cg_max_cwnd c" "cg_state (update_loss_rate c) = cg_state c"
  "cg_rtt_estimate (update_loss_rate c) = cg_rtt_estimate c" "cg_rtt_dev (update_loss_rate c) = cg_rtt_dev c"
  "cg_history (update_loss_rate c) = cg_history c" "cg_in_flight (update_loss_rate c) = cg_in_flight c"
  "cg_lost (update_loss_rate c) = cg_lost c" "cg_sent (update_loss_rate c) = cg_sent c"
  by (simp_all add: update_loss_rate_def Let_def)

lemma sum_list_bound: "(\<forall>x \<in> set xs. x \<le> (b::nat)) \<Longrightarrow> sum_list xs \<le> length xs * b"
  by (induction xs) auto

lemma f64_half: "2 \<le> w \<Longrightarrow> w \<le> 256 \<Longrightarrow> 1 \<le> f64_div w 2 \<and> f64_div w 2 \<le> 128"
  using f64_round_ge [of 1 "w / 2"] f64_round_le [of "w / 2" 128] by (simp add: f64_div_def)

lemma f64_grow:
  assumes "2 \<le> w" "w \<le> 256" "0 \<le> x" "x \<le> 1"
  shows "2 \<le> f64_add w x \<and> f64_add w x \<le> 257"
  using assms f64_round_ge [of 2 "w + x"] f64_round_le [of "w + x" 257] by (simp add: f64_add_def)

lemma f64_inverse: "2 \<le> w \<Longrightarrow> 0 \<le> f64_div 1 w \<and> f64_div 1 w \<le> 1"
  using f64_round_ge [of 0 "1 / w"] f64_round_le [of "1 / w" 1] by (simp add: f64_div_def)

lemma push_rtt:
  assumes "length xs \<le> 100"
  shows "push_rtt r xs \<noteq> [] \<and> length (push_rtt r xs) \<le> 100 \<and> set (push_rtt r xs) \<subseteq> insert r (set xs)"
proof -
  have "set (tl (xs @ [r])) \<subseteq> insert r (set xs)" by (cases xs) auto
  moreover have "tl (xs @ [r]) \<noteq> []" if "100 < length (xs @ [r])" using that by (cases xs) auto
  ultimately show ?thesis using assms by (auto simp: push_rtt_def Let_def)
qed

lemma update_rtt_ok:
  assumes "cg_times c" and "rtt \<le> RTT_BOUND"
  shows "\<exists>h e d. update_rtt rtt c = Ok (c\<lparr>cg_history := h, cg_rtt_estimate := e, cg_rtt_dev := d\<rparr>) \<and>
    cg_times (c\<lparr>cg_history := h, cg_rtt_estimate := e, cg_rtt_dev := d\<rparr>)"
proof -
  define h where "h = push_rtt rtt (cg_history c)"
  have h: "h \<noteq> []" "length h \<le> 100" "\<forall>r \<in> set h. r \<le> RTT_BOUND"
    using assms push_rtt [of "cg_history c" rtt] by (auto simp: h_def cg_times_def)
  have s: "sum_list h \<le> length h * RTT_BOUND" by (rule sum_list_bound [OF h(3)])
  also have "\<dots> \<le> 100 * RTT_BOUND" using h(2) by (rule mult_right_mono) simp
  finally have s100: "duration (sum_list h) = Ok (sum_list h)" by (simp add: RTT_BOUND_def DURATION_LIMIT_def duration_def)
  have est: "sum_list h div length h \<le> RTT_BOUND"
    using s h(1) by (metis div_le_mono length_greater_0_conv nonzero_mult_div_cancel_left not_gr_zero)
  let ?e = "sum_list h div length h"
  let ?diff = "rtt_gap rtt ?e"
  have diff: "?diff \<le> RTT_BOUND" using est assms(2) by (auto simp: rtt_gap_def)
  have dev: "cg_rtt_dev c \<le> RTT_BOUND" using assms(1) by (simp add: cg_times_def)
  have "duration (cg_rtt_dev c * 3) = Ok (cg_rtt_dev c * 3)" "duration (cg_rtt_dev c * 3 + ?diff) = Ok (cg_rtt_dev c * 3 + ?diff)"
    using dev diff by (simp_all add: duration_def RTT_BOUND_def DURATION_LIMIT_def)
  then have "update_rtt rtt c = Ok (c\<lparr>cg_history := h, cg_rtt_estimate := ?e, cg_rtt_dev := (cg_rtt_dev c * 3 + ?diff) div 4\<rparr>)"
    using h(1) s100 unfolding update_rtt_def h_def [symmetric] Let_def by simp
  moreover have "(cg_rtt_dev c * 3 + ?diff) div 4 \<le> RTT_BOUND" using dev diff by linarith
  ultimately show ?thesis using h est by (auto simp: cg_times_def)
qed

lemma on_ack_ok:
  assumes "cg_window c" and "cg_times c" and "rtt \<le> RTT_BOUND"
  shows "\<exists>c'. on_ack now rtt c = Ok c' \<and> cg_window c' \<and> cg_times c'"
proof -
  from update_rtt_ok [OF assms(2,3)] obtain h e d where
    u: "update_rtt rtt c = Ok (c\<lparr>cg_history := h, cg_rtt_estimate := e, cg_rtt_dev := d\<rparr>)" and
    t: "cg_times (c\<lparr>cg_history := h, cg_rtt_estimate := e, cg_rtt_dev := d\<rparr>)" by blast
  have w: "2 \<le> cg_cwnd c" "cg_cwnd c \<le> 256" using assms(1) by (auto simp: cg_window_def)
  note g = f64_grow [OF w, of 1] f64_grow [OF w, of "f64_div 1 (cg_cwnd c)"] f64_inverse [OF w(1)]
  show ?thesis using g t assms(1)
    by (cases "cg_state c") (auto simp: on_ack_def u Let_def cg_window_def cg_times_def min_def)
qed

lemma cg_step_invariant:
  assumes "cg_step c c'" and "cg_window c" and "cg_times c"
  shows "cg_window c' \<and> cg_times c'"
proof -
  have h: "f64_div (cg_cwnd c) 2 \<le> 128" using f64_half assms(2) by (simp add: cg_window_def)
  then have h': "f64_div (cg_cwnd c) 2 \<le> 256" by linarith
  from assms(1) show ?thesis
  proof cases
    case (step_ack rtt now)
    then show ?thesis using on_ack_ok [OF assms(2,3) step_ack(1), of now] by auto
  qed (use assms(2,3) h h' in \<open>auto simp: on_loss_def on_timeout_def on_packet_sent_def set_streaming_mode_def cg_window_def
         cg_times_def max_def Let_def\<close>)
qed

lemma cg_reach_invariant: "cg_reach c \<Longrightarrow> cg_window c \<and> cg_times c"
proof (induction rule: cg_reach.induct)
  case reach_new
  show ?case by (simp add: cg_new_def cg_window_def cg_times_def millis_def RTT_BOUND_def)
next
  case (reach_step c c')
  then show ?case using cg_step_invariant by blast
qed

section \<open>The consequences\<close>

lemma f64_to_u32_window: "2 \<le> w \<Longrightarrow> w \<le> 256 \<Longrightarrow> 2 \<le> f64_to_u32 w \<and> f64_to_u32 w \<le> 256"
proof -
  assume w: "2 \<le> w" "w \<le> 256"
  then have f: "2 \<le> \<lfloor>w\<rfloor>" "\<lfloor>w\<rfloor> \<le> 256" by (simp_all add: le_floor_iff floor_le_iff)
  then have "uint (of_int \<lfloor>w\<rfloor> :: u32) = \<lfloor>w\<rfloor>" by (simp add: uint_word_of_int)
  moreover have "f64_to_u32 w = of_int \<lfloor>w\<rfloor>" using f by (simp add: f64_to_u32_def min_def max_def)
  ultimately show ?thesis using f by (simp add: word_le_def)
qed

lemma as_secs_f64_bound:
  assumes "d \<le> RTT_BOUND"
  shows "0 \<le> as_secs_f64 d \<and> as_secs_f64 d \<le> 10 ^ 9 + 1"
proof -
  have s: "d div 10 ^ 9 \<le> 10 ^ 9" using assms by (simp add: RTT_BOUND_def)
  then have a: "f64_of_nat (d div 10 ^ 9) = of_nat (d div 10 ^ 9)" by (intro f64_of_nat_exact) simp
  have "d mod 10 ^ 9 < 10 ^ 9" by simp
  then have b: "f64_of_nat (d mod 10 ^ 9) = of_nat (d mod 10 ^ 9)" "f64_of_nat (10 ^ 9) = 10 ^ 9"
    by (subst f64_of_nat_exact; simp)+
  let ?r = "of_nat (d mod 10 ^ 9) / (10 ^ 9 :: rat)"
  have "?r \<le> 1" using \<open>d mod 10 ^ 9 < 10 ^ 9\<close> by (simp add: divide_le_eq)
  then have r: "0 \<le> f64_round ?r" "f64_round ?r \<le> 1"
    using f64_round_ge [of 0 ?r] f64_round_le [of ?r 1] by simp_all
  have q: "(of_nat (d div 10 ^ 9) :: rat) \<le> 10 ^ 9" using s by (metis of_nat_le_iff of_nat_numeral of_nat_power)
  have "0 \<le> f64_round (of_nat (d div 10 ^ 9) + f64_round ?r)"
    using r by (intro f64_round_ge [of 0, simplified]) simp
  moreover have "f64_round (of_nat (d div 10 ^ 9) + f64_round ?r) \<le> of_int (10 ^ 9 + 1)"
    using r q by (intro f64_round_le) simp_all
  ultimately have "0 \<le> f64_add (f64_of_nat (d div 10 ^ 9)) (f64_div (f64_of_nat (d mod 10 ^ 9)) (f64_of_nat (10 ^ 9)))"
    "f64_add (f64_of_nat (d div 10 ^ 9)) (f64_div (f64_of_nat (d mod 10 ^ 9)) (f64_of_nat (10 ^ 9))) \<le> of_int (10 ^ 9 + 1)"
    by (simp_all only: a b f64_add_def f64_div_def)
  then show ?thesis by (simp only: as_secs_f64_def) simp
qed

lemma from_secs_f64_ok:
  assumes "0 \<le> x" "x \<le> 10 ^ 9 + 1"
  shows "\<exists>n. from_secs_f64 x = Ok n"
proof -
  have "round_even (x * 10 ^ 9) \<le> round_even (of_int ((10 ^ 9 + 1) * 10 ^ 9))"
    using assms by (intro round_even_mono) simp
  then have "round_even (x * 10 ^ 9) \<le> (10 ^ 9 + 1) * 10 ^ 9" by (simp only: round_even_int)
  then have "nat (round_even (x * 10 ^ 9)) < DURATION_LIMIT" by (simp add: DURATION_LIMIT_def)
  then show ?thesis using assms by (simp add: from_secs_f64_def duration_def)
qed

lemma wait_time_ok:
  assumes "cg_window c" and "cg_times c"
  shows "\<exists>w. wait_time c = Ok w \<and> millis 1 \<le> w \<and> w \<le> millis 50 \<and> (cg_streaming c \<longrightarrow> millis 5 \<le> w)"
proof -
  have w: "2 \<le> cg_cwnd c" using assms(1) by (simp add: cg_window_def)
  let ?s = "as_secs_f64 (cg_rtt_estimate c)"
  have s: "0 \<le> ?s" "?s \<le> 10 ^ 9 + 1"
    using as_secs_f64_bound assms(2) by (auto simp: cg_times_def)
  have "0 \<le> ?s / cg_cwnd c" using s w by simp
  moreover have "?s / cg_cwnd c \<le> 10 ^ 9 + 1"
  proof -
    have "?s \<le> (10 ^ 9 + 1) * 1" using s by simp
    also have "\<dots> \<le> (10 ^ 9 + 1) * cg_cwnd c" using w by (intro mult_left_mono) auto
    finally show ?thesis using w by (simp add: divide_le_eq)
  qed
  ultimately have "0 \<le> f64_div ?s (cg_cwnd c)" "f64_div ?s (cg_cwnd c) \<le> 10 ^ 9 + 1"
    using f64_round_ge [of 0 "?s / cg_cwnd c"] f64_round_le [of "?s / cg_cwnd c" "10 ^ 9 + 1"] by (simp_all add: f64_div_def)
  from from_secs_f64_ok [OF this] obtain n where "from_secs_f64 (f64_div ?s (cg_cwnd c)) = Ok n" by blast
  then show ?thesis using w by (auto simp: wait_time_def Let_def millis_def)
qed

text \<open>
  C20: whatever sequence of acknowledgements, losses, timeouts and sends has happened, the congestion
  window stays between 2 and 256 packets and its threshold between 2 and 128, in rounded arithmetic;
  a sender with fewer than two packets in flight may send, one with 256 may not; the pacing delay is
  between 1 ms (5 ms in streaming mode) and 50 ms; and no acknowledgement panics.
\<close>

theorem congestion_window_bounded:
  assumes "cg_reach c"
  shows "2 \<le> cg_cwnd c \<and> cg_cwnd c \<le> 256 \<and> 2 \<le> cg_ssthresh c \<and> cg_ssthresh c \<le> 128 \<and>
    (cg_in_flight c < 2 \<longrightarrow> can_send c) \<and> (256 \<le> cg_in_flight c \<longrightarrow> \<not> can_send c) \<and>
    (\<exists>w. wait_time c = Ok w \<and> millis 1 \<le> w \<and> w \<le> millis 50 \<and> (cg_streaming c \<longrightarrow> millis 5 \<le> w)) \<and>
    (\<forall>now rtt. rtt \<le> RTT_BOUND \<longrightarrow> is_ok (on_ack now rtt c))"
proof -
  have i: "cg_window c" "cg_times c" using cg_reach_invariant [OF assms] by auto
  have w: "2 \<le> cg_cwnd c" "cg_cwnd c \<le> 256" using i(1) by (auto simp: cg_window_def)
  have "is_ok (on_ack now rtt c)" if "rtt \<le> RTT_BOUND" for now rtt
    using on_ack_ok [OF i that, of now] by fastforce
  moreover have "cg_in_flight c < 2 \<longrightarrow> can_send c" "256 \<le> cg_in_flight c \<longrightarrow> \<not> can_send c"
    using f64_to_u32_window [OF w] by (auto simp: can_send_def)
  ultimately show ?thesis using i wait_time_ok [OF i] by (auto simp: cg_window_def)
qed

theorem congestion_window_bounded_witness:
  "2 \<le> cg_cwnd (on_loss (on_packet_sent cg_new))"
proof -
  have "cg_reach (on_loss (on_packet_sent cg_new))"
    by (rule reach_step [OF reach_step [OF reach_new step_sent] step_loss])
  from congestion_window_bounded [OF this] show ?thesis by simp
qed

end
