(* ===== verification/Udp_Stream.thy ===== *)
theory Udp_Stream
  imports Congestion Peer_Message
begin

text \<open>
  The UDP transport (\<open>qvs-transport/src/udp_stream.rs\<close>): the packet codec, sending, receiving and
  retransmission. The clock, the iteration order of the hash map and the success of each send are
  arguments; the operations return the datagrams handed to the socket.
\<close>

section \<open>Packets\<close>

definition MAX_PACKET_SIZE :: nat where "MAX_PACKET_SIZE = 1400"
definition ACK_TIMEOUT :: nat where "ACK_TIMEOUT = millis 500"
definition MAX_RETRANSMITS :: u32 where "MAX_RETRANSMITS = 5"

datatype udp_msg_type = UData | UAck | UNack | UPing | UPong

fun udp_type_u8 :: "udp_msg_type \<Rightarrow> u8" where
  "udp_type_u8 UData = 0"
| "udp_type_u8 UAck = 1"
| "udp_type_u8 UNack = 2"
| "udp_type_u8 UPing = 3"
| "udp_type_u8 UPong = 4"

definition udp_type_from_u8 :: "u8 \<Rightarrow> udp_msg_type option" where
  "udp_type_from_u8 v =
     (if v = 0 then Some UData else if v = 1 then Some UAck else if v = 2 then Some UNack
      else if v = 3 then Some UPing else if v = 4 then Some UPong else None)"

record udp_packet =
  up_type :: udp_msg_type
  up_seq :: u32
  up_piece_index :: u32
  up_block_offset :: u32
  up_payload :: bytes

definition up_new :: "udp_msg_type \<Rightarrow> u32 \<Rightarrow> u32 \<Rightarrow> u32 \<Rightarrow> bytes \<Rightarrow> udp_packet" where
  "up_new t s i b p = \<lparr>up_type = t, up_seq = s, up_piece_index = i, up_block_offset = b, up_payload = p\<rparr>"

definition up_ack :: "u32 \<Rightarrow> udp_packet" where "up_ack s = up_new UAck s 0 0 []"
definition up_nack :: "u32 \<Rightarrow> udp_packet" where "up_nack s = up_new UNack s 0 0 []"

text \<open>The length is cut to 16 bits.\<close>

definition up_encode :: "udp_packet \<Rightarrow> bytes" where
  "up_encode p =
     [udp_type_u8 (up_type p)] @ u32_be (up_seq p) @ u32_be (up_piece_index p) @ u32_be (up_block_offset p) @
     u16_be (of_nat (length (up_payload p))) @ up_payload p"

definition up_decode :: "bytes \<Rightarrow> (udp_packet, qvod_error) result" where
  "up_decode data =
     (if length data < 15 then Err (Protocol ''udp packet too short'')
      else and_then (ok_or (udp_type_from_u8 (data ! 0)) (Protocol (''unknown udp msg type: '' @ show_nat (unat (data ! 0))))) (\<lambda>t.
        let payload_len = unat (u16_from_be (data ! 13) (data ! 14))
        in if length data < 15 + payload_len then Err (Protocol ''udp packet payload truncated'')
           else Ok (up_new t (be32_at 1 data) (be32_at 5 data) (be32_at 9 data) (subslice 15 (15 + payload_len) data))))"

definition up_size :: "udp_packet \<Rightarrow> nat" where "up_size p = 15 + length (up_payload p)"

section \<open>The transport\<close>

record pending_packet =
  pp_packet :: udp_packet
  pp_sent_at :: nat
  pp_retransmits :: u32
  pp_addr :: socket_addr

record udp_transport =
  ut_congestion :: congestion
  ut_seq_counter :: u32
  ut_pending :: "u32 \<rightharpoonup> pending_packet"

type_synonym datagrams = "(bytes \<times> socket_addr) list"

definition ut_new :: udp_transport where
  "ut_new = \<lparr>ut_congestion = cg_new, ut_seq_counter = 1, ut_pending = Map.empty\<rparr>"

definition send_data :: "nat \<Rightarrow> (unit, string) result \<Rightarrow> u32 \<Rightarrow> u32 \<Rightarrow> bytes \<Rightarrow> socket_addr \<Rightarrow> udp_transport \<Rightarrow>
    udp_transport \<times> datagrams \<times> (unit, qvod_error) result" where
  "send_data now sent piece_index block_offset payload addr t =
     (if \<not> can_send (ut_congestion t) then (t, [], Err (Protocol ''congestion window full''))
      else let seq = ut_seq_counter t;
               packet = up_new UData seq piece_index block_offset payload;
               t1 = t\<lparr>ut_seq_counter := seq + 1, ut_congestion := on_packet_sent (ut_congestion t)\<rparr>;
               out = [(up_encode packet, addr)]
           in case map_err Network sent of
                Ok _ \<Rightarrow> (t1\<lparr>ut_pending := (ut_pending t1)(seq \<mapsto>
                  \<lparr>pp_packet = packet, pp_sent_at = now, pp_retransmits = 0, pp_addr = addr\<rparr>)\<rparr>, out, Ok ())
              | r \<Rightarrow> (t1, out, r))"

definition send_ack :: "(unit, string) result \<Rightarrow> u32 \<Rightarrow> socket_addr \<Rightarrow> datagrams \<times> (unit, qvod_error) result" where
  "send_ack sent seq addr = ([(up_encode (up_ack seq), addr)], map_err Network sent)"

text \<open>
  \<open>receive\<close>, given the datagram (cut to the buffer), its sender and whether the send that an answer
  needs succeeds.
\<close>

definition ut_receive :: "nat \<Rightarrow> (unit, string) result \<Rightarrow> bytes \<Rightarrow> socket_addr \<Rightarrow> udp_transport \<Rightarrow>
    udp_transport \<times> datagrams \<times> (udp_packet \<times> socket_addr, qvod_error) result" where
  "ut_receive now sent datagram addr t =
     (case up_decode (take MAX_PACKET_SIZE datagram) of
        Err e \<Rightarrow> (t, [], Err e)
      | Panic \<Rightarrow> (t, [], Panic)
      | Ok packet \<Rightarrow>
          (case up_type packet of
             UAck \<Rightarrow>
               (case on_ack now (millis 50) (ut_congestion t) of
                  Ok c \<Rightarrow> (t\<lparr>ut_congestion := c, ut_pending := (ut_pending t)(up_seq packet := None)\<rparr>, [], Ok (packet, addr))
                | Err e \<Rightarrow> (t, [], Err e)
                | Panic \<Rightarrow> (t, [], Panic))
           | UNack \<Rightarrow>
               (case ut_pending t (up_seq packet) of
                  None \<Rightarrow> (t, [], Ok (packet, addr))
                | Some p \<Rightarrow>
                    (if pp_retransmits p < MAX_RETRANSMITS then
                       (t, [(up_encode (pp_packet p), pp_addr p)], and_then (map_err Network sent) (\<lambda>_. Ok (packet, addr)))
                     else (t, [], Ok (packet, addr))))
           | UPing \<Rightarrow> (t, [(up_encode (up_new UPong (up_seq packet) 0 0 []), addr)], Ok (packet, addr))
           | _ \<Rightarrow> (t, [], Ok (packet, addr))))"

text \<open>The two passes of \<open>retransmit_timeout\<close>; \<open>order\<close> is the iteration order of the map.\<close>

definition is_due :: "nat \<Rightarrow> pending_packet \<Rightarrow> bool" where
  "is_due now p \<longleftrightarrow> ACK_TIMEOUT < now - pp_sent_at p \<and> pp_retransmits p < MAX_RETRANSMITS"

fun retransmit_loop :: "(u32 \<Rightarrow> bool) \<Rightarrow> nat \<Rightarrow> u32 list \<Rightarrow> udp_transport \<Rightarrow> udp_transport \<times> datagrams" where
  "retransmit_loop sent now [] t = (t, [])"
| "retransmit_loop sent now (seq # seqs) t =
     (case ut_pending t seq of
        None \<Rightarrow> retransmit_loop sent now seqs t
      | Some p \<Rightarrow>
          (let t1 = t\<lparr>ut_pending := (ut_pending t)(seq \<mapsto> p\<lparr>pp_retransmits := pp_retransmits p + 1, pp_sent_at := now\<rparr>),
                      ut_congestion := on_loss (ut_congestion t)\<rparr>;
               d = (up_encode (pp_packet p), pp_addr p)
           in if \<not> sent seq then (t1, [d])
              else let (t2, ds) = retransmit_loop sent now seqs t1 in (t2, d # ds)))"

fun expire_loop :: "u32 list \<Rightarrow> udp_transport \<Rightarrow> udp_transport" where
  "expire_loop [] t = t"
| "expire_loop (seq # seqs) t =
     expire_loop seqs (t\<lparr>ut_congestion := on_timeout (ut_congestion t), ut_pending := (ut_pending t)(seq := None)\<rparr>)"

definition seqs_with :: "(pending_packet \<Rightarrow> bool) \<Rightarrow> u32 list \<Rightarrow> (u32 \<rightharpoonup> pending_packet) \<Rightarrow> u32 list" where
  "seqs_with P order m = filter (\<lambda>s. case m s of Some p \<Rightarrow> P p | None \<Rightarrow> False) order"

definition retransmit_timeout :: "(u32 \<Rightarrow> bool) \<Rightarrow> nat \<Rightarrow> u32 list \<Rightarrow> udp_transport \<Rightarrow> udp_transport \<times> datagrams" where
  "retransmit_timeout sent now order t =
     (let (t1, ds) = retransmit_loop sent now (seqs_with (is_due now) order (ut_pending t)) t
      in (expire_loop (seqs_with (\<lambda>p. MAX_RETRANSMITS \<le> pp_retransmits p) order (ut_pending t1)) t1, ds))"

section \<open>The codec and the receive buffer\<close>

lemma udp_type_from_u8_u8 [codec, simp]: "udp_type_from_u8 (udp_type_u8 t) = Some t"
  by (cases t) (simp_all add: udp_type_from_u8_def)

lemma up_decode_encode:
  assumes "length (up_payload p) < 2 ^ 16"
  shows "up_decode (up_encode p) = Ok p"
proof -
  have "unat (of_nat (length (up_payload p)) :: u16) = length (up_payload p)"
    using assms by (simp add: unat_of_nat)
  moreover have "be32_at 1 (up_encode p) = up_seq p" "be32_at 5 (up_encode p) = up_piece_index p"
    "be32_at 9 (up_encode p) = up_block_offset p" "up_encode p ! 0 = udp_type_u8 (up_type p)"
    "u16_from_be (up_encode p ! 13) (up_encode p ! 14) = of_nat (length (up_payload p))"
    by (simp_all add: up_encode_def be32_at_def u32_be_def u16_be_def)
  moreover have "length (up_encode p) = 15 + length (up_payload p)" "drop 15 (up_encode p) = up_payload p"
    by (simp_all add: up_encode_def u32_be_def u16_be_def)
  ultimately show ?thesis by (simp add: up_decode_def up_new_def subslice_def)
qed

lemma up_decode_length:
  assumes "up_decode bs = Ok p"
  shows "15 + length (up_payload p) \<le> length bs \<and> length (up_payload p) < 2 ^ 16"
proof (cases "udp_type_from_u8 (bs ! 0)")
  case None
  with assms show ?thesis by (auto simp: up_decode_def split: if_splits)
next
  case (Some t)
  let ?w = "u16_from_be (bs ! 13) (bs ! 14)"
  from Some assms have "15 + unat ?w \<le> length bs" "p = up_new t (be32_at 1 bs) (be32_at 5 bs) (be32_at 9 bs) (subslice 15 (15 + unat ?w) bs)"
    by (auto simp: up_decode_def Let_def split: if_splits)
  then show ?thesis using unsigned_less [of ?w] by (simp add: up_new_def)
qed

lemma udp_packet_decodes:
  "length (up_payload p) \<le> 1385 \<Longrightarrow> up_decode (take MAX_PACKET_SIZE (up_encode p)) = Ok p"
  using up_decode_encode [of p] by (simp add: MAX_PACKET_SIZE_def up_encode_def u32_be_def u16_be_def)

text \<open>
  Decoding what was encoded gives the packet back exactly when the 16-bit length can express the
  payload; the receiver, whose buffer has 1400 bytes, decodes a sent packet exactly when the payload
  has at most 1385 bytes, so a full block of 16 KiB never arrives.
\<close>

theorem udp_packet_delivery:
  "(up_decode (up_encode p) = Ok p \<longleftrightarrow> length (up_payload p) < 2 ^ 16) \<and>
   (up_decode (take MAX_PACKET_SIZE (up_encode p)) = Ok p \<longleftrightarrow> length (up_payload p) \<le> 1385)"
proof (intro conjI iffI)
  show "length (up_payload p) < 2 ^ 16" if "up_decode (up_encode p) = Ok p"
    using up_decode_length [OF that] by simp
  show "length (up_payload p) \<le> 1385" if "up_decode (take MAX_PACKET_SIZE (up_encode p)) = Ok p"
    using up_decode_length [OF that] by (simp add: MAX_PACKET_SIZE_def)
  show "up_decode (take MAX_PACKET_SIZE (up_encode p)) = Ok p" if "length (up_payload p) \<le> 1385"
    using that by (rule udp_packet_decodes)
qed (rule up_decode_encode)

section \<open>The operations as a step relation\<close>

inductive ut_step :: "udp_transport \<Rightarrow> udp_transport \<Rightarrow> bool" where
  step_send: "ut_step t (fst (send_data now sent i b payload addr t))"
| step_receive: "ut_step t (fst (ut_receive now sent datagram addr t))"
| step_retransmit: "set order = dom (ut_pending t) \<Longrightarrow> distinct order \<Longrightarrow> ut_step t (fst (retransmit_timeout sent now order t))"

inductive ut_reach :: "udp_transport \<Rightarrow> bool" where
  ut_reach_new: "ut_reach ut_new"
| ut_reach_step: "ut_reach t \<Longrightarrow> ut_step t t' \<Longrightarrow> ut_reach t'"

definition pending_ok :: "(pending_packet \<Rightarrow> bool) \<Rightarrow> (u32 \<rightharpoonup> pending_packet) \<Rightarrow> bool" where
  "pending_ok P m \<longleftrightarrow> (\<forall>s p. m s = Some p \<longrightarrow> up_type (pp_packet p) = UData \<and> up_seq (pp_packet p) = s \<and> P p)"

definition ut_inv :: "udp_transport \<Rightarrow> bool" where
  "ut_inv t \<longleftrightarrow> cg_reach (ut_congestion t) \<and> pending_ok (\<lambda>p. pp_retransmits p < MAX_RETRANSMITS) (ut_pending t)"

lemma on_ack_reach:
  assumes "cg_reach c"
  shows "\<exists>c'. on_ack now (millis 50) c = Ok c' \<and> cg_reach c'"
proof -
  have "millis 50 \<le> RTT_BOUND" by (simp add: millis_def RTT_BOUND_def)
  with on_ack_ok cg_reach_invariant [OF assms] obtain c' where "on_ack now (millis 50) c = Ok c'" by blast
  with step_ack \<open>millis 50 \<le> RTT_BOUND\<close> reach_step [OF assms] show ?thesis by blast
qed

text \<open>The effect of the two passes on the map, and on the congestion state.\<close>

definition bump :: "nat \<Rightarrow> pending_packet \<Rightarrow> pending_packet" where
  "bump now p = p\<lparr>pp_retransmits := pp_retransmits p + 1, pp_sent_at := now\<rparr>"

definition resent :: "nat \<Rightarrow> u32 \<Rightarrow> pending_packet \<Rightarrow> udp_transport \<Rightarrow> udp_transport" where
  "resent now seq p t = t\<lparr>ut_pending := (ut_pending t)(seq \<mapsto> bump now p), ut_congestion := on_loss (ut_congestion t)\<rparr>"

lemma retransmit_loop_Cons:
  "fst (retransmit_loop sent now (seq # seqs) t) =
     (case ut_pending t seq of
        None \<Rightarrow> fst (retransmit_loop sent now seqs t)
      | Some p \<Rightarrow> if sent seq then fst (retransmit_loop sent now seqs (resent now seq p t)) else resent now seq p t)"
  by (simp add: resent_def bump_def Let_def split: option.splits prod.splits)

lemma retransmit_loop_frame:
  "cg_reach (ut_congestion t) \<Longrightarrow> cg_reach (ut_congestion (fst (retransmit_loop sent now seqs t)))"
proof (induction seqs arbitrary: t)
  case (Cons seq seqs)
  have "cg_reach (ut_congestion (resent now seq p t))" for p
    using reach_step [OF Cons.prems step_loss] by (simp add: resent_def)
  with Cons show ?case by (simp add: retransmit_loop_Cons split: option.split del: retransmit_loop.simps)
qed simp

lemma retransmit_loop_pending:
  "distinct seqs \<Longrightarrow> ut_pending (fst (retransmit_loop sent now seqs t)) s = ut_pending t s \<or>
     s \<in> set seqs \<and> ut_pending (fst (retransmit_loop sent now seqs t)) s = map_option (bump now) (ut_pending t s)"
proof (induction seqs arbitrary: t)
  case (Cons seq seqs)
  show ?case
  proof (cases "ut_pending t seq")
    case None
    with Cons show ?thesis by (simp add: retransmit_loop_Cons del: retransmit_loop.simps) blast
  next
    case (Some p)
    have "ut_pending (resent now seq p t) s = (if s = seq then Some (bump now p) else ut_pending t s)"
      by (simp add: resent_def)
    with Cons.IH [of "resent now seq p t"] Cons.prems Some show ?thesis
      by (auto simp: retransmit_loop_Cons simp del: retransmit_loop.simps)
  qed
qed simp

lemma retransmit_loop_all:
  "distinct seqs \<Longrightarrow> \<forall>s. sent s \<Longrightarrow> ut_pending (fst (retransmit_loop sent now seqs t)) s =
    (if s \<in> set seqs then map_option (bump now) (ut_pending t s) else ut_pending t s)"
proof (induction seqs arbitrary: t)
  case (Cons seq seqs)
  show ?case
  proof (cases "ut_pending t seq")
    case None
    with Cons show ?thesis by (simp add: retransmit_loop_Cons del: retransmit_loop.simps)
  next
    case (Some p)
    have "ut_pending (resent now seq p t) s = (if s = seq then Some (bump now p) else ut_pending t s)"
      by (simp add: resent_def)
    with Cons.IH [of "resent now seq p t"] Cons.prems Some show ?thesis
      by (auto simp: retransmit_loop_Cons simp del: retransmit_loop.simps)
  qed
qed simp

lemma expire_loop_reach:
  "cg_reach (ut_congestion t) \<Longrightarrow> cg_reach (ut_congestion (expire_loop seqs t))"
proof (induction seqs arbitrary: t)
  case (Cons seq seqs)
  show ?case using Cons.IH reach_step [OF Cons.prems step_timeout] by simp
qed simp

lemma expire_loop_pending:
  "ut_pending (expire_loop seqs t) s = (if s \<in> set seqs then None else ut_pending t s)"
  by (induction seqs arbitrary: t) auto

lemma seqs_with_iff: "s \<in> set (seqs_with P order m) \<longleftrightarrow> s \<in> set order \<and> (\<exists>p. m s = Some p \<and> P p)"
  by (auto simp: seqs_with_def split: option.splits)

lemma retransmit_timeout_pending:
  assumes "distinct order" and "dom (ut_pending t) \<subseteq> set order" and "pending_ok (\<lambda>p. pp_retransmits p < MAX_RETRANSMITS) (ut_pending t)"
  shows "pending_ok (\<lambda>p. pp_retransmits p < MAX_RETRANSMITS) (ut_pending (fst (retransmit_timeout sent now order t)))"
  unfolding pending_ok_def
proof (intro allI impI)
  fix s p
  let ?todo = "seqs_with (is_due now) order (ut_pending t)"
  let ?t1 = "fst (retransmit_loop sent now ?todo t)"
  assume "ut_pending (fst (retransmit_timeout sent now order t)) s = Some p"
  then have p: "ut_pending ?t1 s = Some p" and k: "\<not> (s \<in> set order \<and> MAX_RETRANSMITS \<le> pp_retransmits p)"
    by (auto simp: retransmit_timeout_def expire_loop_pending seqs_with_iff split: prod.splits if_splits)
  have "distinct ?todo" using assms(1) by (simp add: seqs_with_def)
  from retransmit_loop_pending [OF this, of sent now t s] p obtain q where
    q: "ut_pending t s = Some q" "p = q \<or> p = bump now q" by (cases "ut_pending t s") auto
  then have "s \<in> set order" using assms(2) by auto
  with k q assms(3) show "up_type (pp_packet p) = UData \<and> up_seq (pp_packet p) = s \<and> pp_retransmits p < MAX_RETRANSMITS"
    by (fastforce simp: pending_ok_def bump_def not_le)
qed

lemma ut_step_inv:
  assumes "ut_step t t'" and "ut_inv t"
  shows "ut_inv t'"
  using assms(1)
proof cases
  case (step_send now sent i b payload addr)
  have "cg_reach (on_packet_sent (ut_congestion t))"
    using assms(2) reach_step [OF _ step_sent] by (simp add: ut_inv_def)
  then show ?thesis using assms(2) unfolding step_send
    by (cases sent) (auto simp: send_data_def ut_inv_def pending_ok_def up_new_def Let_def MAX_RETRANSMITS_def)
next
  case (step_receive now sent datagram addr)
  from assms(2) on_ack_reach obtain c where "on_ack now (millis 50) (ut_congestion t) = Ok c" "cg_reach c"
    by (auto simp: ut_inv_def)
  then show ?thesis using assms(2) unfolding step_receive
    by (auto simp: ut_receive_def ut_inv_def pending_ok_def split: result.split udp_msg_type.split option.split)
next
  case (step_retransmit order sent now)
  have "cg_reach (ut_congestion t')" using assms(2) unfolding step_retransmit
    by (auto simp: retransmit_timeout_def ut_inv_def split: prod.split intro!: expire_loop_reach)
      (metis fst_conv retransmit_loop_frame)
  then show ?thesis using assms(2) retransmit_timeout_pending [of order t sent now] step_retransmit by (simp add: ut_inv_def)
qed

lemma ut_reach_inv: "ut_reach t \<Longrightarrow> ut_inv t"
proof (induction rule: ut_reach.induct)
  case ut_reach_new
  show ?case by (simp add: ut_new_def ut_inv_def pending_ok_def reach_new)
qed (rule ut_step_inv)

lemma up_decode_no_panic: "up_decode bs \<noteq> Panic"
  by (cases "udp_type_from_u8 (bs ! 0)") (simp_all add: up_decode_def Let_def)

text \<open>Rounds of retransmission that come late enough for every packet; the first part of a round tells which sends succeed.\<close>

fun late_rounds :: "((u32 \<Rightarrow> bool) \<times> nat \<times> u32 list) list \<Rightarrow> udp_transport \<Rightarrow> udp_transport option" where
  "late_rounds [] t = Some t"
| "late_rounds ((sent, now, order) # rs) t =
     (if distinct order \<and> set order = dom (ut_pending t) \<and> (\<forall>s \<in> set order. ACK_TIMEOUT < now - pp_sent_at (the (ut_pending t s)))
      then late_rounds rs (fst (retransmit_timeout sent now order t)) else None)"

lemma late_due:
  assumes "ut_inv t" and "distinct order" and "set order = dom (ut_pending t)"
    and "\<forall>s \<in> set order. ACK_TIMEOUT < now - pp_sent_at (the (ut_pending t s))"
  shows "set (seqs_with (is_due now) order (ut_pending t)) = dom (ut_pending t)"
    and "distinct (seqs_with (is_due now) order (ut_pending t))"
proof -
  have "is_due now p" if p: "ut_pending t s = Some p" for s p
  proof -
    have "s \<in> set order" using p assms(3) by auto
    with assms(4) p have "ACK_TIMEOUT < now - pp_sent_at p" by (metis option.sel)
    moreover have "pp_retransmits p < MAX_RETRANSMITS" using assms(1) p by (simp add: ut_inv_def pending_ok_def)
    ultimately show ?thesis by (simp add: is_due_def)
  qed
  then show "set (seqs_with (is_due now) order (ut_pending t)) = dom (ut_pending t)"
    by (auto simp: seqs_with_iff assms(3))
  show "distinct (seqs_with (is_due now) order (ut_pending t))" using assms(2) by (simp add: seqs_with_def)
qed

lemma late_round:
  assumes "ut_inv t" and "distinct order" and "set order = dom (ut_pending t)"
    and "\<forall>s \<in> set order. ACK_TIMEOUT < now - pp_sent_at (the (ut_pending t s))"
    and "\<forall>s. sent s"
  shows "ut_pending (fst (retransmit_timeout sent now order t)) s =
    (case ut_pending t s of None \<Rightarrow> None | Some p \<Rightarrow> if MAX_RETRANSMITS \<le> pp_retransmits p + 1 then None else Some (bump now p))"
proof -
  let ?todo = "seqs_with (is_due now) order (ut_pending t)"
  have "ut_pending (fst (retransmit_loop sent now ?todo t)) s = map_option (bump now) (ut_pending t s)" for s
    using retransmit_loop_all [OF late_due(2) [OF assms(1-4)] assms(5), of now t s] late_due(1) [OF assms(1-4)] by (auto simp: domIff)
  then show ?thesis using assms(3)
    by (auto simp: retransmit_timeout_def expire_loop_pending seqs_with_iff bump_def split: prod.splits option.splits)
qed

lemma late_rounds_progress:
  assumes "ut_inv t" and "late_rounds rs t = Some t'" and "\<forall>r \<in> set rs. \<forall>s. fst r s" and "5 \<le> k + length rs" and "\<forall>p \<in> ran (ut_pending t). k \<le> unat (pp_retransmits p)"
  shows "ut_pending t' = Map.empty \<or> rs = [] \<and> t' = t"
  using assms
proof (induction rs arbitrary: t k)
  case (Cons r rs)
  obtain sent now order where r: "r = (sent, now, order)" by (cases r)
  let ?t1 = "fst (retransmit_timeout sent now order t)"
  have o: "distinct order" "set order = dom (ut_pending t)" "\<forall>s \<in> set order. ACK_TIMEOUT < now - pp_sent_at (the (ut_pending t s))"
    and n: "late_rounds rs ?t1 = Some t'" using Cons.prems(2) by (auto simp: r split: if_splits)
  have sent: "\<forall>s. sent s" using Cons.prems(3) by (simp add: r)
  have i: "ut_inv ?t1" using ut_step_inv [OF step_retransmit [OF o(2,1)] Cons.prems(1)] .
  have k: "Suc k \<le> unat (pp_retransmits p)" "Suc k < 5" if "p \<in> ran (ut_pending ?t1)" for p
  proof -
    from that obtain s q where q: "ut_pending t s = Some q" "p = bump now q" "\<not> MAX_RETRANSMITS \<le> pp_retransmits q + 1"
      by (auto simp: ran_def late_round [OF Cons.prems(1) o sent] split: option.splits if_splits)
    have "k \<le> unat (pp_retransmits q)" using Cons.prems(5) q(1) by (auto simp: ran_def)
    moreover have "unat (pp_retransmits q) < 5"
      using Cons.prems(1) q(1) by (auto simp: ut_inv_def pending_ok_def MAX_RETRANSMITS_def word_less_nat_alt)
    moreover from this have "unat (pp_retransmits q + 1) = unat (pp_retransmits q) + 1"
      by (simp add: unat_word_ariths)
    ultimately show "Suc k \<le> unat (pp_retransmits p)" "Suc k < 5"
      using q(2,3) by (auto simp: bump_def MAX_RETRANSMITS_def word_le_nat_alt)
  qed
  show ?case
  proof (cases rs)
    case Nil
    with Cons.prems(4) k n have "ran (ut_pending t') = {}" by fastforce
    then show ?thesis by (auto simp: ran_def fun_eq_iff) (metis not_None_eq)
  next
    case (Cons r' rs')
    with Cons.IH [OF i n, of "Suc k"] Cons.prems(3,4) k(1) show ?thesis by auto
  qed
qed simp

text \<open>
  Where sends fail, a late round still counts up the first packet it comes to, so the resends that are left to the packets
  add up to less after it.
\<close>

definition resends_left :: "udp_transport \<Rightarrow> u32 \<Rightarrow> nat" where
  "resends_left t s = (case ut_pending t s of None \<Rightarrow> 0 | Some p \<Rightarrow> 5 - unat (pp_retransmits p))"

lemma bump_left:
  assumes "pp_retransmits q < MAX_RETRANSMITS"
  shows "5 - unat (pp_retransmits (bump now q)) < 5 - unat (pp_retransmits q)"
proof -
  have "unat (pp_retransmits q) < 5" using assms by (simp add: MAX_RETRANSMITS_def word_less_nat_alt)
  moreover from this have "unat (pp_retransmits q + 1) = unat (pp_retransmits q) + 1" by (simp add: unat_word_ariths)
  ultimately show ?thesis by (simp add: bump_def)
qed

lemma late_round_less:
  assumes "ut_inv t" and "distinct order" and "set order = dom (ut_pending t)"
    and "\<forall>s \<in> set order. ACK_TIMEOUT < now - pp_sent_at (the (ut_pending t s))" and "ut_pending t \<noteq> Map.empty"
  shows "sum (resends_left (fst (retransmit_timeout sent now order t))) UNIV < sum (resends_left t) UNIV"
proof -
  let ?todo = "seqs_with (is_due now) order (ut_pending t)"
  let ?t1 = "fst (retransmit_loop sent now ?todo t)"
  note todo = late_due [OF assms(1-4)]
  have after: "ut_pending (fst (retransmit_timeout sent now order t)) s = ut_pending ?t1 s \<or>
      ut_pending (fst (retransmit_timeout sent now order t)) s = None" for s
    by (auto simp: retransmit_timeout_def expire_loop_pending split: prod.split)
  have small: "pp_retransmits q < MAX_RETRANSMITS" if "ut_pending t s = Some q" for s q
    using assms(1) that by (simp add: ut_inv_def pending_ok_def)
  have le: "resends_left (fst (retransmit_timeout sent now order t)) s \<le> resends_left t s" for s
    using after [of s] retransmit_loop_pending [OF todo(2), of sent now t s] small [of s] bump_left [of _ now]
    by (cases "ut_pending t s") (auto simp: resends_left_def intro: less_imp_le)
  from assms(5) todo(1) obtain s seqs where s: "?todo = s # seqs" by (cases ?todo) auto
  with todo(1) obtain q where q: "ut_pending t s = Some q" by auto
  have "s \<notin> set seqs" "distinct seqs" using todo(2) by (simp_all add: s)
  then have "ut_pending ?t1 s = Some (bump now q)"
    using retransmit_loop_pending [of seqs sent now "resent now s q t" s]
    by (simp add: s retransmit_loop_Cons q resent_def del: retransmit_loop.simps)
  with after [of s] q bump_left [OF small [OF q], of now] small [OF q]
  have "resends_left (fst (retransmit_timeout sent now order t)) s < resends_left t s"
    by (auto simp: resends_left_def MAX_RETRANSMITS_def word_less_nat_alt)
  with le show ?thesis by (intro sum_strict_mono_ex1) auto
qed

lemma late_rounds_end:
  assumes "ut_inv t" and "late_rounds rs t = Some t'" and "sum (resends_left t) UNIV \<le> length rs"
  shows "ut_pending t' = Map.empty"
  using assms
proof (induction rs arbitrary: t)
  case Nil
  have "ut_pending t s = None" for s
  proof (rule ccontr)
    assume "ut_pending t s \<noteq> None"
    then obtain q where q: "ut_pending t s = Some q" by blast
    with Nil.prems(1) have "0 < resends_left t s"
      by (simp add: ut_inv_def pending_ok_def resends_left_def MAX_RETRANSMITS_def word_less_nat_alt)
    then show False using Nil.prems(3) by simp
  qed
  with Nil.prems(2) show ?case by auto
next
  case (Cons r rs)
  obtain sent now order where r: "r = (sent, now, order)" by (cases r)
  let ?t1 = "fst (retransmit_timeout sent now order t)"
  have o: "distinct order" "set order = dom (ut_pending t)" "\<forall>s \<in> set order. ACK_TIMEOUT < now - pp_sent_at (the (ut_pending t s))"
    and n: "late_rounds rs ?t1 = Some t'" using Cons.prems(2) by (auto simp: r split: if_splits)
  have i: "ut_inv ?t1" using ut_step_inv [OF step_retransmit [OF o(2,1)] Cons.prems(1)] .
  have "sum (resends_left ?t1) UNIV \<le> length rs"
  proof (cases "ut_pending t = Map.empty")
    case True
    then have "order = []" using o(2) by auto
    then have "?t1 = t" by (simp add: retransmit_timeout_def seqs_with_def)
    then show ?thesis using True by (simp add: resends_left_def)
  next
    case False
    from late_round_less [OF Cons.prems(1) o False, of sent] Cons.prems(3) show ?thesis by simp
  qed
  with Cons.IH [OF i n] show ?case by simp
qed

lemma resends_left_bound: "sum (resends_left t) UNIV \<le> 5 * card (dom (ut_pending t))"
proof -
  have "sum (resends_left t) UNIV = sum (resends_left t) (dom (ut_pending t))"
    by (rule sum.mono_neutral_right) (auto simp: resends_left_def split: option.splits)
  also have "\<dots> \<le> card (dom (ut_pending t)) * 5"
    using sum_bounded_above [of "dom (ut_pending t)" "resends_left t" 5] by (auto simp: resends_left_def split: option.split)
  finally show ?thesis by simp
qed

text \<open>
  C13: in every reachable state of the transport the unacknowledged packets are data packets under
  their own sequence numbers, resent on a timeout fewer than five times (what a Nack asks for is resent
  without being counted); receiving never panics; an acknowledgement removes its packet and no other; and after five
  rounds of timeouts nothing is pending if every send succeeds, while if sends may fail five rounds for each packet
  are enough.
\<close>

theorem udp_transport_safe:
  assumes "ut_reach t"
  shows "(\<forall>s p. ut_pending t s = Some p \<longrightarrow> up_type (pp_packet p) = UData \<and> up_seq (pp_packet p) = s \<and> pp_retransmits p < 5) \<and>
    (\<forall>now sent bs a. sent \<noteq> Panic \<longrightarrow> snd (snd (ut_receive now sent bs a t)) \<noteq> Panic) \<and>
    (\<forall>now sent s a. ut_pending (fst (ut_receive now sent (up_encode (up_ack s)) a t)) = (ut_pending t)(s := None)) \<and>
    (\<forall>rs t'. length rs = 5 \<and> (\<forall>r \<in> set rs. \<forall>s. fst r s) \<and> late_rounds rs t = Some t' \<longrightarrow> ut_pending t' = Map.empty) \<and>
    (\<forall>rs t'. 5 * card (dom (ut_pending t)) \<le> length rs \<and> late_rounds rs t = Some t' \<longrightarrow> ut_pending t' = Map.empty)"
proof (intro conjI allI impI)
  note i = ut_reach_inv [OF assms]
  from i have c: "cg_reach (ut_congestion t)" by (simp add: ut_inv_def)
  show "up_type (pp_packet p) = UData" "up_seq (pp_packet p) = s" "pp_retransmits p < 5" if "ut_pending t s = Some p" for s p
    using that i by (auto simp: ut_inv_def pending_ok_def MAX_RETRANSMITS_def)
  show "snd (snd (ut_receive now sent bs a t)) \<noteq> Panic" if "sent \<noteq> Panic" for now sent bs a
    using that on_ack_reach [OF c, of now] up_decode_no_panic [of "take MAX_PACKET_SIZE bs"]
    by (cases sent) (auto simp: ut_receive_def split: result.split udp_msg_type.split option.split)
  show "ut_pending (fst (ut_receive now sent (up_encode (up_ack s)) a t)) = (ut_pending t)(s := None)" for now sent s a
  proof -
    have "up_decode (take MAX_PACKET_SIZE (up_encode (up_ack s))) = Ok (up_ack s)"
      using udp_packet_decodes [of "up_ack s"] by (simp add: up_ack_def up_new_def)
    with on_ack_reach [OF c, of now] show ?thesis by (auto simp: ut_receive_def up_ack_def up_new_def)
  qed
  show "ut_pending t' = Map.empty" if "length rs = 5 \<and> (\<forall>r \<in> set rs. \<forall>s. fst r s) \<and> late_rounds rs t = Some t'" for rs t'
    using late_rounds_progress [OF i, of rs t' 0] that by auto
  show "ut_pending t' = Map.empty" if "5 * card (dom (ut_pending t)) \<le> length rs \<and> late_rounds rs t = Some t'" for rs t'
    using late_rounds_end [OF i, of rs t'] resends_left_bound [of t] that by simp
qed

text \<open>One packet sent and not yet acknowledged.\<close>

definition sample_addr :: socket_addr where
  "sample_addr = \<lparr>sa_ip = V4 [127, 0, 0, 1], sa_port = 8621\<rparr>"

definition sample_transport :: udp_transport where
  "sample_transport = fst (send_data 0 (Ok ()) 3 0 [1, 2] sample_addr ut_new)"

lemma sample_transport_pending:
  "ut_pending sample_transport = [1 \<mapsto> \<lparr>pp_packet = up_new UData 1 3 0 [1, 2], pp_sent_at = 0, pp_retransmits = 0, pp_addr = sample_addr\<rparr>]"
proof -
  have "can_send cg_new" using congestion_window_bounded [OF reach_new] by (simp add: cg_new_def)
  then show ?thesis by (simp add: sample_transport_def send_data_def ut_new_def Let_def)
qed

theorem udp_transport_safe_witness:
  "ut_pending (fst (ut_receive 7 (Ok ()) (up_encode (up_ack 1)) sample_addr sample_transport)) = Map.empty \<and>
   pp_retransmits (the (ut_pending sample_transport 1)) < 5"
proof -
  have "ut_reach sample_transport"
    unfolding sample_transport_def by (rule ut_reach_step [OF ut_reach_new step_send])
  from udp_transport_safe [OF this]
  have "\<forall>now sent s a. ut_pending (fst (ut_receive now sent (up_encode (up_ack s)) a sample_transport)) = (ut_pending sample_transport)(s := None)"
    "\<forall>s p. ut_pending sample_transport s = Some p \<longrightarrow> pp_retransmits p < 5"
    by blast+
  then show ?thesis by (simp add: sample_transport_pending)
qed

end
