(* ===== verification/Cache.thy ===== *)
theory Cache
  imports Qvs_File Bitfield File_Meta Float64 "HOL-Library.Multiset"
begin

text \<open>
  The file cache (\<open>qvs-format/src/cache.rs\<close>). The file system is a map from paths to contents; the
  outcome of each system call, how many bytes a write or a read transfers, and the clock are
  arguments. As documented for \<open>tokio::fs::File\<close>, a write may return before its data is in the file, and dropping the
  file without a flush leaves the rest to a thread in the background: such writes in flight are part of the state.
\<close>

section \<open>Paths and files\<close>

type_synonym files = "string \<rightharpoonup> bytes"

definition path_join :: "string \<Rightarrow> string \<Rightarrow> string" where
  "path_join a b = (if a = [] \<or> last a = CHR ''/'' then a @ b else a @ ''/'' @ b)"

text \<open>Writing at a position: a gap after the end of the file is filled with zeros.\<close>

definition write_at :: "nat \<Rightarrow> bytes \<Rightarrow> bytes \<Rightarrow> bytes" where
  "write_at off data file =
     (if data = [] then file
      else take off (file @ replicate (off - length file) 0) @ data @ drop (off + length data) file)"

definition read_at :: "nat \<Rightarrow> nat \<Rightarrow> bytes \<Rightarrow> bytes" where
  "read_at off n file = take n (drop off file)"

section \<open>State\<close>

record cache_config =
  cf_cache_dir :: string
  cf_max_size :: u64
  cf_max_files :: u32

definition cache_config_default :: "string option \<Rightarrow> cache_config" where
  "cache_config_default data_dir =
     \<lparr>cf_cache_dir = path_join (path_join (case data_dir of Some d \<Rightarrow> d | None \<Rightarrow> ''.'') ''qvs'') ''cache'',
      cf_max_size = 10 * 1024 * 1024 * 1024, cf_max_files = 1000\<rparr>"

record cache_entry =
  ce_info_hash :: info_hash
  ce_file_size :: u64
  ce_downloaded :: u64
  ce_bitfield :: bitfield
  ce_last_access :: nat
  ce_created_at :: nat

text \<open>A write in flight: the path of the file, the position, the data. An error it meets is seen by nobody.\<close>

record flight =
  fl_path :: string
  fl_offset :: nat
  fl_data :: bytes

record cache =
  ca_config :: cache_config
  ca_entries :: "cache_entry list"
  ca_files :: files
  ca_flights :: "flight list"

definition cache_new :: "cache_config \<Rightarrow> files \<Rightarrow> cache" where
  "cache_new c fs = \<lparr>ca_config = c, ca_entries = [], ca_files = fs, ca_flights = []\<rparr>"

definition qdata_path :: "cache_config \<Rightarrow> info_hash \<Rightarrow> string" where
  "qdata_path c h = path_join (path_join (cf_cache_dir c) ''qdata'') (show_info_hash h @ ''.qdata'')"

definition qmv_path :: "cache_config \<Rightarrow> info_hash \<Rightarrow> string" where
  "qmv_path c h = path_join (path_join (cf_cache_dir c) ''qmv'') (show_info_hash h @ ''.qmv'')"

section \<open>Operations\<close>

text \<open>The metadata file of an info hash, read and decoded (\<open>None\<close> if it does not exist or is damaged).\<close>

definition load_qmv :: "bool \<Rightarrow> cache \<Rightarrow> info_hash \<Rightarrow> qvs_file option" where
  "load_qmv read_ok c h =
     (case ca_files c (qmv_path (ca_config c) h) of
        None \<Rightarrow> None
      | Some data \<Rightarrow> if read_ok then res_ok (qvs_decode data) else None)"

definition find_entry :: "nat \<Rightarrow> bool \<Rightarrow> cache \<Rightarrow> info_hash \<Rightarrow> cache_entry option" where
  "find_entry now read_ok c h =
     map_option (\<lambda>f.
       let s = unat (qf_file_size f); p = unat (qf_piece_length f);
           n = (if 0 < p then of_nat ((s + p - 1) div p) else 0)
       in \<lparr>ce_info_hash = qf_info_hash f, ce_file_size = qf_file_size f, ce_downloaded = 0, ce_bitfield = bitfield_new n,
           ce_last_access = now, ce_created_at = now\<rparr>)
     (load_qmv read_ok c h)"

definition cache_find :: "bool \<Rightarrow> cache \<Rightarrow> info_hash \<Rightarrow> file_meta option" where
  "cache_find read_ok c h =
     map_option (\<lambda>f.
       \<lparr>fm_info_hash = qf_info_hash f, fm_filename = qf_filename f, fm_file_size = qf_file_size f,
        fm_piece_length = qf_piece_length f, fm_pieces = qf_pieces f, fm_keyframe_index = None, fm_duration_ms = 0,
        fm_video_codec = None, fm_audio_codec = None, fm_width = 0, fm_height = 0, fm_bitrate = 0, fm_from_cache = True\<rparr>)
     (load_qmv read_ok c h)"

text \<open>
  \<open>read\<close>: \<open>n\<close> is the number of bytes the system call would return at most; opening a file that does not
  exist fails.
\<close>

definition cache_read :: "(unit, string) result \<Rightarrow> nat \<Rightarrow> cache \<Rightarrow> info_hash \<Rightarrow> u64 \<Rightarrow> u64 \<Rightarrow> (bytes, qvod_error) result" where
  "cache_read io n c h offset len =
     (case ca_files c (qdata_path (ca_config c) h) of
        None \<Rightarrow> Err (Network ''not found'')
      | Some file \<Rightarrow> and_then (map_err Network io) (\<lambda>_. Ok (read_at (unat offset) (min n (unat len)) file)))"

text \<open>The entry of a written file: updated if there is one, else added.\<close>

fun touch_entry :: "nat \<Rightarrow> info_hash \<Rightarrow> u64 \<Rightarrow> cache_entry list \<Rightarrow> cache_entry list" where
  "touch_entry now h end_pos [] =
     [\<lparr>ce_info_hash = h, ce_file_size = end_pos, ce_downloaded = end_pos, ce_bitfield = bitfield_new 0,
       ce_last_access = now, ce_created_at = now\<rparr>]"
| "touch_entry now h end_pos (e # es) =
     (if ce_info_hash e = h then e\<lparr>ce_downloaded := max (ce_downloaded e) end_pos, ce_last_access := now\<rparr> # es
      else e # touch_entry now h end_pos es)"

text \<open>
  \<open>write\<close>: the outcome of creating the directory and opening the file, of seeking, and of writing. \<open>wi_written\<close> is how
  many bytes are in the file when \<open>write_all\<close> returns: when it fails, the others are lost, when it succeeds, they are in flight.
\<close>

record write_io =
  wi_mkdir :: "(unit, string) result"
  wi_open :: "(unit, string) result"
  wi_seek :: "(unit, string) result"
  wi_write :: "(unit, string) result"
  wi_written :: nat

definition in_flight :: "string \<Rightarrow> nat \<Rightarrow> nat \<Rightarrow> bytes \<Rightarrow> flight list" where
  "in_flight path offset n data =
     (if drop n data = [] then [] else [\<lparr>fl_path = path, fl_offset = offset + n, fl_data = drop n data\<rparr>])"

definition cache_write :: "nat \<Rightarrow> write_io \<Rightarrow> info_hash \<Rightarrow> u64 \<Rightarrow> bytes \<Rightarrow> cache \<Rightarrow> cache \<times> (unit, qvod_error) result" where
  "cache_write now io h offset data c =
     (case map_err Network (and_then (wi_mkdir io) (\<lambda>_. wi_open io)) of
        Ok _ \<Rightarrow>
          (let path = qdata_path (ca_config c) h;
               file = (case ca_files c path of Some f \<Rightarrow> f | None \<Rightarrow> []);
               opened = c\<lparr>ca_files := (ca_files c)(path \<mapsto> file)\<rparr>
           in case map_err Network (wi_seek io) of
                Ok _ \<Rightarrow>
                  (case map_err Network (wi_write io) of
                     Ok _ \<Rightarrow>
                       (c\<lparr>ca_files := (ca_files c)(path \<mapsto> write_at (unat offset) (take (wi_written io) data) file),
                          ca_flights := ca_flights c @ in_flight path (unat offset) (wi_written io) data,
                          ca_entries := touch_entry now h (offset + of_nat (length data)) (ca_entries c)\<rparr>, Ok ())
                   | r \<Rightarrow> (c\<lparr>ca_files := (ca_files c)(path \<mapsto> write_at (unat offset) (take (wi_written io) data) file)\<rparr>, r))
              | r \<Rightarrow> (opened, r))
      | r \<Rightarrow> (c, r))"

text \<open>The write at some place of the list ends, after \<open>n\<close> bytes; they end in any order.\<close>

definition flight_lands :: "nat \<Rightarrow> nat \<Rightarrow> cache \<Rightarrow> cache" where
  "flight_lands i n c =
     (if i < length (ca_flights c) then
        let f = ca_flights c ! i; fs = ca_files c
        in c\<lparr>ca_flights := take i (ca_flights c) @ drop (Suc i) (ca_flights c),
             ca_files := (case fs (fl_path f) of
                 None \<Rightarrow> fs
               | Some file \<Rightarrow> fs(fl_path f \<mapsto> write_at (fl_offset f) (take n (fl_data f)) file))\<rparr>
      else c)"

definition cache_completion :: "bool \<Rightarrow> cache \<Rightarrow> info_hash \<Rightarrow> f64" where
  "cache_completion read_ok c h =
     (case ca_files c (qdata_path (ca_config c) h) of
        None \<Rightarrow> 0
      | Some file \<Rightarrow>
          (case load_qmv read_ok c h of
             None \<Rightarrow> 0
           | Some f \<Rightarrow> if qf_file_size f = 0 then 1
                      else f64_div (f64_of_nat (length file)) (f64_of_nat (unat (qf_file_size f)))))"

text \<open>The \<open>retain\<close> of \<open>cleanup\<close>: the entries kept and the hashes to delete.\<close>

fun retain_loop :: "u64 \<Rightarrow> u64 \<Rightarrow> cache_entry list \<Rightarrow> cache_entry list \<times> info_hash list" where
  "retain_loop threshold tot [] = ([], [])"
| "retain_loop threshold tot (e # es) =
     (if tot \<le> threshold then
        let (kept, del) = retain_loop threshold tot es in (e # kept, del)
      else
        let tot' = (if tot \<le> ce_file_size e then 0 else tot - ce_file_size e);
            (kept, del) = retain_loop threshold tot' es
        in (kept, ce_info_hash e # del))"

text \<open>Errors of \<open>remove_file\<close> are ignored; \<open>removable\<close> tells which files can be removed.\<close>

definition remove_files :: "(string \<Rightarrow> bool) \<Rightarrow> cache_config \<Rightarrow> info_hash list \<Rightarrow> files \<Rightarrow> files" where
  "remove_files removable cfg hs fs =
     (\<lambda>p. if removable p \<and> (\<exists>h \<in> set hs. p = qdata_path cfg h \<or> p = qmv_path cfg h) then None else fs p)"

text \<open>What is in flight to a file that is removed goes to the file without a name, and is gone with it.\<close>

definition remaining_flights :: "(string \<Rightarrow> bool) \<Rightarrow> cache_config \<Rightarrow> info_hash list \<Rightarrow> flight list \<Rightarrow> flight list" where
  "remaining_flights removable cfg hs =
     filter (\<lambda>f. \<not> (removable (fl_path f) \<and> (\<exists>h \<in> set hs. fl_path f = qdata_path cfg h \<or> fl_path f = qmv_path cfg h)))"

definition cleanup_threshold :: "cache_config \<Rightarrow> u64" where
  "cleanup_threshold cfg = cf_max_size cfg * 80 div 100"

definition cache_cleanup :: "(string \<Rightarrow> bool) \<Rightarrow> cache \<Rightarrow> cache \<times> (unit, qvod_error) result" where
  "cache_cleanup removable c =
     (let sorted = sort_key ce_last_access (ca_entries c);
          (kept, del) = retain_loop (cleanup_threshold (ca_config c)) (sum_list (map ce_file_size sorted)) sorted
      in (c\<lparr>ca_entries := kept, ca_files := remove_files removable (ca_config c) del (ca_files c),
            ca_flights := remaining_flights removable (ca_config c) del (ca_flights c)\<rparr>, Ok ()))"

definition cache_delete :: "(string \<Rightarrow> bool) \<Rightarrow> info_hash \<Rightarrow> cache \<Rightarrow> cache \<times> (unit, qvod_error) result" where
  "cache_delete removable h c =
     (c\<lparr>ca_files := remove_files removable (ca_config c) [h] (ca_files c),
        ca_flights := remaining_flights removable (ca_config c) [h] (ca_flights c)\<rparr>, Ok ())"

section \<open>Reading back what was written\<close>

lemma path_join_inj: "path_join d a = path_join d b \<longleftrightarrow> a = b"
  by (simp add: path_join_def)

lemma qdata_path_inj:
  "arr20 (ih_bytes h) \<Longrightarrow> arr20 (ih_bytes k) \<Longrightarrow> qdata_path c h = qdata_path c k \<longleftrightarrow> h = k"
  by (auto simp: qdata_path_def path_join_inj dest: show_info_hash_inj)

lemma length_write_at: "data \<noteq> [] \<Longrightarrow> length (write_at off data file) = max (off + length data) (length file)"
  by (auto simp: write_at_def)

lemma nth_write_at:
  assumes "i < length (write_at off data file)"
  shows "write_at off data file ! i =
    (if off \<le> i \<and> i < off + length data then data ! (i - off) else if i < length file then file ! i else 0)"
proof (cases "data = []")
  case False
  have "write_at off data file = take off (file @ replicate (off - length file) 0) @ data @ drop (off + length data) file"
    using False by (simp add: write_at_def)
  moreover have "length (take off (file @ replicate (off - length file) 0)) = off" by simp
  ultimately show ?thesis using assms by (auto simp: nth_append simp del: take_append)
qed (use assms in \<open>auto simp: write_at_def\<close>)

lemma read_at_eq:
  assumes "off + n \<le> length file" and "off + n \<le> length file'" and "\<And>i. off \<le> i \<Longrightarrow> i < off + n \<Longrightarrow> file ! i = file' ! i"
  shows "read_at off n file = read_at off n file'"
  using assms by (intro nth_equalityI) (auto simp: read_at_def)

lemma read_write_inside:
  assumes "off \<le> a" and "a + n \<le> off + length data"
  shows "read_at a n (write_at off data file) = take n (drop (a - off) data)"
proof (cases "data = []")
  case False
  with assms show ?thesis
    by (intro nth_equalityI) (auto simp: read_at_def length_write_at nth_write_at)
qed (use assms in \<open>simp add: read_at_def\<close>)

lemma read_write_outside:
  assumes "a + n \<le> off \<or> off + length data \<le> a" and "a + n \<le> length file"
  shows "read_at a n (write_at off data file) = read_at a n file"
proof (cases "data = []")
  case False
  with assms show ?thesis
    by (intro read_at_eq) (auto simp: length_write_at nth_write_at)
qed (simp add: write_at_def)

definition wi_all_ok :: "write_io \<Rightarrow> bool" where
  "wi_all_ok io \<longleftrightarrow> is_ok (wi_mkdir io) \<and> is_ok (wi_open io) \<and> is_ok (wi_seek io) \<and> is_ok (wi_write io)"

lemma is_ok_iff: "is_ok r \<longleftrightarrow> (\<exists>a. r = Ok a)"
  by (cases r) auto

definition file_at :: "cache \<Rightarrow> string \<Rightarrow> bytes" where
  "file_at c path = (case ca_files c path of Some f \<Rightarrow> f | None \<Rightarrow> [])"

lemma cache_write_files:
  assumes "wi_all_ok io"
  shows "snd (cache_write now io h off data c) = Ok () \<and>
    ca_config (fst (cache_write now io h off data c)) = ca_config c \<and>
    ca_files (fst (cache_write now io h off data c)) = (ca_files c)(qdata_path (ca_config c) h \<mapsto>
      write_at (unat off) (take (wi_written io) data) (file_at c (qdata_path (ca_config c) h))) \<and>
    ca_flights (fst (cache_write now io h off data c)) =
      ca_flights c @ in_flight (qdata_path (ca_config c) h) (unat off) (wi_written io) data"
  unfolding file_at_def using assms by (auto simp: wi_all_ok_def is_ok_iff cache_write_def Let_def)

text \<open>A write that lands completely; the two parts of a write make the whole.\<close>

definition landings :: "nat list \<Rightarrow> cache \<Rightarrow> cache" where
  "landings is c = foldl (\<lambda>c i. flight_lands i (length (fl_data (ca_flights c ! i))) c) c is"

lemma write_at_parts: "write_at (off + n) (drop n data) (write_at off (take n data) file) = write_at off data file"
proof (cases "n < length data")
  case False
  then show ?thesis by (simp add: write_at_def)
next
  case True
  show ?thesis
  proof (cases "n = 0")
    case False
    from True False have "data \<noteq> []" "take n data \<noteq> []" "drop n data \<noteq> []" by auto
    with True False show ?thesis
      by (intro nth_equalityI) (auto simp: length_write_at nth_write_at)
  qed (simp add: write_at_def [of _ "[]"])
qed

text \<open>
  A write to a file that no other write in flight goes to: its rest is in flight, or everything has landed. A write in flight to
  another file may land at any time.
\<close>

definition landing_to :: "cache \<Rightarrow> string \<Rightarrow> string \<Rightarrow> bytes \<Rightarrow> bytes option \<Rightarrow> cache \<Rightarrow> bool" where
  "landing_to c path path' file other d \<longleftrightarrow> ca_config d = ca_config c \<and>
     (\<exists>f. ca_files d path = Some f \<and>
        (filter (\<lambda>fl. fl_path fl = path) (ca_flights d) = [] \<and> f = file \<or>
         (\<exists>fl. filter (\<lambda>fl. fl_path fl = path) (ca_flights d) = [fl] \<and> write_at (fl_offset fl) (fl_data fl) f = file))) \<and>
     (path' \<noteq> path \<longrightarrow> ca_files d path' = other \<and> (\<forall>fl \<in> set (ca_flights d). fl_path fl \<noteq> path'))"

lemma filter_remove_nth:
  assumes "i < length xs"
  shows "filter P xs = filter P (take i xs) @ (if P (xs ! i) then [xs ! i] else []) @ filter P (drop (Suc i) xs)"
  by (subst id_take_nth_drop [OF assms]) simp

lemma landing_step:
  assumes "landing_to c path path' file other d"
  shows "landing_to c path path' file other (flight_lands i (length (fl_data (ca_flights d ! i))) d)"
proof (cases "i < length (ca_flights d)")
  case False
  then show ?thesis using assms by (simp add: flight_lands_def)
next
  case True
  let ?f = "ca_flights d ! i" and ?d = "flight_lands i (length (fl_data (ca_flights d ! i))) d"
  have fl: "ca_flights ?d = take i (ca_flights d) @ drop (Suc i) (ca_flights d)" and cfg: "ca_config ?d = ca_config d"
    using True by (simp_all add: flight_lands_def Let_def)
  have fs: "ca_files ?d p = (if p = fl_path ?f then map_option (write_at (fl_offset ?f) (fl_data ?f)) (ca_files d p) else ca_files d p)" for p
    using True by (simp add: flight_lands_def Let_def split: option.split)
  have sub: "set (ca_flights ?d) \<subseteq> set (ca_flights d)" by (auto simp: fl dest: in_set_takeD in_set_dropD)
  have there: "?f \<in> set (ca_flights d)" using True by simp
  obtain f where f: "ca_files d path = Some f" and alt:
      "filter (\<lambda>fl. fl_path fl = path) (ca_flights d) = [] \<and> f = file \<or>
       (\<exists>fl. filter (\<lambda>fl. fl_path fl = path) (ca_flights d) = [fl] \<and> write_at (fl_offset fl) (fl_data fl) f = file)"
    using assms by (auto simp: landing_to_def)
  note split = filter_remove_nth [OF True, of "\<lambda>fl. fl_path fl = path"]
  have "\<exists>g. ca_files ?d path = Some g \<and>
      (filter (\<lambda>fl. fl_path fl = path) (ca_flights ?d) = [] \<and> g = file \<or>
       (\<exists>fl. filter (\<lambda>fl. fl_path fl = path) (ca_flights ?d) = [fl] \<and> write_at (fl_offset fl) (fl_data fl) g = file))"
  proof (cases "fl_path ?f = path")
    case True
    with alt split have "filter (\<lambda>fl. fl_path fl = path) (ca_flights ?d) = []" "write_at (fl_offset ?f) (fl_data ?f) f = file"
      by (auto simp: fl append_eq_Cons_conv Cons_eq_append_conv)
    with True f show ?thesis by (simp add: fs)
  next
    case False
    with alt split f show ?thesis by (auto simp: fl fs)
  qed
  then show ?thesis using assms sub there by (auto simp: landing_to_def cfg fs)
qed

lemma landing_run: "landing_to c path path' file other d \<Longrightarrow> landing_to c path path' file other (landings is d)"
  by (induction "is" arbitrary: d) (simp_all add: landings_def landing_step)

lemma write_landing:
  assumes "wi_all_ok io" and "\<forall>fl \<in> set (ca_flights c). fl_path fl \<noteq> qdata_path (ca_config c) h \<and> fl_path fl \<noteq> path'"
  shows "landing_to c (qdata_path (ca_config c) h) path' (write_at (unat off) data (file_at c (qdata_path (ca_config c) h)))
    (ca_files c path') (fst (cache_write now io h off data c))"
proof -
  have none: "filter (\<lambda>fl. fl_path fl = qdata_path (ca_config c) h) (ca_flights c) = []" using assms(2) by (simp add: filter_empty_conv)
  show ?thesis
    using cache_write_files [OF assms(1), of now h off data c] assms(2) none
      write_at_parts [of "unat off" "wi_written io" data "file_at c (qdata_path (ca_config c) h)"]
    by (auto simp: landing_to_def in_flight_def)
qed

text \<open>
  C16: what a successful write has written can be read once it has landed. The write returns before that, and its rest may
  land between the landings of writes to other files, in any order; provided that none is in flight to the files in question
  when the write begins, and that those that land do so completely, then as soon as nothing is in flight to the file, a read
  inside the written range gives those bytes, a read of older bytes of the same file that the range does not touch is
  unchanged, and so is, at any time, every read of the other file. A read gives as many bytes as its one system call does.
\<close>

theorem cache_write_read:
  assumes "wi_all_ok io" and "arr20 (ih_bytes h)" and "arr20 (ih_bytes k)"
    and "\<forall>fl \<in> set (ca_flights c). fl_path fl \<noteq> qdata_path (ca_config c) h \<and> fl_path fl \<noteq> qdata_path (ca_config c) k"
    and "c' = landings order (fst (cache_write now io h off data c))"
  shows "snd (cache_write now io h off data c) = Ok () \<and>
    ((\<forall>fl \<in> set (ca_flights c'). fl_path fl \<noteq> qdata_path (ca_config c) h) \<longrightarrow>
      (unat off \<le> unat a \<and> unat a + unat len \<le> unat off + length data \<longrightarrow>
        cache_read (Ok ()) n c' h a len = Ok (take (min n (unat len)) (drop (unat a - unat off) data))) \<and>
      (\<forall>file. ca_files c (qdata_path (ca_config c) h) = Some file \<and> unat a + unat len \<le> length file \<and>
        (unat a + unat len \<le> unat off \<or> unat off + length data \<le> unat a) \<longrightarrow>
        cache_read (Ok ()) n c' h a len = cache_read (Ok ()) n c h a len)) \<and>
    (h \<noteq> k \<longrightarrow> cache_read (Ok ()) n c' k a len = cache_read (Ok ()) n c k a len)"
proof -
  let ?path = "qdata_path (ca_config c) h"
  have inv: "landing_to c ?path (qdata_path (ca_config c) k) (write_at (unat off) data (file_at c ?path)) (ca_files c (qdata_path (ca_config c) k)) c'"
    unfolding assms(5) by (rule landing_run [OF write_landing [OF assms(1,4)]])
  have landed: "ca_files c' ?path = Some (write_at (unat off) data (file_at c ?path))"
    if "\<forall>fl \<in> set (ca_flights c'). fl_path fl \<noteq> ?path"
    using inv that by (auto simp: landing_to_def filter_empty_conv)
  have "cache_read (Ok ()) n c' k a len = cache_read (Ok ()) n c k a len" if "h \<noteq> k"
    using inv that qdata_path_inj [OF assms(2,3), of "ca_config c"] by (auto simp: landing_to_def cache_read_def)
  moreover have "cache_read (Ok ()) n c' h a len = Ok (take (min n (unat len)) (drop (unat a - unat off) data))"
    if "\<forall>fl \<in> set (ca_flights c'). fl_path fl \<noteq> ?path" "unat off \<le> unat a" "unat a + unat len \<le> unat off + length data"
    using inv landed [OF that(1)] that(2,3) read_write_inside [of "unat off" "unat a" "min n (unat len)" data]
    by (simp add: cache_read_def landing_to_def)
  moreover have "cache_read (Ok ()) n c' h a len = cache_read (Ok ()) n c h a len"
    if "\<forall>fl \<in> set (ca_flights c'). fl_path fl \<noteq> ?path" "ca_files c ?path = Some old" "unat a + unat len \<le> length old"
      "unat a + unat len \<le> unat off \<or> unat off + length data \<le> unat a" for old
  proof -
    have r: "read_at (unat a) (min n (unat len)) (write_at (unat off) data old) = read_at (unat a) (min n (unat len)) old"
    proof (rule read_write_outside)
      show "unat a + min n (unat len) \<le> unat off \<or> unat off + length data \<le> unat a" using that(4) by linarith
      show "unat a + min n (unat len) \<le> length old" using that(3) by linarith
    qed
    have "ca_config c' = ca_config c" using inv by (simp add: landing_to_def)
    then show ?thesis using landed [OF that(1)] that(2) r by (simp add: cache_read_def file_at_def)
  qed
  ultimately show ?thesis using cache_write_files [OF assms(1), of now h off data c] by blast
qed

text \<open>Without the landing it does not hold: a write that reported success can be invisible, and can be lost.\<close>

lemma write_not_visible:
  assumes "wi_all_ok io" and "wi_written io = 0" and "ca_files c (qdata_path (ca_config c) h) = Some file"
  shows "snd (cache_write now io h off data c) = Ok () \<and>
    cache_read (Ok ()) n (fst (cache_write now io h off data c)) h a len = cache_read (Ok ()) n c h a len"
  using cache_write_files [OF assms(1), of now h off data c] assms(2,3) by (simp add: cache_read_def file_at_def write_at_def)

section \<open>Cleaning up\<close>

definition cache_wf :: "cache \<Rightarrow> bool" where
  "cache_wf c \<longleftrightarrow> distinct (map ce_info_hash (ca_entries c)) \<and> (\<forall>e \<in> set (ca_entries c). arr20 (ih_bytes (ce_info_hash e)))"

definition total_size :: "cache_entry list \<Rightarrow> nat" where
  "total_size es = sum_list (map (\<lambda>e. unat (ce_file_size e)) es)"

lemma sum_sizes: "sum_list (map ce_file_size es) = of_nat (total_size es)"
  by (induction es) (simp_all add: total_size_def)

lemma touch_entry_hashes: "ce_info_hash ` set (touch_entry now h p es) = insert h (ce_info_hash ` set es)"
  by (induction es) auto

lemma touch_entry_distinct:
  "distinct (map ce_info_hash es) \<Longrightarrow> distinct (map ce_info_hash (touch_entry now h p es))"
  by (induction es) (auto simp: touch_entry_hashes)

lemma cache_write_wf:
  assumes "cache_wf c" and "arr20 (ih_bytes h)"
  shows "cache_wf (fst (cache_write now io h off data c))"
proof -
  have "\<forall>x \<in> ce_info_hash ` set (touch_entry now h p (ca_entries c)). arr20 (ih_bytes x)" for p
    unfolding touch_entry_hashes using assms by (auto simp: cache_wf_def)
  then show ?thesis using assms
    by (auto simp: cache_wf_def cache_write_def Let_def touch_entry_distinct split: result.split)
qed

lemma retain_loop_split:
  assumes "total_size es < 2 ^ 64" and "retain_loop threshold (of_nat (total_size es)) es = (kept, del)"
  shows "\<exists>k \<le> length es. kept = drop k es \<and> del = map ce_info_hash (take k es) \<and> total_size kept \<le> unat threshold \<and>
    (\<forall>j < k. unat threshold < total_size (drop j es))"
  using assms
proof (induction es arbitrary: kept del)
  case Nil
  then show ?case by (simp add: total_size_def)
next
  case (Cons e es)
  have u: "unat (of_nat (total_size (e # es)) :: u64) = total_size (e # es)"
    using Cons.prems(1) by (simp add: unat_of_nat)
  have t: "total_size (e # es) = unat (ce_file_size e) + total_size es" by (simp add: total_size_def)
  show ?case
  proof (cases "of_nat (total_size (e # es)) \<le> threshold")
    case True
    have all: "tot \<le> threshold \<Longrightarrow> retain_loop threshold tot xs = (xs, [])" for tot xs
      by (induction xs) simp_all
    from True all [of "of_nat (total_size (e # es))" "e # es"] Cons.prems(2) have "kept = e # es" "del = []" by simp_all
    with True u show ?thesis by (intro exI [of _ 0]) (simp add: word_le_nat_alt)
  next
    case False
    let ?r = "of_nat (total_size (e # es)) - ce_file_size e"
    have r: "(of_nat (total_size (e # es)) :: u64) - ce_file_size e = of_nat (total_size es)" by (simp add: t)
    have "(if of_nat (total_size (e # es)) \<le> ce_file_size e then 0 else of_nat (total_size (e # es)) - ce_file_size e) = (of_nat (total_size es) :: u64)"
    proof (cases "of_nat (total_size (e # es)) \<le> ce_file_size e")
      case True
      with u t have "total_size es = 0" by (simp add: word_le_nat_alt)
      with True show ?thesis by simp
    qed (simp only: r if_False)
    with False Cons.prems(2) obtain del' where l: "retain_loop threshold (of_nat (total_size es)) es = (kept, del')" "del = ce_info_hash e # del'"
      by (auto simp: Let_def split: prod.splits)
    have "total_size es < 2 ^ 64" using Cons.prems(1) t by simp
    from Cons.IH [OF this l(1)] obtain k where k: "k \<le> length es" "kept = drop k es" "del' = map ce_info_hash (take k es)"
      "total_size kept \<le> unat threshold" "\<forall>j < k. unat threshold < total_size (drop j es)" by blast
    have "unat threshold < total_size (drop j (e # es))" if "j < Suc k" for j
      using that k(5) False u by (cases j) (simp_all add: word_le_nat_alt)
    with k l(2) show ?thesis by (intro exI [of _ "Suc k"]) simp
  qed
qed

lemma qdata_not_qmv: "qdata_path c h \<noteq> qmv_path c k"
  by (auto simp: qdata_path_def qmv_path_def path_join_def)

text \<open>
  C17: cleaning up removes the least recently used entries, as few as needed: what is kept is a suffix of the
  entries in the order of their last access, its total size is within the threshold (80 percent of the
  maximum), and that of every longer suffix is not. Where every file can be removed, the data files of the removed
  entries are gone, those of the kept ones unchanged. The sizes are the recorded ones.
\<close>

theorem cache_cleanup_lru:
  assumes "cache_wf c" and "total_size (ca_entries c) < 2 ^ 64" and "c' = fst (cache_cleanup (\<lambda>_. True) c)"
  shows "\<exists>k. ca_entries c' = drop k (sort_key ce_last_access (ca_entries c)) \<and>
    total_size (ca_entries c') \<le> unat (cleanup_threshold (ca_config c)) \<and>
    (\<forall>j < k. unat (cleanup_threshold (ca_config c)) < total_size (drop j (sort_key ce_last_access (ca_entries c)))) \<and>
    (\<forall>e \<in> set (take k (sort_key ce_last_access (ca_entries c))). ca_files c' (qdata_path (ca_config c) (ce_info_hash e)) = None) \<and>
    (\<forall>e \<in> set (ca_entries c'). ca_files c' (qdata_path (ca_config c) (ce_info_hash e)) =
       ca_files c (qdata_path (ca_config c) (ce_info_hash e)))"
proof -
  let ?s = "sort_key ce_last_access (ca_entries c)" and ?t = "cleanup_threshold (ca_config c)"
  have "mset (map (\<lambda>e. unat (ce_file_size e)) ?s) = mset (map (\<lambda>e. unat (ce_file_size e)) (ca_entries c))" by simp
  then have sz: "total_size ?s < 2 ^ 64" using assms(2) unfolding total_size_def by (metis sum_mset_sum_list)
  obtain kept del where r: "retain_loop ?t (of_nat (total_size ?s)) ?s = (kept, del)" by fastforce
  from retain_loop_split [OF sz r] obtain k where k: "kept = drop k ?s" "del = map ce_info_hash (take k ?s)"
    "total_size kept \<le> unat ?t" "\<forall>j < k. unat ?t < total_size (drop j ?s)" by blast
  have c': "ca_entries c' = kept" "ca_files c' = remove_files (\<lambda>_. True) (ca_config c) del (ca_files c)"
    using r by (simp_all add: assms(3) cache_cleanup_def sum_sizes)
  have hs: "\<forall>e \<in> set ?s. arr20 (ih_bytes (ce_info_hash e))" using assms(1) by (simp add: cache_wf_def)
  have "distinct (map ce_info_hash (ca_entries c))" using assms(1) by (simp add: cache_wf_def)
  then have "distinct (map ce_info_hash ?s)" by (metis mset_eq_imp_distinct_iff mset_map mset_sort)
  then have "distinct (map ce_info_hash (take k ?s) @ map ce_info_hash (drop k ?s))"
    by (metis append_take_drop_id map_append)
  then have d: "ce_info_hash e \<notin> set del" if "e \<in> set kept" for e using that k(1,2) by fastforce
  have f1: "ca_files c' (qdata_path (ca_config c) (ce_info_hash e)) = ca_files c (qdata_path (ca_config c) (ce_info_hash e))"
    if e: "e \<in> set kept" for e
  proof -
    have "arr20 (ih_bytes (ce_info_hash e))" "\<forall>h \<in> set del. arr20 (ih_bytes h)"
      using hs e k(1,2) by (auto dest: in_set_dropD in_set_takeD)
    with d [OF e] show ?thesis by (auto simp: c' remove_files_def qdata_not_qmv qdata_path_inj)
  qed
  have f2: "ca_files c' (qdata_path (ca_config c) (ce_info_hash e)) = None" if "e \<in> set (take k ?s)" for e
    using that k(2) by (auto simp: c' remove_files_def)
  show ?thesis unfolding c'(1)
    by (intro exI [of _ k] conjI ballI) (rule k f1 f2 | assumption)+
qed

definition sample_cache :: cache where
  "sample_cache =
     (let e = (\<lambda>i s t. \<lparr>ce_info_hash = InfoHash (replicate 20 i), ce_file_size = s, ce_downloaded = s,
              ce_bitfield = bitfield_new 0, ce_last_access = t, ce_created_at = 0\<rparr>)
      in \<lparr>ca_config = \<lparr>cf_cache_dir = ''/c'', cf_max_size = 100, cf_max_files = 10\<rparr>,
          ca_entries = [e 1 50 9, e 2 60 3], ca_files = [qdata_path \<lparr>cf_cache_dir = ''/c'', cf_max_size = 100, cf_max_files = 10\<rparr> (InfoHash (replicate 20 1)) \<mapsto> [1, 2, 3]],
          ca_flights = []\<rparr>)"

theorem cache_cleanup_lru_witness:
  "total_size (ca_entries (fst (cache_cleanup (\<lambda>_. True) sample_cache))) \<le> 80"
proof -
  have "cache_wf sample_cache" by (simp add: cache_wf_def sample_cache_def arr20_def)
  moreover have "total_size (ca_entries sample_cache) < 2 ^ 64" by (simp add: sample_cache_def total_size_def)
  moreover have "unat (cleanup_threshold (ca_config sample_cache)) = 80"
    by (simp add: cleanup_threshold_def sample_cache_def)
  ultimately show ?thesis using cache_cleanup_lru [OF _ _ refl, of sample_cache] by auto
qed

theorem cache_write_read_witness:
  "let io = \<lparr>wi_mkdir = Ok (), wi_open = Ok (), wi_seek = Ok (), wi_write = Ok (), wi_written = 1\<rparr>;
       c = fst (cache_write 0 io (InfoHash (replicate 20 1)) 5 [7, 8, 9] sample_cache)
   in length (ca_flights c) = 1 \<and> cache_read (Ok ()) 9 (landings [0] c) (InfoHash (replicate 20 1)) 6 2 = Ok [8, 9]"
proof -
  let ?h = "InfoHash (replicate 20 1)" and ?io = "\<lparr>wi_mkdir = Ok (), wi_open = Ok (), wi_seek = Ok (), wi_write = Ok (), wi_written = 1\<rparr>"
  have h: "arr20 (ih_bytes ?h)" by (simp add: arr20_def)
  have io: "wi_all_ok ?io" by (simp add: wi_all_ok_def)
  have e: "ca_flights sample_cache = []" by (simp add: sample_cache_def)
  have f: "length (ca_flights (fst (cache_write 0 ?io ?h 5 [7, 8, 9] sample_cache))) = 1"
    using cache_write_files [OF io, of 0 ?h 5 "[7, 8, 9]" sample_cache] e by (simp add: in_flight_def)
  then have "ca_flights (landings [0] (fst (cache_write 0 ?io ?h 5 [7, 8, 9] sample_cache))) = []"
    by (auto simp: landings_def flight_lands_def Let_def)
  with cache_write_read [OF io h h _ refl, where c = sample_cache and order = "[0]" and now = 0 and off = 5 and data = "[7, 8, 9]"
      and a = 6 and len = 2 and n = 9] e f
  show ?thesis by (simp add: Let_def)
qed

end
