(* ===== verification/Ring_Buffer.thy ===== *)
theory Ring_Buffer
  imports Core_Types Float64
begin

text \<open>
  The stream buffer (\<open>qvs-stream/src/buffer.rs\<close>). The \<open>BTreeSet\<close> of filled ranges, which orders and
  compares ranges by their start alone, is the list of (start, end) pairs in that order.
\<close>

section \<open>The set of ranges\<close>

type_synonym ranges = "(u64 \<times> u64) list"

text \<open>Inserting a range whose start is present already changes nothing.\<close>

fun rg_insert :: "u64 \<Rightarrow> u64 \<Rightarrow> ranges \<Rightarrow> ranges" where
  "rg_insert s e [] = [(s, e)]"
| "rg_insert s e ((s', e') # rs) =
     (if s < s' then (s, e) # (s', e') # rs else if s = s' then (s', e') # rs else (s', e') # rg_insert s e rs)"

definition rg_remove :: "u64 \<Rightarrow> ranges \<Rightarrow> ranges" where
  "rg_remove s rs = filter (\<lambda>r. fst r \<noteq> s) rs"

definition sat_sub :: "u64 \<Rightarrow> u64 \<Rightarrow> u64" where
  "sat_sub a b = (if a \<le> b then 0 else a - b)"

section \<open>State and operations\<close>

record ring_buffer =
  rb_capacity :: u64
  rb_data :: bytes
  rb_file_offset :: u64
  rb_filled :: ranges
  rb_play_position :: u64
  rb_total_size :: u64

definition rb_new :: "u64 \<Rightarrow> u64 \<Rightarrow> ring_buffer" where
  "rb_new capacity total_size = \<lparr>rb_capacity = capacity, rb_data = replicate (unat capacity) 0, rb_file_offset = 0,
     rb_filled = [], rb_play_position = 0, rb_total_size = total_size\<rparr>"

text \<open>The ranges after a move of the window, back by \<open>shift\<close> (in \<open>i64\<close>) or forward to \<open>new_offset\<close>.\<close>

definition signed_back :: "u64 \<Rightarrow> u64 \<Rightarrow> u64" where
  "signed_back x shift = (if sint (x - shift) < 0 then 0 else x - shift)"

definition shift_back_ranges :: "u64 \<Rightarrow> ranges \<Rightarrow> ranges" where
  "shift_back_ranges shift rs =
     foldl (\<lambda>acc (s, e). let ns = signed_back s shift; ne = signed_back e shift in if ns < ne then rg_insert ns ne acc else acc) [] rs"

definition shift_ranges :: "u64 \<Rightarrow> u64 \<Rightarrow> ranges \<Rightarrow> ranges" where
  "shift_ranges capacity new_offset rs =
     foldl (\<lambda>acc (s, e). let ns = sat_sub s new_offset; ne = sat_sub e new_offset
       in if ns < ne \<and> ns < capacity then rg_insert ns (min ne capacity) acc else acc) [] rs"

definition slide_to :: "u64 \<Rightarrow> ring_buffer \<Rightarrow> ring_buffer" where
  "slide_to new_offset b =
     (let cap = unat (rb_capacity b); zeros = replicate cap 0
      in if new_offset = rb_file_offset b then b
         else if new_offset < rb_file_offset b then
           (let shift = rb_file_offset b - new_offset
            in if cap \<le> unat shift then b\<lparr>rb_data := replicate (length (rb_data b)) 0, rb_filled := [], rb_file_offset := new_offset\<rparr>
               else let copy_start = unat shift; copy_len = min (copy_start + length (rb_data b)) cap - copy_start
                    in b\<lparr>rb_data := take copy_start zeros @ take copy_len (rb_data b) @ drop (copy_start + copy_len) zeros,
                         rb_filled := shift_back_ranges shift (rb_filled b), rb_file_offset := new_offset\<rparr>)
         else let shift = unat (new_offset - rb_file_offset b);
                  b1 = (if cap \<le> shift then b\<lparr>rb_data := replicate (length (rb_data b)) 0, rb_filled := []\<rparr>
                        else b\<lparr>rb_data := take (cap - shift) (drop shift (rb_data b)) @ drop (cap - shift) zeros\<rparr>)
              in b1\<lparr>rb_filled := shift_ranges (rb_capacity b) new_offset (rb_filled b1), rb_file_offset := new_offset\<rparr>)"

text \<open>The scan of \<open>merge_range\<close>: the grown bounds and the starts of the ranges to remove.\<close>

fun merge_scan :: "u64 \<Rightarrow> u64 \<Rightarrow> ranges \<Rightarrow> u64 \<times> u64 \<times> u64 list" where
  "merge_scan ns ne [] = (ns, ne, [])"
| "merge_scan ns ne ((s, e) # rs) =
     (if s \<le> ne \<and> ns \<le> e then
        let (ns', ne', del) = merge_scan (min ns s) (max ne e) rs in (ns', ne', s # del)
      else merge_scan ns ne rs)"

definition merge_range :: "u64 \<Rightarrow> u64 \<Rightarrow> ranges \<Rightarrow> ranges" where
  "merge_range start end_pos rs =
     (if end_pos \<le> start then rs
      else let (ns, ne, del) = merge_scan start end_pos rs
           in rg_insert ns ne (foldl (\<lambda>rs s. rg_remove s rs) rs del))"

text \<open>\<open>write\<close>; the subslice of the data panics when the end wraps around.\<close>

definition rb_write :: "u64 \<Rightarrow> bytes \<Rightarrow> ring_buffer \<Rightarrow> (ring_buffer, qvod_error) result" where
  "rb_write offset data b =
     (if rb_total_size b \<le> offset \<or> data = [] then Ok b
      else let end_pos = min (offset + of_nat (length data)) (rb_total_size b); len = unat (end_pos - offset)
           in if length data < len then Panic
              else let d = take len data; n = of_nat (length d); cap = rb_capacity b;
                       b1 = (if offset < rb_file_offset b then slide_to offset b else b);
                       b2 = (if rb_file_offset b1 + cap < offset + n
                             then slide_to (min (sat_sub (offset + n) cap) (sat_sub (rb_total_size b) cap)) b1 else b1);
                       buf_offset = sat_sub offset (rb_file_offset b2);
                       b3 = (if buf_offset < cap
                             then let wl = unat (min n (cap - buf_offset)); rs = unat buf_offset; re = rs + wl
                                  in if re \<le> length (rb_data b2)
                                     then b2\<lparr>rb_data := take rs (rb_data b2) @ take wl d @ drop re (rb_data b2)\<rparr> else b2
                             else b2)
                   in Ok (b3\<lparr>rb_filled := merge_range offset (offset + n) (rb_filled b3)\<rparr>))"

definition is_range_filled :: "u64 \<Rightarrow> u64 \<Rightarrow> ring_buffer \<Rightarrow> bool" where
  "is_range_filled offset len b \<longleftrightarrow> (let end_pos = offset + len in list_ex (\<lambda>(s, e). s \<le> offset \<and> end_pos \<le> e) (rb_filled b))"

definition rb_read :: "u64 \<Rightarrow> u64 \<Rightarrow> ring_buffer \<Rightarrow> (bytes option, qvod_error) result" where
  "rb_read offset len b =
     (if \<not> is_range_filled offset len b then Ok None
      else let buf_offset = sat_sub offset (rb_file_offset b)
           in if rb_capacity b < buf_offset + len then Ok None
              else let start = unat buf_offset; end_pos = unat (buf_offset + len)
                   in if length (rb_data b) < end_pos then Ok None
                      else if end_pos < start then Panic
                      else Ok (Some (subslice start end_pos (rb_data b))))"

definition is_playable :: "ring_buffer \<Rightarrow> bool" where
  "is_playable b = is_range_filled 0 (min (min (rb_total_size b) 262144) (rb_capacity b)) b"

definition filled_after :: "u64 \<Rightarrow> ring_buffer \<Rightarrow> u64" where
  "filled_after offset b =
     foldl (\<lambda>tot (s, e). if offset \<le> s then tot + (e - s) else if offset < e then tot + (e - offset) else tot) 0 (rb_filled b)"

fun filled_before_loop :: "u64 \<Rightarrow> u64 \<Rightarrow> ranges \<Rightarrow> u64" where
  "filled_before_loop offset tot [] = tot"
| "filled_before_loop offset tot ((s, e) # rs) =
     (if e \<le> offset then filled_before_loop offset (tot + (e - s)) rs
      else if s < offset then filled_before_loop offset (tot + (offset - s)) rs
      else tot)"

definition filled_before :: "u64 \<Rightarrow> ring_buffer \<Rightarrow> u64" where
  "filled_before offset b = filled_before_loop offset 0 (rb_filled b)"

text \<open>\<open>buffered_duration\<close>, in milliseconds.\<close>

definition buffered_duration :: "u64 \<Rightarrow> ring_buffer \<Rightarrow> u64" where
  "buffered_duration duration_ms b =
     (if rb_total_size b = 0 \<or> duration_ms = 0 then 0
      else let bytes_per_ms = f64_div (f64_of_nat (unat (rb_total_size b))) (f64_of_nat (unat duration_ms))
           in if bytes_per_ms \<le> 0 then 0
              else f64_to_u64 (f64_div (f64_of_nat (unat (filled_after (rb_play_position b) b))) bytes_per_ms))"

definition set_play_position :: "u64 \<Rightarrow> ring_buffer \<Rightarrow> ring_buffer" where
  "set_play_position p b = b\<lparr>rb_play_position := p\<rparr>"

definition filled_percentage :: "ring_buffer \<Rightarrow> f64" where
  "filled_percentage b =
     (if rb_total_size b = 0 then 1
      else f64_div (f64_of_nat (unat (sum_list (map (\<lambda>(s, e). e - s) (rb_filled b))))) (f64_of_nat (unat (rb_total_size b))))"

definition rb_clear :: "ring_buffer \<Rightarrow> ring_buffer" where
  "rb_clear b = b\<lparr>rb_filled := [], rb_data := replicate (length (rb_data b)) 0, rb_file_offset := 0, rb_play_position := 0\<rparr>"

section \<open>Separated ranges\<close>

lemma sat_sub_0 [simp]: "sat_sub x 0 = x"
  by (simp add: sat_sub_def)

definition separated :: "ranges \<Rightarrow> bool" where
  "separated rs \<longleftrightarrow> sorted_wrt (\<lambda>a b. snd a < fst b) rs \<and> (\<forall>(s, e) \<in> set rs. s < e)"

definition covers :: "ranges \<Rightarrow> u64 \<Rightarrow> bool" where
  "covers rs i \<longleftrightarrow> (\<exists>r \<in> set rs. fst r \<le> i \<and> i < snd r)"

definition touches :: "u64 \<Rightarrow> u64 \<Rightarrow> u64 \<times> u64 \<Rightarrow> bool" where
  "touches a b r \<longleftrightarrow> fst r \<le> b \<and> a \<le> snd r"

lemma separated_Cons:
  "separated ((s, e) # rs) \<longleftrightarrow> s < e \<and> (\<forall>(s', e') \<in> set rs. e < s') \<and> separated rs"
  by (auto simp: separated_def)

lemma separated_less: "separated rs \<Longrightarrow> r \<in> set rs \<Longrightarrow> fst r < snd r"
  by (auto simp: separated_def)

lemma separated_pair:
  "separated rs \<Longrightarrow> r \<in> set rs \<Longrightarrow> r' \<in> set rs \<Longrightarrow> r = r' \<or> snd r < fst r' \<or> snd r' < fst r"
  by (induction rs) (fastforce simp: separated_def)+

lemma separated_filter: "separated rs \<Longrightarrow> separated (filter P rs)"
  by (auto simp: separated_def sorted_wrt_filter)

text \<open>On separated ranges the scan removes exactly the ranges that touch the new one.\<close>

lemma merge_scan_eq:
  assumes "separated rs" and "start < end_pos" and "ns \<le> start" and "end_pos \<le> ne"
    and "\<forall>r \<in> set rs. fst r \<le> ne \<longrightarrow> fst r \<le> end_pos" and "\<forall>r \<in> set rs. ns \<le> snd r \<longrightarrow> start \<le> snd r"
  shows "merge_scan ns ne rs =
    (foldl min ns (map fst (filter (touches start end_pos) rs)), foldl max ne (map snd (filter (touches start end_pos) rs)),
     map fst (filter (touches start end_pos) rs))"
  using assms
proof (induction rs arbitrary: ns ne)
  case (Cons r rs)
  obtain s e where r: "r = (s, e)" by fastforce
  have t: "(s \<le> ne \<and> ns \<le> e) = touches start end_pos (s, e)"
    using Cons.prems(3-6) by (auto simp: touches_def r)
  have sep: "separated rs" "s < e" "\<forall>r' \<in> set rs. e < fst r'" using Cons.prems(1) by (auto simp: separated_Cons r)
  show ?case
  proof (cases "touches start end_pos (s, e)")
    case True
    have "\<forall>r \<in> set rs. fst r \<le> max ne e \<longrightarrow> fst r \<le> end_pos"
      using Cons.prems(5) sep(3) by (auto simp: max_def split: if_splits)
    moreover have "\<forall>r' \<in> set rs. min ns s \<le> snd r' \<longrightarrow> start \<le> snd r'"
      using sep True separated_less [OF sep(1)] by (fastforce simp: touches_def)
    ultimately have "merge_scan (min ns s) (max ne e) rs =
      (foldl min (min ns s) (map fst (filter (touches start end_pos) rs)), foldl max (max ne e) (map snd (filter (touches start end_pos) rs)),
       map fst (filter (touches start end_pos) rs))"
      using Cons.prems by (intro Cons.IH sep(1)) (auto simp: min_le_iff_disj le_max_iff_disj)
    then show ?thesis using True unfolding r merge_scan.simps t by simp
  next
    case False
    have "merge_scan ns ne rs = (foldl min ns (map fst (filter (touches start end_pos) rs)),
      foldl max ne (map snd (filter (touches start end_pos) rs)), map fst (filter (touches start end_pos) rs))"
      using Cons.prems by (intro Cons.IH sep(1)) auto
    then show ?thesis using False unfolding r merge_scan.simps t by simp
  qed
qed simp

lemma foldl_min_le: "foldl min (a::'a::linorder) xs \<le> a"
proof (induction xs arbitrary: a)
  case (Cons x xs)
  from Cons [of "min a x"] show ?case by simp
qed simp

lemma foldl_min_mem: "x \<in> set xs \<Longrightarrow> foldl min (a::'a::linorder) xs \<le> x"
proof (induction xs arbitrary: a)
  case (Cons y ys)
  then show ?case using foldl_min_le [of "min a y" ys] by auto
qed simp

lemma foldl_min_in: "foldl min (a::'a::linorder) xs \<in> insert a (set xs)"
proof (induction xs arbitrary: a)
  case (Cons x xs)
  from Cons [of "min a x"] show ?case by (auto simp: min_def split: if_splits)
qed simp

lemma foldl_max_ge: "(a::'a::linorder) \<le> foldl max a xs"
proof (induction xs arbitrary: a)
  case (Cons x xs)
  from Cons [of "max a x"] show ?case by simp
qed simp

lemma foldl_max_mem: "x \<in> set xs \<Longrightarrow> x \<le> foldl max (a::'a::linorder) xs"
proof (induction xs arbitrary: a)
  case (Cons y xs)
  then show ?case using foldl_max_ge [of "max a y" xs] by auto
qed simp

lemma foldl_max_in: "foldl max (a::'a::linorder) xs \<in> insert a (set xs)"
proof (induction xs arbitrary: a)
  case (Cons x xs)
  from Cons [of "max a x"] show ?case by (auto simp: max_def split: if_splits)
qed simp

lemma foldl_rg_remove: "foldl (\<lambda>rs s. rg_remove s rs) rs del = filter (\<lambda>r. fst r \<notin> set del) rs"
  by (induction del arbitrary: rs) (auto simp: rg_remove_def intro!: filter_cong)

lemma rg_insert_separated:
  assumes "separated rs" and "s < e" and "\<forall>r \<in> set rs. snd r < s \<or> e < fst r"
  shows "separated (rg_insert s e rs) \<and> set (rg_insert s e rs) = insert (s, e) (set rs)"
  using assms
proof (induction rs)
  case (Cons r rs)
  obtain s' e' where r: "r = (s', e')" by fastforce
  have c: "s' < e'" "\<forall>r \<in> set rs. e' < fst r" "separated rs" using Cons.prems(1) by (auto simp: separated_Cons r)
  have ih: "separated (rg_insert s e rs)" "set (rg_insert s e rs) = insert (s, e) (set rs)"
    using Cons.IH [OF c(3) Cons.prems(2)] Cons.prems(3) by auto
  from Cons.prems(3) consider "e' < s" | "e < s'" by (auto simp: r)
  then show ?case
  proof cases
    case 1
    then have "s' < s" using c(1) by simp
    then show ?thesis using ih c 1 by (auto simp: r separated_Cons)
  next
    case 2
    then have "s < s'" using Cons.prems(2) by simp
    moreover have "\<forall>r \<in> set rs. e < fst r" using 2 c(1,2) by (meson less_trans)
    ultimately show ?thesis using c 2 Cons.prems(2) by (auto simp: r separated_Cons)
  qed
qed (simp add: separated_def)

lemma merge_range_eq:
  assumes "separated rs" and "a < b"
  defines "ns \<equiv> foldl min a (map fst (filter (touches a b) rs))" and "ne \<equiv> foldl max b (map snd (filter (touches a b) rs))"
  shows "separated (merge_range a b rs) \<and> set (merge_range a b rs) = insert (ns, ne) {r \<in> set rs. \<not> touches a b r}"
proof -
  have m: "merge_scan a b rs = (ns, ne, map fst (filter (touches a b) rs))"
    unfolding ns_def ne_def using assms(1,2) by (intro merge_scan_eq) auto
  have inj: "r \<in> set rs \<Longrightarrow> r' \<in> set rs \<Longrightarrow> fst r = fst r' \<Longrightarrow> r = r'" for r r'
    using separated_pair [OF assms(1), of r r'] separated_less [OF assms(1), of r] separated_less [OF assms(1), of r']
    by (auto dest: less_asym)
  have k: "filter (\<lambda>r. fst r \<notin> set (map fst (filter (touches a b) rs))) rs = filter (\<lambda>r. \<not> touches a b r) rs"
  proof (rule filter_cong [OF refl])
    fix r assume r: "r \<in> set rs"
    have "fst r \<in> fst ` {x \<in> set rs. touches a b x} \<longleftrightarrow> touches a b r"
    proof
      assume "fst r \<in> fst ` {x \<in> set rs. touches a b x}"
      then obtain r' where "r' \<in> set rs" "touches a b r'" "fst r = fst r'" by blast
      with inj [OF r] show "touches a b r" by blast
    qed (use r in blast)
    then show "(fst r \<notin> set (map fst (filter (touches a b) rs))) = (\<not> touches a b r)" by simp
  qed
  have ns: "ns \<le> a" "ns = a \<or> (\<exists>r \<in> set rs. touches a b r \<and> ns = fst r)"
    using foldl_min_le [of a] foldl_min_in [of a "map fst (filter (touches a b) rs)"] by (auto simp: ns_def)
  have ne: "b \<le> ne" "ne = b \<or> (\<exists>r \<in> set rs. touches a b r \<and> ne = snd r)"
    using foldl_max_ge [of b] foldl_max_in [of b "map snd (filter (touches a b) rs)"] by (auto simp: ne_def)
  have "snd r < ns \<or> ne < fst r" if r: "r \<in> set rs" "\<not> touches a b r" for r
  proof -
    have p: "touches a b r' \<Longrightarrow> r' \<in> set rs \<Longrightarrow> snd r' < fst r \<or> snd r < fst r'" for r'
      using separated_pair [OF assms(1) r(1), of r'] r(2) by auto
    have l: "fst r < snd r" by (rule separated_less [OF assms(1) r(1)])
    consider "snd r < a" | "b < fst r" using r(2) by (auto simp: touches_def)
    then show ?thesis
    proof cases
      case 1
      have "snd r < fst r'" if "r' \<in> set rs" "touches a b r'" for r'
      proof -
        have "a \<le> snd r'" using that(2) by (simp add: touches_def)
        then have "\<not> snd r' < fst r" using 1 l by order
        with p that show ?thesis by blast
      qed
      with 1 ns(2) show ?thesis by auto
    next
      case 2
      have "snd r' < fst r" if "r' \<in> set rs" "touches a b r'" for r'
      proof -
        have "fst r' \<le> b" using that(2) by (simp add: touches_def)
        then have "\<not> snd r < fst r'" using 2 l by order
        with p that show ?thesis by blast
      qed
      with 2 ne(2) show ?thesis by auto
    qed
  qed
  moreover have "ns < ne" using ns(1) ne(1) assms(2) by simp
  ultimately show ?thesis
    using rg_insert_separated [OF separated_filter [OF assms(1)], of ns ne "\<lambda>r. \<not> touches a b r"] assms(2) [unfolded not_le [symmetric]] k
    by (simp add: merge_range_def m foldl_rg_remove)
qed

lemma merge_range_covers:
  assumes "separated rs" and "a < b"
  shows "covers (merge_range a b rs) i \<longleftrightarrow> covers rs i \<or> a \<le> i \<and> i < b"
proof -
  let ?t = "filter (touches a b) rs"
  let ?ns = "foldl min a (map fst ?t)" and ?ne = "foldl max b (map snd ?t)"
  have ns: "?ns \<le> a" "?ns = a \<or> (\<exists>r \<in> set rs. touches a b r \<and> ?ns = fst r)"
    and ne: "b \<le> ?ne" "?ne = b \<or> (\<exists>r \<in> set rs. touches a b r \<and> ?ne = snd r)"
    using foldl_min_le [of a "map fst ?t"] foldl_min_in [of a "map fst ?t"] foldl_max_ge [of b "map snd ?t"] foldl_max_in [of b "map snd ?t"]
    by auto
  have "?ns \<le> i \<and> i < ?ne \<longleftrightarrow> a \<le> i \<and> i < b \<or> (\<exists>r \<in> set rs. touches a b r \<and> fst r \<le> i \<and> i < snd r)" (is "?L = ?R")
  proof
    assume L: ?L
    consider "i < a" | "b \<le> i" | "a \<le> i \<and> i < b" by fastforce
    then show ?R
    proof cases
      case 1
      with L ns(2) obtain r where "r \<in> set rs" "touches a b r" "?ns = fst r" by auto
      with 1 L show ?thesis by (auto simp: touches_def intro: less_le_trans)
    next
      case 2
      with L ne(2) obtain r where "r \<in> set rs" "touches a b r" "?ne = snd r" by auto
      with 2 L show ?thesis by (auto simp: touches_def intro: order_trans)
    qed simp
  next
    assume ?R
    then show ?L
    proof
      assume "\<exists>r \<in> set rs. touches a b r \<and> fst r \<le> i \<and> i < snd r"
      then obtain r where r: "r \<in> set rs" "touches a b r" "fst r \<le> i" "i < snd r" by blast
      then have "?ns \<le> fst r" "snd r \<le> ?ne" by (auto intro!: foldl_min_mem foldl_max_mem)
      with r show ?thesis by (auto intro: order_trans less_le_trans)
    qed (use ns(1) ne(1) in \<open>auto intro: order_trans less_le_trans\<close>)
  qed
  moreover have "covers (merge_range a b rs) i \<longleftrightarrow> ?ns \<le> i \<and> i < ?ne \<or> (\<exists>r \<in> set rs. \<not> touches a b r \<and> fst r \<le> i \<and> i < snd r)"
    unfolding covers_def conjunct2 [OF merge_range_eq [OF assms]] bex_simps(5) by (simp only: fst_conv snd_conv mem_Collect_eq) blast
  ultimately show ?thesis unfolding covers_def by blast
qed

section \<open>Refinement of a partially known file\<close>

text \<open>The specification: the bytes of the file known so far.\<close>

type_synonym partial_file = "u64 \<rightharpoonup> u8"

definition file_write :: "u64 \<Rightarrow> u64 \<Rightarrow> bytes \<Rightarrow> partial_file \<Rightarrow> partial_file" where
  "file_write total_size offset d m =
     (\<lambda>i. if offset \<le> i \<and> unat i < unat offset + length d \<and> i < total_size then Some (d ! (unat i - unat offset)) else m i)"

definition file_read :: "u64 \<Rightarrow> u64 \<Rightarrow> partial_file \<Rightarrow> bytes option" where
  "file_read offset len m =
     (let bs = map (\<lambda>k. m (offset + of_nat k)) [0..<unat len] in if None \<in> set bs then None else Some (map the bs))"

definition rb_abs :: "ring_buffer \<Rightarrow> partial_file" where
  "rb_abs b i = (if covers (rb_filled b) i then Some (rb_data b ! unat i) else None)"

definition rb_inv :: "ring_buffer \<Rightarrow> bool" where
  "rb_inv b \<longleftrightarrow> length (rb_data b) = unat (rb_capacity b) \<and> rb_file_offset b = 0 \<and> rb_total_size b \<le> rb_capacity b \<and>
     separated (rb_filled b) \<and> (\<forall>r \<in> set (rb_filled b). snd r \<le> rb_total_size b)"

lemma rb_new_inv: "total_size \<le> capacity \<Longrightarrow> rb_inv (rb_new capacity total_size) \<and> rb_abs (rb_new capacity total_size) = Map.empty"
  by (auto simp: rb_new_def rb_inv_def separated_def rb_abs_def covers_def)

lemma covers_bound: "\<forall>r \<in> set rs. snd r \<le> t \<Longrightarrow> covers rs i \<Longrightarrow> i < t"
  by (auto simp: covers_def intro: less_le_trans)

lemma merge_range_bound:
  assumes "separated rs" and "a < b" and "b \<le> t" and "\<forall>r \<in> set rs. snd r \<le> t"
  shows "\<forall>r \<in> set (merge_range a b rs). snd r \<le> t"
  using merge_range_eq [OF assms(1,2)] assms(3,4) foldl_max_in [of b "map snd (filter (touches a b) rs)"] by auto

text \<open>The state a write inside the file leads to.\<close>

definition rb_updated :: "u64 \<Rightarrow> u64 \<Rightarrow> bytes \<Rightarrow> ring_buffer \<Rightarrow> ring_buffer" where
  "rb_updated offset e d b = b\<lparr>rb_data := take (unat offset) (rb_data b) @ take (unat (e - offset)) d @ drop (unat e) (rb_data b),
     rb_filled := merge_range offset e (rb_filled b)\<rparr>"

lemma rb_write_updated:
  assumes "rb_inv b" and "unat offset + length d < 2 ^ 64" and "offset < rb_total_size b" and "d \<noteq> []"
  defines "e \<equiv> min (offset + of_nat (length d)) (rb_total_size b)"
  shows "rb_write offset d b = Ok (rb_updated offset e d b) \<and> offset < e \<and> e \<le> rb_total_size b \<and>
    unat e = min (unat offset + length d) (unat (rb_total_size b))"
proof -
  let ?t = "rb_total_size b" and ?cap = "rb_capacity b" and ?d = "take (unat (e - offset)) d"
  have t: "?t \<le> ?cap" "length (rb_data b) = unat ?cap" "rb_file_offset b = 0" using assms(1) by (auto simp: rb_inv_def)
  have "unat (offset + of_nat (length d)) = unat offset + length d"
    using assms(2) by (intro unat_add_of_nat) simp
  then have e: "unat e = min (unat offset + length d) (unat ?t)" by (simp add: e_def min_def word_le_nat_alt)
  have oe: "offset < e" using assms(3,4) e by (simp add: word_less_nat_alt)
  have len: "unat (e - offset) = unat e - unat offset" using less_imp_le [OF oe] by (rule unat_sub)
  have ld: "length ?d = unat (e - offset)" by (simp add: len e)
  then have nd: "of_nat (length ?d) = e - offset" by (simp only:) simp
  have on: "offset + of_nat (length ?d) = e" by (simp only: nd) simp
  have ec: "unat e \<le> unat ?cap" using e t(1) by (simp add: word_le_nat_alt)
  have "unat (?cap - offset) = unat ?cap - unat offset" using assms(3) t by (intro unat_sub) simp
  then have "e - offset \<le> ?cap - offset" unfolding word_le_nat_alt len using ec by linarith
  then have wl: "unat (min (of_nat (length ?d)) (?cap - offset)) = length ?d" unfolding nd by (simp only: min_absorb1 ld)
  have re: "unat offset + length ?d = unat e" using ld len oe by (simp add: word_less_nat_alt)
  have c: "(?t \<le> offset \<or> d = []) = False" "(length d < unat (e - offset)) = False" "(offset < rb_file_offset b) = False"
    "sat_sub offset (rb_file_offset b) = offset" "(rb_file_offset b + ?cap < e) = False" "(offset < ?cap) = True"
    using assms(3,4) len e t ec by (auto simp: word_less_nat_alt word_le_nat_alt)
  have l: "(unat e \<le> length (rb_data b)) = True" "take (length ?d) ?d = ?d" using ec t(2) by (simp_all only: take_all order_refl)
  have g: "rb_filled (b\<lparr>rb_data := x\<rparr>) = rb_filled b" for x by simp
  have "rb_write offset d b = Ok (rb_updated offset e d b)"
    by (simp only: rb_write_def rb_updated_def Let_def if_False if_True c on wl re l g e_def [symmetric])
  with oe e show ?thesis by (simp add: e_def)
qed

lemma rb_updated_inv:
  assumes "rb_inv b" and "offset < e" and "e \<le> rb_total_size b" and "unat (e - offset) \<le> length d"
  shows "rb_inv (rb_updated offset e d b)"
proof -
  have i: "separated (rb_filled b)" "\<forall>r \<in> set (rb_filled b). snd r \<le> rb_total_size b" "length (rb_data b) = unat (rb_capacity b)"
    "rb_total_size b \<le> rb_capacity b" using assms(1) by (auto simp: rb_inv_def)
  have "unat (e - offset) = unat e - unat offset" using less_imp_le [OF assms(2)] by (rule unat_sub)
  then have "length (rb_data (rb_updated offset e d b)) = unat (rb_capacity b)"
    using assms i(3,4) by (simp add: rb_updated_def word_less_nat_alt word_le_nat_alt)
  then show ?thesis
    using merge_range_eq [OF i(1) assms(2)] merge_range_bound [OF i(1) assms(2,3) i(2)] assms(1)
    by (simp add: rb_inv_def rb_updated_def)
qed

lemma rb_updated_abs:
  assumes "rb_inv b" and "offset < e" and "e \<le> rb_total_size b" and "unat (e - offset) \<le> length d"
  shows "rb_abs (rb_updated offset e d b) i = (if offset \<le> i \<and> i < e then Some (d ! (unat i - unat offset)) else rb_abs b i)"
proof -
  have s: "separated (rb_filled b)" "\<forall>r \<in> set (rb_filled b). snd r \<le> rb_total_size b" "length (rb_data b) = unat (rb_capacity b)"
    "rb_total_size b \<le> rb_capacity b" using assms(1) by (auto simp: rb_inv_def)
  let ?d = "take (unat (e - offset)) d" and ?data = "rb_data (rb_updated offset e d b)"
  have len: "unat (e - offset) = unat e - unat offset" using less_imp_le [OF assms(2)] by (rule unat_sub)
  have lo: "length (take (unat offset) (rb_data b)) = unat offset" "length ?d = unat (e - offset)"
    using assms s(3,4) by (simp_all add: word_less_nat_alt word_le_nat_alt)
  have c: "covers (rb_filled (rb_updated offset e d b)) i \<longleftrightarrow> covers (rb_filled b) i \<or> offset \<le> i \<and> i < e"
    using merge_range_covers [OF s(1) assms(2)] by (simp add: rb_updated_def)
  have "?data ! unat i = d ! (unat i - unat offset)" if "offset \<le> i \<and> i < e"
  proof -
    have j: "unat offset \<le> unat i" "unat i - unat offset < unat (e - offset)"
      using that unfolding len by (auto simp: word_le_nat_alt word_less_nat_alt)
    then have "?data ! unat i = ?d ! (unat i - unat offset)" using lo by (simp add: rb_updated_def nth_append del: length_take)
    with j show ?thesis by simp
  qed
  moreover have "?data ! unat i = rb_data b ! unat i" if "\<not> (offset \<le> i \<and> i < e)" "covers (rb_filled b) i"
  proof -
    have "unat i < length (rb_data b)" using covers_bound [OF s(2) that(2)] s(3,4) by (simp add: word_less_nat_alt word_le_nat_alt)
    with that(1) lo len assms(2) show ?thesis
      by (auto simp: rb_updated_def nth_append word_le_nat_alt word_less_nat_alt simp del: length_take)
  qed
  ultimately show ?thesis by (auto simp: rb_abs_def c)
qed

lemma rb_write_refines:
  assumes "rb_inv b" and "unat offset + length d < 2 ^ 64"
  shows "\<exists>b'. rb_write offset d b = Ok b' \<and> rb_inv b' \<and> rb_total_size b' = rb_total_size b \<and>
    rb_abs b' = file_write (rb_total_size b) offset d (rb_abs b)"
proof (cases "rb_total_size b \<le> offset \<or> d = []")
  case True
  have "file_write (rb_total_size b) offset d (rb_abs b) = rb_abs b"
    using True by (auto simp: file_write_def fun_eq_iff word_le_nat_alt word_less_nat_alt)
  with True assms(1) show ?thesis by (simp add: rb_write_def)
next
  case False
  then have f: "offset < rb_total_size b" "d \<noteq> []" by auto
  let ?e = "min (offset + of_nat (length d)) (rb_total_size b)"
  note u = rb_write_updated [OF assms f]
  have d: "unat (?e - offset) \<le> length d" using u by (subst unat_sub) auto
  have i: "i < ?e \<longleftrightarrow> unat i < unat offset + length d \<and> i < rb_total_size b" for i
    using u by (simp add: word_less_nat_alt)
  have "rb_abs (rb_updated offset ?e d b) = file_write (rb_total_size b) offset d (rb_abs b)"
    using rb_updated_abs [OF assms(1) _ _ d] u unfolding file_write_def fun_eq_iff i by simp
  moreover have "rb_total_size (rb_updated offset ?e d b) = rb_total_size b" by (simp add: rb_updated_def)
  ultimately show ?thesis using u rb_updated_inv [OF assms(1) _ _ d] by blast
qed

lemma range_filled_iff:
  assumes "separated rs" and "a < b"
  shows "(\<exists>r \<in> set rs. fst r \<le> a \<and> b \<le> snd r) \<longleftrightarrow> (\<forall>i. a \<le> i \<and> i < b \<longrightarrow> covers rs i)"
proof
  assume "\<forall>i. a \<le> i \<and> i < b \<longrightarrow> covers rs i"
  note c = this
  from c assms(2) obtain r where r: "r \<in> set rs" "fst r \<le> a" "a < snd r" by (auto simp: covers_def)
  have "b \<le> snd r"
  proof (rule ccontr)
    assume "\<not> b \<le> snd r"
    then have "a \<le> snd r \<and> snd r < b" using r(3) by (simp add: not_le less_imp_le)
    with c obtain r' where r': "r' \<in> set rs" "fst r' \<le> snd r" "snd r < snd r'" by (auto simp: covers_def)
    have l: "fst r < snd r" by (rule separated_less [OF assms(1) r(1)])
    from separated_pair [OF assms(1) r(1) r'(1)] consider "r = r'" | "snd r < fst r'" | "snd r' < fst r" by blast
    then show False
    proof cases
      case 1
      with r'(3) show ?thesis by simp
    next
      case 2
      with r'(2) show ?thesis by order
    next
      case 3
      with r'(3) l show ?thesis by order
    qed
  qed
  with r show "\<exists>r \<in> set rs. fst r \<le> a \<and> b \<le> snd r" by blast
qed (auto simp: covers_def intro: order_trans less_le_trans)

lemma rb_read_refines:
  assumes "rb_inv b" and "0 < len" and "unat offset + unat len < 2 ^ 64"
  shows "rb_read offset len b = Ok (file_read offset len (rb_abs b))"
proof -
  have sep: "separated (rb_filled b)" "\<forall>r \<in> set (rb_filled b). snd r \<le> rb_total_size b"
    and b: "length (rb_data b) = unat (rb_capacity b)" "rb_file_offset b = 0" "rb_total_size b \<le> rb_capacity b"
    using assms(1) by (auto simp: rb_inv_def)
  have e: "unat (offset + len) = unat offset + unat len" using assms(3) by (simp add: unat_word_ariths)
  have lt: "offset < offset + len" using assms(2) by (simp add: word_less_nat_alt e)
  have k: "unat (of_nat k :: u64) = k" "unat (offset + of_nat k) = unat offset + k" if "k < unat len" for k
  proof -
    show "unat (of_nat k :: u64) = k" using that assms(3) by (simp add: unat_of_nat)
    then show "unat (offset + of_nat k) = unat offset + k" using that assms(3) by (simp add: unat_word_ariths)
  qed
  have f: "is_range_filled offset len b \<longleftrightarrow> (\<forall>k < unat len. covers (rb_filled b) (offset + of_nat k))"
  proof -
    have "is_range_filled offset len b \<longleftrightarrow> (\<forall>i. offset \<le> i \<and> i < offset + len \<longrightarrow> covers (rb_filled b) i)"
      using range_filled_iff [OF sep(1) lt] by (auto simp: is_range_filled_def list_ex_iff split_beta)
    also have "\<dots> \<longleftrightarrow> (\<forall>k < unat len. covers (rb_filled b) (offset + of_nat k))"
    proof (intro iffI allI impI)
      fix k assume "\<forall>i. offset \<le> i \<and> i < offset + len \<longrightarrow> covers (rb_filled b) i" "k < unat len"
      then show "covers (rb_filled b) (offset + of_nat k)" using k(2) [of k] e by (auto simp: word_le_nat_alt word_less_nat_alt)
    next
      fix i assume "\<forall>k < unat len. covers (rb_filled b) (offset + of_nat k)" "offset \<le> i \<and> i < offset + len"
      moreover from this(2) have "unat (i - offset) = unat i - unat offset" "unat i - unat offset < unat len"
        using e by (auto simp: unat_sub word_le_nat_alt word_less_nat_alt)
      ultimately have "covers (rb_filled b) (offset + of_nat (unat (i - offset)))" by auto
      then show "covers (rb_filled b) i" by simp
    qed
    finally show ?thesis .
  qed
  show ?thesis
  proof (cases "is_range_filled offset len b")
    case True
    have "unat len - 1 < unat len" using assms(2) by (simp add: word_less_nat_alt)
    with True f have "covers (rb_filled b) (offset + of_nat (unat len - 1))" by blast
    from covers_bound [OF sep(2) this] b(3) have ec: "unat (offset + len) \<le> unat (rb_capacity b)"
      using k(2) [of "unat len - 1"] assms(2) e by (auto simp: word_le_nat_alt word_less_nat_alt)
    have "rb_read offset len b = Ok (Some (subslice (unat offset) (unat offset + unat len) (rb_data b)))"
      using True ec b e by (simp add: rb_read_def Let_def sat_sub_def word_less_nat_alt word_le_nat_alt)
    moreover have "subslice (unat offset) (unat offset + unat len) (rb_data b) = map (\<lambda>k. rb_data b ! (unat offset + k)) [0..<unat len]"
      using ec e b(1) by (intro nth_equalityI) (auto simp: subslice_def)
    moreover have "map (\<lambda>k. rb_abs b (offset + of_nat k)) [0..<unat len] = map (\<lambda>k. Some (rb_data b ! (unat offset + k))) [0..<unat len]"
      using True f k(2) by (auto simp: rb_abs_def)
    ultimately show ?thesis by (simp add: file_read_def Let_def comp_def image_iff)
  next
    case False
    with f obtain j where "j < unat len" "\<not> covers (rb_filled b) (offset + of_nat j)" by blast
    then have "None \<in> set (map (\<lambda>k. rb_abs b (offset + of_nat k)) [0..<unat len])"
      by (auto simp: rb_abs_def image_iff intro!: bexI [of _ j])
    with False show ?thesis by (simp add: rb_read_def file_read_def Let_def)
  qed
qed

text \<open>A sequence of writes, of the buffer and of the specification.\<close>

fun rb_writes :: "(u64 \<times> bytes) list \<Rightarrow> ring_buffer \<Rightarrow> (ring_buffer, qvod_error) result" where
  "rb_writes [] b = Ok b"
| "rb_writes ((offset, d) # ws) b = and_then (rb_write offset d b) (rb_writes ws)"

fun file_writes :: "u64 \<Rightarrow> (u64 \<times> bytes) list \<Rightarrow> partial_file \<Rightarrow> partial_file" where
  "file_writes total_size [] m = m"
| "file_writes total_size ((offset, d) # ws) m = file_writes total_size ws (file_write total_size offset d m)"

lemma rb_writes_refine:
  assumes "rb_inv b" and "\<forall>(offset, d) \<in> set ws. unat offset + length d < 2 ^ 64"
  shows "\<exists>b'. rb_writes ws b = Ok b' \<and> rb_inv b' \<and> rb_abs b' = file_writes (rb_total_size b) ws (rb_abs b)"
  using assms
proof (induction ws arbitrary: b)
  case (Cons w ws)
  obtain offset d where w: "w = (offset, d)" by fastforce
  from Cons.prems obtain b' where b': "rb_write offset d b = Ok b'" "rb_inv b'" "rb_total_size b' = rb_total_size b"
    "rb_abs b' = file_write (rb_total_size b) offset d (rb_abs b)"
    using rb_write_refines [of b offset d] by (auto simp: w)
  from Cons.IH [OF b'(2)] Cons.prems(2) b' show ?case by (auto simp: w)
qed simp

text \<open>
  C2: a buffer at least as large as the file refines the partially known file: any sequence of writes succeeds,
  and a read then returns the bytes last written, or nothing when some byte of the range was never written.
\<close>

theorem ring_buffer_refines:
  assumes "total_size \<le> capacity" and "\<forall>(offset, d) \<in> set ws. unat offset + length d < 2 ^ 64"
    and "0 < len" and "unat offset + unat len < 2 ^ 64"
  shows "and_then (rb_writes ws (rb_new capacity total_size)) (rb_read offset len) =
    Ok (file_read offset len (file_writes total_size ws Map.empty))"
proof -
  from rb_writes_refine [of "rb_new capacity total_size" ws] rb_new_inv [OF assms(1)] assms(2) obtain b where
    "rb_writes ws (rb_new capacity total_size) = Ok b" "rb_inv b" "rb_abs b = file_writes total_size ws Map.empty"
    by (auto simp: rb_new_def)
  with rb_read_refines [OF this(2) assms(3,4)] show ?thesis by simp
qed

theorem ring_buffer_refines_witness:
  "and_then (rb_writes [(4, [5, 6]), (0, [1, 2, 3, 4])] (rb_new 8 6)) (rb_read 2 4) =
     Ok (file_read 2 4 (file_writes 6 [(4, [5, 6]), (0, [1, 2, 3, 4])] Map.empty))"
  by (rule ring_buffer_refines) (simp_all add: word_less_nat_alt word_le_nat_alt)

text \<open>
  With a window smaller than the file, the ranges become relative to the window while reads compare them with
  positions of the file: here a read of the bytes 0 and 1 of the file returns the bytes 2 and 3.
\<close>

lemma ring_buffer_window_wrong:
  "and_then (rb_writes [(0, [1, 1, 1, 1]), (2, [2, 2, 2, 2])] (rb_new 4 10)) (rb_read 0 2) = Ok (Some [2, 2])"
  by code_simp

text \<open>A length close to the end of the integer range passes the wrapped comparisons, and the slice panics.\<close>

lemma ring_buffer_read_panics:
  "and_then (rb_writes [(0, [1, 1, 1, 1])] (rb_new 4 10)) (rb_read 3 (- 2)) = Panic"
  by code_simp

end
