(* ===== verification/Seek_Hls.thy ===== *)
theory Seek_Hls
  imports File_Meta Ring_Buffer
begin

text \<open>
  Small parts of the stream crate: seeking (\<open>seek.rs\<close>), the HLS play list (\<open>hls.rs\<close>), metadata
  resolution and the progress tracker (\<open>metadata.rs\<close>), and the engine configuration
  (\<open>config.rs\<close>).
\<close>

section \<open>Seeking\<close>

record seek_engine =
  se_metadata :: file_meta

definition se_new :: "file_meta \<Rightarrow> seek_engine" where
  "se_new m = \<lparr>se_metadata = m\<rparr>"

definition find_nearest_keyframe :: "seek_engine \<Rightarrow> u64 \<Rightarrow> (u64, qvod_error) result" where
  "find_nearest_keyframe s t =
     and_then (ok_or (fm_keyframe_index (se_metadata s)) (Protocol ''no keyframe index'')) (\<lambda>kfi.
     and_then (ok_or (find_nearest_i_frame kfi t) (Protocol ''no keyframe found'')) (\<lambda>e.
     Ok (kf_file_offset e)))"

definition piece_for_offset :: "seek_engine \<Rightarrow> u64 \<Rightarrow> u32" where
  "piece_for_offset s offset =
     (if fm_piece_length (se_metadata s) = 0 then 0 else ucast (offset div fm_piece_length (se_metadata s)))"

section \<open>The HLS play list\<close>

definition TARGET_DURATION :: u64 where "TARGET_DURATION = 10"

record hls_adapter =
  hl_metadata :: file_meta
  hl_segment_duration :: u64

definition hls_new :: "file_meta \<Rightarrow> hls_adapter" where
  "hls_new m = \<lparr>hl_metadata = m, hl_segment_duration = TARGET_DURATION\<rparr>"

definition segment_count :: "hls_adapter \<Rightarrow> nat" where
  "segment_count h = (case fm_keyframe_index (hl_metadata h) of None \<Rightarrow> 1 | Some kfi \<Rightarrow> length (find_all_i_frames kfi))"

definition segment_info :: "hls_adapter \<Rightarrow> nat \<Rightarrow> (u64 \<times> u64, qvod_error) result" where
  "segment_info h i =
     and_then (ok_or (fm_keyframe_index (hl_metadata h)) (Protocol ''no keyframe index'')) (\<lambda>kfi.
     ok_or (segment_at kfi i) (Protocol ''segment index out of range''))"

text \<open>The lines of one segment; the precision of the format has no effect on an integer.\<close>

definition segment_lines :: "hls_adapter \<Rightarrow> u64 \<times> u64 \<Rightarrow> string" where
  "segment_lines h s =
     ''#EXTINF:'' @ show_u64 (hl_segment_duration h) @ '',\<newline>'' @
     ''/segment?offset='' @ show_u64 (fst s) @ ''&length='' @ show_u64 (snd s) @ ''\<newline>''"

fun segment_loop :: "hls_adapter \<Rightarrow> nat list \<Rightarrow> string \<Rightarrow> (string, qvod_error) result" where
  "segment_loop h [] playlist = Ok playlist"
| "segment_loop h (i # is) playlist =
     and_then (segment_info h i) (\<lambda>s. segment_loop h is (playlist @ segment_lines h s))"

definition m3u8_head :: "hls_adapter \<Rightarrow> string" where
  "m3u8_head h = ''#EXTM3U\<newline>'' @ ''#EXT-X-VERSION:3\<newline>'' @
     ''#EXT-X-TARGETDURATION:'' @ show_u64 (hl_segment_duration h) @ ''\<newline>'' @ ''#EXT-X-MEDIA-SEQUENCE:0\<newline>\<newline>''"

definition generate_m3u8 :: "hls_adapter \<Rightarrow> (string, qvod_error) result" where
  "generate_m3u8 h =
     and_then (segment_loop h [0..<segment_count h] (m3u8_head h)) (\<lambda>p. Ok (p @ ''#EXT-X-ENDLIST\<newline>''))"

definition wrap_as_ts :: "hls_adapter \<Rightarrow> bytes \<Rightarrow> bytes" where
  "wrap_as_ts h d = d"

text \<open>The play list of an index: one entry per segment, in order. Without an index there is none.\<close>

lemma segment_loop_Ok:
  assumes "\<forall>i \<in> set is. segment_info h i = Ok (f i)"
  shows "segment_loop h is p = Ok (p @ concat (map (\<lambda>i. segment_lines h (f i)) is))"
  using assms by (induction "is" arbitrary: p) auto

lemma generate_m3u8_segments:
  assumes "fm_keyframe_index (hl_metadata h) = Some kfi"
  shows "generate_m3u8 h = Ok (m3u8_head h @
    concat (map (\<lambda>i. segment_lines h (the (segment_at kfi i))) [0..<length (find_all_i_frames kfi)]) @ ''#EXT-X-ENDLIST\<newline>'')"
proof -
  have "\<forall>i \<in> set [0..<segment_count h]. segment_info h i = Ok (the (segment_at kfi i))"
    using assms by (auto simp: segment_info_def segment_count_def segment_at_def Let_def)
  from segment_loop_Ok [OF this, of "m3u8_head h"] show ?thesis
    using assms by (simp add: generate_m3u8_def segment_count_def)
qed

lemma generate_m3u8_no_index:
  "fm_keyframe_index (hl_metadata h) = None \<Longrightarrow> generate_m3u8 h = Err (Protocol ''no keyframe index'')"
  by (simp add: generate_m3u8_def segment_count_def segment_info_def)

section \<open>Metadata resolution and progress\<close>

definition resolve_metadata :: "info_hash \<Rightarrow> (file_meta, qvod_error) result" where
  "resolve_metadata h = Err MetadataParse"

definition resolve_from_peers :: "info_hash \<Rightarrow> peer_info list \<Rightarrow> (file_meta, qvod_error) result" where
  "resolve_from_peers h peers = Err MetadataParse"

definition empty_meta :: "info_hash \<Rightarrow> u64 \<Rightarrow> file_meta" where
  "empty_meta h file_size =
     \<lparr>fm_info_hash = h, fm_filename = ''unknown'', fm_file_size = file_size, fm_piece_length = PIECE_LENGTH, fm_pieces = [],
      fm_keyframe_index = None, fm_duration_ms = 0, fm_video_codec = None, fm_audio_codec = None, fm_width = 0, fm_height = 0,
      fm_bitrate = 0, fm_from_cache = False\<rparr>"

record progress_tracker =
  pt_buffer :: ring_buffer
  pt_metadata :: file_meta
  pt_bytes_downloaded :: u64
  pt_total_pieces :: u32
  pt_completed_pieces :: u32

text \<open>The number of pieces as the stream crate computes it: \<open>0\<close> for a zero piece length.\<close>

definition piece_count_of :: "file_meta \<Rightarrow> u32" where
  "piece_count_of m =
     (if 0 < fm_piece_length m then ucast ((fm_file_size m + fm_piece_length m - 1) div fm_piece_length m) else 0)"

definition pt_new :: "file_meta \<Rightarrow> ring_buffer \<Rightarrow> progress_tracker" where
  "pt_new m b = \<lparr>pt_buffer = b, pt_metadata = m, pt_bytes_downloaded = 0, pt_total_pieces = piece_count_of m, pt_completed_pieces = 0\<rparr>"

definition record_download :: "u64 \<Rightarrow> progress_tracker \<Rightarrow> progress_tracker" where
  "record_download n p = p\<lparr>pt_bytes_downloaded := pt_bytes_downloaded p + n\<rparr>"

definition pt_completion :: "progress_tracker \<Rightarrow> f64" where
  "pt_completion p = filled_percentage (pt_buffer p)"

section \<open>The engine configuration\<close>

record engine_config =
  ec_listen_port :: u16
  ec_udp_port :: u16
  ec_max_connections :: u32
  ec_buffer_capacity_mb :: u32
  ec_cache_dir :: string
  ec_tracker_urls :: "string list"
  ec_dht_seed_nodes :: "string list"
  ec_http_fallback :: bool
  ec_dht_enabled :: bool
  ec_tracker_enabled :: bool
  ec_cache_enabled :: bool
  ec_max_peers_per_stream :: u32
  ec_download_timeout_secs :: u64

definition engine_config_default :: engine_config where
  "engine_config_default =
     \<lparr>ec_listen_port = 8621, ec_udp_port = 8621, ec_max_connections = 50, ec_buffer_capacity_mb = 64,
      ec_cache_dir = ''/tmp/qvs-cache'', ec_tracker_urls = [''http://tracker.qvod.com:8621/announce''],
      ec_dht_seed_nodes = [''router.bittorrent.com:6881''], ec_http_fallback = True, ec_dht_enabled = False,
      ec_tracker_enabled = True, ec_cache_enabled = True, ec_max_peers_per_stream = 50, ec_download_timeout_secs = 30\<rparr>"

definition engine_config_load :: "string \<Rightarrow> (engine_config, qvod_error) result" where
  "engine_config_load path = Ok engine_config_default"

definition buffer_capacity :: "engine_config \<Rightarrow> u64" where
  "buffer_capacity c = ucast (ec_buffer_capacity_mb c) * 1024 * 1024"

text \<open>The product does not overflow.\<close>

lemma buffer_capacity_unat: "unat (buffer_capacity c) = unat (ec_buffer_capacity_mb c) * 2 ^ 20"
proof -
  have "unat (ec_buffer_capacity_mb c) < 2 ^ 32" using unsigned_less [of "ec_buffer_capacity_mb c"] by simp
  then show ?thesis by (simp add: buffer_capacity_def unat_word_ariths unsigned_ucast_eq take_bit_nat_eq_self)
qed

end
