(* ===== verification/Playback.thy ===== *)
theory Playback
  imports Core_Types Congestion
begin

text \<open>
  The playback state (\<open>qvs-stream/src/playback.rs\<close>) and the adaptive buffer control
  (\<open>adaptive.rs\<close>). Every operation of the stream is total, so it is a function on the state; the
  clock is an argument.
\<close>

section \<open>The stream\<close>

datatype stream_state = Initializing | Buffering | Playing | Paused | Seeking | Ended | Error

record stream_stats =
  ss_position_ms :: u64
  ss_duration_ms :: u64
  ss_speed_bps :: f64
  ss_buffered_seconds :: f64
  ss_peer_count :: nat
  ss_state :: stream_state
  ss_download_progress :: f64
  ss_bytes_downloaded :: u64

definition ss_new :: "u64 \<Rightarrow> stream_stats" where
  "ss_new duration_ms = \<lparr>ss_position_ms = 0, ss_duration_ms = duration_ms, ss_speed_bps = 0, ss_buffered_seconds = 0,
     ss_peer_count = 0, ss_state = Initializing, ss_download_progress = 0, ss_bytes_downloaded = 0\<rparr>"

record media_stream =
  ms_stats :: stream_stats
  ms_paused :: bool
  ms_seek_target :: "u64 option"

definition ms_new :: "stream_stats \<Rightarrow> media_stream" where
  "ms_new stats = \<lparr>ms_stats = stats, ms_paused = True, ms_seek_target = None\<rparr>"

definition set_state :: "stream_state \<Rightarrow> media_stream \<Rightarrow> media_stream" where
  "set_state st s = s\<lparr>ms_stats := (ms_stats s)\<lparr>ss_state := st\<rparr>\<rparr>"

definition ms_state :: "media_stream \<Rightarrow> stream_state" where
  "ms_state s = ss_state (ms_stats s)"

definition ms_position :: "media_stream \<Rightarrow> u64" where
  "ms_position s = ss_position_ms (ms_stats s)"

definition ms_play :: "media_stream \<Rightarrow> media_stream \<times> (unit, qvod_error) result" where
  "ms_play s = (set_state Playing (s\<lparr>ms_paused := False\<rparr>), Ok ())"

definition ms_pause :: "media_stream \<Rightarrow> media_stream" where
  "ms_pause s = set_state Paused (s\<lparr>ms_paused := True\<rparr>)"

definition ms_resume :: "media_stream \<Rightarrow> media_stream" where
  "ms_resume s = set_state Playing (s\<lparr>ms_paused := False\<rparr>)"

definition ms_seek :: "u64 \<Rightarrow> media_stream \<Rightarrow> media_stream" where
  "ms_seek t s = (let s1 = set_state Seeking (s\<lparr>ms_seek_target := Some t\<rparr>)
     in s1\<lparr>ms_stats := (ms_stats s1)\<lparr>ss_position_ms := t\<rparr>\<rparr>)"

definition ms_end :: "media_stream \<Rightarrow> media_stream" where
  "ms_end s = set_state Ended s"

definition update_position :: "u64 \<Rightarrow> media_stream \<Rightarrow> media_stream" where
  "update_position p s =
     (let s1 = (if ms_state s = Seeking then (set_state Playing s)\<lparr>ms_seek_target := None\<rparr> else s)
      in s1\<lparr>ms_stats := (ms_stats s1)\<lparr>ss_position_ms := p\<rparr>\<rparr>)"

definition update_speed :: "f64 \<Rightarrow> media_stream \<Rightarrow> media_stream" where
  "update_speed v s = s\<lparr>ms_stats := (ms_stats s)\<lparr>ss_speed_bps := v\<rparr>\<rparr>"

definition update_buffered :: "f64 \<Rightarrow> media_stream \<Rightarrow> media_stream" where
  "update_buffered v s = s\<lparr>ms_stats := (ms_stats s)\<lparr>ss_buffered_seconds := v\<rparr>\<rparr>"

definition update_peers :: "nat \<Rightarrow> media_stream \<Rightarrow> media_stream" where
  "update_peers n s = s\<lparr>ms_stats := (ms_stats s)\<lparr>ss_peer_count := n\<rparr>\<rparr>"

definition update_progress :: "f64 \<Rightarrow> u64 \<Rightarrow> media_stream \<Rightarrow> media_stream" where
  "update_progress v n s = s\<lparr>ms_stats := (ms_stats s)\<lparr>ss_download_progress := v, ss_bytes_downloaded := n\<rparr>\<rparr>"

text \<open>What can happen to a stream: the calls of its user and of its download task.\<close>

datatype stream_event =
    EPlay | EPause | EResume | ESeek u64 | EEnd | EPosition u64 | ESpeed f64 | EBuffered f64 | EPeers nat | EProgress f64 u64

fun ms_apply :: "stream_event \<Rightarrow> media_stream \<Rightarrow> media_stream" where
  "ms_apply EPlay s = fst (ms_play s)"
| "ms_apply EPause s = ms_pause s"
| "ms_apply EResume s = ms_resume s"
| "ms_apply (ESeek t) s = ms_seek t s"
| "ms_apply EEnd s = ms_end s"
| "ms_apply (EPosition p) s = update_position p s"
| "ms_apply (ESpeed v) s = update_speed v s"
| "ms_apply (EBuffered v) s = update_buffered v s"
| "ms_apply (EPeers n) s = update_peers n s"
| "ms_apply (EProgress v n) s = update_progress v n s"

definition ms_run :: "stream_event list \<Rightarrow> media_stream \<Rightarrow> media_stream" where
  "ms_run es s = foldl (\<lambda>s e. ms_apply e s) s es"

lemmas ms_defs = ms_play_def ms_pause_def ms_resume_def ms_seek_def ms_end_def update_position_def update_speed_def
  update_buffered_def update_peers_def update_progress_def set_state_def ms_state_def ms_position_def

section \<open>What the events determine\<close>

text \<open>The flag and the position that a sequence of events, latest first, asks for.\<close>

fun wanted_paused :: "stream_event list \<Rightarrow> bool" where
  "wanted_paused [] = True"
| "wanted_paused (EPlay # es) = False"
| "wanted_paused (EResume # es) = False"
| "wanted_paused (EPause # es) = True"
| "wanted_paused (_ # es) = wanted_paused es"

fun wanted_position :: "stream_event list \<Rightarrow> u64" where
  "wanted_position [] = 0"
| "wanted_position (ESeek t # es) = t"
| "wanted_position (EPosition p # es) = p"
| "wanted_position (_ # es) = wanted_position es"

fun wanted_state :: "stream_event list \<Rightarrow> stream_state" where
  "wanted_state [] = Initializing"
| "wanted_state (EPlay # es) = Playing"
| "wanted_state (EResume # es) = Playing"
| "wanted_state (EPause # es) = Paused"
| "wanted_state (ESeek t # es) = Seeking"
| "wanted_state (EEnd # es) = Ended"
| "wanted_state (EPosition p # es) = (if wanted_state es = Seeking then Playing else wanted_state es)"
| "wanted_state (_ # es) = wanted_state es"

definition stream_inv :: "media_stream \<Rightarrow> bool" where
  "stream_inv s \<longleftrightarrow> (ms_state s = Paused \<longrightarrow> ms_paused s) \<and> (ms_state s = Seeking \<longrightarrow> ms_seek_target s = Some (ms_position s)) \<and>
     (ms_state s = Initializing \<longrightarrow> ms_paused s)"

lemma ms_run_snoc: "ms_run (es @ [e]) s = ms_apply e (ms_run es s)"
  by (simp add: ms_run_def)

lemma ms_apply_inv: "stream_inv s \<Longrightarrow> stream_inv (ms_apply e s)"
  by (cases e) (auto simp: stream_inv_def ms_defs Let_def)

lemma ms_run_facts:
  "stream_inv (ms_run es (ms_new (ss_new d))) \<and> ms_paused (ms_run es (ms_new (ss_new d))) = wanted_paused (rev es) \<and>
   ms_position (ms_run es (ms_new (ss_new d))) = wanted_position (rev es) \<and>
   ms_state (ms_run es (ms_new (ss_new d))) = wanted_state (rev es)"
proof (induction es rule: rev_induct)
  case Nil
  show ?case by (simp add: ms_run_def stream_inv_def ms_new_def ss_new_def ms_defs)
next
  case (snoc e es)
  then have "stream_inv (ms_apply e (ms_run es (ms_new (ss_new d))))" by (intro ms_apply_inv) simp
  with snoc show ?case by (cases e) (simp_all add: ms_run_snoc ms_defs Let_def)
qed

text \<open>
  C15: after any sequence of events the paused flag, the position and the state shown are those the events ask for,
  where a report of the position ends a seek. So a stream shown as paused, or never started, has its paused flag set
  (whether a download heeds the flag is a matter of its loop), and one that is seeking is at its target; but a pause
  followed by a seek and the next report of the position leaves a stream whose flag is set and that is shown as playing.
\<close>

theorem playback_states:
  "ms_paused (ms_run es (ms_new (ss_new d))) = wanted_paused (rev es) \<and>
   ms_position (ms_run es (ms_new (ss_new d))) = wanted_position (rev es) \<and>
   ms_state (ms_run es (ms_new (ss_new d))) = wanted_state (rev es) \<and>
   stream_inv (ms_run es (ms_new (ss_new d))) \<and>
   (let s = ms_run (es @ [EPause, ESeek t, EPosition p]) (ms_new (ss_new d)) in ms_paused s \<and> ms_state s = Playing)"
proof -
  have "ms_run (es @ [EPause, ESeek t, EPosition p]) s =
    ms_apply (EPosition p) (ms_apply (ESeek t) (ms_apply EPause (ms_run es s)))" for s
    by (simp add: ms_run_def)
  then show ?thesis using ms_run_facts [of es d] by (simp add: ms_defs Let_def)
qed

section \<open>Adaptive buffering\<close>

datatype buffer_command = PauseAndBuffer | ThrottleUpload | NormalBuffer | IncreaseHttpRatio

record adaptive_buffer =
  ab_state :: buffer_command
  ab_speed_samples :: "f64 list"
  ab_rtt_samples :: "nat list"
  ab_last_tick :: nat

definition ab_new :: "nat \<Rightarrow> adaptive_buffer" where
  "ab_new now = \<lparr>ab_state = NormalBuffer, ab_speed_samples = [], ab_rtt_samples = [], ab_last_tick = now\<rparr>"

definition push_sample :: "'a \<Rightarrow> 'a list \<Rightarrow> 'a list" where
  "push_sample x xs = (let ys = xs @ [x] in if 100 < length ys then tl ys else ys)"

definition ab_command :: "f64 \<Rightarrow> nat \<Rightarrow> f64 \<Rightarrow> buffer_command" where
  "ab_command speed rtt buffered =
     (let c = (if buffered < 2 \<and> speed < 100000 then PauseAndBuffer
               else if buffered < 5 then NormalBuffer
               else if 30 < buffered then ThrottleUpload
               else NormalBuffer)
      in if millis 500 < rtt \<and> speed < 200000 then IncreaseHttpRatio else c)"

definition ab_tick :: "nat \<Rightarrow> f64 \<Rightarrow> nat \<Rightarrow> f64 \<Rightarrow> adaptive_buffer \<Rightarrow> adaptive_buffer \<times> buffer_command" where
  "ab_tick now speed rtt buffered a =
     (let c = ab_command speed rtt buffered
      in (a\<lparr>ab_speed_samples := push_sample speed (ab_speed_samples a), ab_rtt_samples := push_sample rtt (ab_rtt_samples a),
           ab_last_tick := now, ab_state := c\<rparr>, c))"

definition avg_speed :: "adaptive_buffer \<Rightarrow> f64" where
  "avg_speed a =
     (if ab_speed_samples a = [] then 0
      else f64_div (foldl f64_add 0 (ab_speed_samples a)) (f64_of_nat (length (ab_speed_samples a))))"

definition avg_rtt :: "adaptive_buffer \<Rightarrow> (nat, qvod_error) result" where
  "avg_rtt a =
     (if ab_rtt_samples a = [] then Ok (millis 100)
      else and_then (duration (sum_list (ab_rtt_samples a))) (\<lambda>s. Ok (s div length (ab_rtt_samples a))))"

definition ab_reset :: "nat \<Rightarrow> adaptive_buffer \<Rightarrow> adaptive_buffer" where
  "ab_reset now a = a\<lparr>ab_speed_samples := [], ab_rtt_samples := [], ab_state := NormalBuffer, ab_last_tick := now\<rparr>"

lemma push_sample_length: "length xs \<le> 100 \<Longrightarrow> length (push_sample x xs) \<le> 100"
  by (simp add: push_sample_def Let_def)

text \<open>Uploads are throttled only with a full buffer, and never while the round trip is slow on a slow link.\<close>

lemma throttle_only_when_buffered:
  "ab_command speed rtt buffered = ThrottleUpload \<longleftrightarrow> 30 < buffered \<and> \<not> (millis 500 < rtt \<and> speed < 200000)"
  by (auto simp: ab_command_def Let_def)

end
