(* ===== verification/Download.thy ===== *)
theory Download
  imports Seek_Hls Playback
begin

text \<open>
  The background download loops of the engine (\<open>run_download_loop\<close>, \<open>run_http_download_loop\<close>,
  \<open>run_file_download_loop\<close> in \<open>qvs-stream/src/engine.rs\<close>). A step is one iteration of the loop, with
  what the network or the file did as its argument; between two steps the user may act on the stream.
\<close>

section \<open>The task\<close>

record download =
  dl_offset :: u64
  dl_piece :: u32
  dl_errors :: u32
  dl_buffer :: ring_buffer
  dl_stream :: media_stream
  dl_running :: bool

definition dl_start :: "ring_buffer \<Rightarrow> media_stream \<Rightarrow> download" where
  "dl_start b s = \<lparr>dl_offset = 0, dl_piece = 0, dl_errors = 0, dl_buffer = b, dl_stream = s, dl_running = True\<rparr>"

text \<open>The end of every loop: the stream is marked as ended.\<close>

definition dl_finish :: "download \<Rightarrow> download" where
  "dl_finish d = d\<lparr>dl_stream := ms_end (dl_stream d), dl_running := False\<rparr>"

definition dl_event :: "stream_event \<Rightarrow> download \<Rightarrow> download" where
  "dl_event e d = d\<lparr>dl_stream := ms_apply e (dl_stream d)\<rparr>"

definition CHUNK_SIZE :: u64 where "CHUNK_SIZE = 65536"
definition MAX_ERRORS :: u32 where "MAX_ERRORS = 10"

section \<open>The loop for a \<open>qvod\<close> address\<close>

text \<open>Nothing is fetched: every piece is filled with zeros.\<close>

definition piece_len :: "file_meta \<Rightarrow> u32 \<Rightarrow> u64" where
  "piece_len m p =
     (if p = piece_count_of m - 1 then
        let r = fm_file_size m mod fm_piece_length m in if r = 0 then fm_piece_length m else r
      else fm_piece_length m)"

definition piece_step :: "file_meta \<Rightarrow> download \<Rightarrow> (download, qvod_error) result" where
  "piece_step m d =
     (if \<not> dl_running d then Ok d
      else if piece_count_of m \<le> dl_piece d then Ok (dl_finish d)
      else if ms_paused (dl_stream d) then Ok d
      else let n = piece_len m (dl_piece d); p = dl_piece d
           in and_then (rb_write (ucast p * fm_piece_length m) (replicate (unat n) 0) (dl_buffer d)) (\<lambda>b.
              let progress = f64_div (f64_of_nat (unat (p + 1))) (f64_of_nat (unat (piece_count_of m)))
              in Ok (d\<lparr>dl_buffer := b, dl_stream := update_progress progress (ucast (p + 1) * n) (dl_stream d), dl_piece := p + 1\<rparr>)))"

section \<open>The loop for an HTTP source\<close>

text \<open>The outcome of a request: a body with a success status, a body that failed, another status, no answer.\<close>

datatype http_outcome = HttpBody bytes | HttpBodyFailed | HttpStatus | HttpFailed

text \<open>The bounds of the \<open>Range\<close> header of the next request.\<close>

definition http_range :: "file_meta \<Rightarrow> u64 \<Rightarrow> u64 \<times> u64" where
  "http_range m offset = (offset, min (offset + CHUNK_SIZE - 1) (fm_file_size m - 1))"

definition http_check :: "file_meta \<Rightarrow> download \<Rightarrow> download" where
  "http_check m d = (if fm_file_size m \<le> dl_offset d then dl_finish d else d)"

definition http_error :: "file_meta \<Rightarrow> download \<Rightarrow> download" where
  "http_error m d =
     (let d1 = d\<lparr>dl_errors := dl_errors d + 1\<rparr> in if MAX_ERRORS \<le> dl_errors d1 then dl_finish d1 else http_check m d1)"

definition progress_of :: "u64 \<Rightarrow> u64 \<Rightarrow> f64" where
  "progress_of downloaded file_size = f64_div (f64_of_nat (unat downloaded)) (f64_of_nat (unat file_size))"

definition http_step :: "file_meta \<Rightarrow> http_outcome \<Rightarrow> download \<Rightarrow> (download, qvod_error) result" where
  "http_step m out d =
     (if \<not> dl_running d then Ok d
      else case out of
        HttpBody data \<Rightarrow>
          (if data = [] then Ok (http_error m d)
           else and_then (rb_write (dl_offset d) data (dl_buffer d)) (\<lambda>b.
             let downloaded = dl_offset d + of_nat (length data);
                 s = update_progress (progress_of downloaded (fm_file_size m)) downloaded (dl_stream d);
                 s = update_speed (f64_mul (f64_of_nat (length data)) 10) s
             in Ok (http_check m (d\<lparr>dl_errors := 0, dl_buffer := b, dl_stream := s, dl_offset := downloaded\<rparr>))))
      | _ \<Rightarrow> Ok (http_error m d))"

fun http_loop :: "file_meta \<Rightarrow> http_outcome list \<Rightarrow> download \<Rightarrow> (download, qvod_error) result" where
  "http_loop m [] d = Ok d"
| "http_loop m (out # outs) d = and_then (http_step m out d) (http_loop m outs)"

definition run_http_download_loop :: "file_meta \<Rightarrow> http_outcome list \<Rightarrow> ring_buffer \<Rightarrow> media_stream \<Rightarrow> (download, qvod_error) result" where
  "run_http_download_loop m outs b s = http_loop m outs (http_check m (dl_start b s))"

text \<open>The answer to the \<open>HEAD\<close> request: its length and type headers, as far as they are text.\<close>

definition probe_http_source :: "(unit, string) result \<Rightarrow> (string option \<times> string option, string) result \<Rightarrow> (u64 \<times> string, qvod_error) result" where
  "probe_http_source client head =
     and_then (map_err Network client) (\<lambda>_.
     and_then (map_err Network head) (\<lambda>(len, type).
     let file_size = (case Option.bind len (\<lambda>s. res_ok (parse_u64 s)) of Some n \<Rightarrow> n | None \<Rightarrow> 0);
         content_type = (case type of Some t \<Rightarrow> t | None \<Rightarrow> ''video/mp4'')
     in if file_size = 0 then Err (Protocol ''HTTP source did not return Content-Length'') else Ok (file_size, content_type)))"

section \<open>The loop for a file\<close>

definition estimate_position_ms :: "u64 \<Rightarrow> u64 \<Rightarrow> u64 \<Rightarrow> u64" where
  "estimate_position_ms offset file_size duration_ms =
     (if 0 < duration_ms then
        (if 0 < file_size then of_nat (unat offset * unat duration_ms div unat file_size) else 0)
      else if 0 < file_size then offset * 8 * 1000 div 1000000
      else 0)"

text \<open>
  The outcome of \<open>read_exact\<close>: the chunk; the end of the file, with what the chunk then holds; another
  error.
\<close>

datatype file_outcome = FileChunk bytes | FileEof bytes | FileFailed

definition read_size :: "file_meta \<Rightarrow> u64 \<Rightarrow> u64" where
  "read_size m offset = min CHUNK_SIZE (fm_file_size m - offset)"

definition file_finish :: "file_meta \<Rightarrow> download \<Rightarrow> download" where
  "file_finish m d =
     dl_finish (d\<lparr>dl_stream := update_position (estimate_position_ms (fm_file_size m) (fm_file_size m) (fm_duration_ms m)) (dl_stream d)\<rparr>)"

definition file_check :: "file_meta \<Rightarrow> download \<Rightarrow> download" where
  "file_check m d = (if fm_file_size m \<le> dl_offset d then file_finish m d else d)"

definition file_step :: "file_meta \<Rightarrow> file_outcome \<Rightarrow> download \<Rightarrow> (download, qvod_error) result" where
  "file_step m out d =
     (if \<not> dl_running d then Ok d
      else let size = fm_file_size m; dur = fm_duration_ms m; offset = dl_offset d
      in case out of
        FileChunk chunk \<Rightarrow>
          and_then (rb_write offset chunk (dl_buffer d)) (\<lambda>b.
          let downloaded = offset + of_nat (length chunk);
              s = update_progress (progress_of downloaded size) downloaded (dl_stream d);
              s = update_speed (f64_mul (f64_of_nat (length chunk)) 10) s;
              s = update_position (estimate_position_ms offset size dur) s;
              s = update_buffered (f64_div (f64_of_nat (unat (estimate_position_ms downloaded size dur))) 1000) s
          in Ok (file_check m (d\<lparr>dl_errors := 0, dl_buffer := b, dl_stream := s, dl_offset := downloaded\<rparr>)))
      | FileEof chunk \<Rightarrow>
          (let remaining = min (length chunk) (unat (size - offset))
           in if 0 < remaining then
                and_then (rb_write offset (take remaining chunk) (dl_buffer d)) (\<lambda>b.
                let downloaded = offset + of_nat remaining;
                    s = update_progress 1 size (dl_stream d);
                    s = update_position (estimate_position_ms downloaded size dur) s
                in Ok (file_finish m (d\<lparr>dl_buffer := b, dl_stream := s\<rparr>)))
              else Ok (file_finish m d))
      | FileFailed \<Rightarrow>
          (let d1 = d\<lparr>dl_errors := dl_errors d + 1\<rparr>
           in Ok (if MAX_ERRORS \<le> dl_errors d1 then file_finish m d1 else d1)))"

fun file_loop :: "file_meta \<Rightarrow> file_outcome list \<Rightarrow> download \<Rightarrow> (download, qvod_error) result" where
  "file_loop m [] d = Ok d"
| "file_loop m (out # outs) d = and_then (file_step m out d) (file_loop m outs)"

text \<open>A file that cannot be opened ends the stream at once.\<close>

definition run_file_download_loop :: "file_meta \<Rightarrow> (unit, string) result \<Rightarrow> file_outcome list \<Rightarrow> ring_buffer \<Rightarrow> media_stream \<Rightarrow>
    (download, qvod_error) result" where
  "run_file_download_loop m opened outs b s =
     (case opened of
        Ok _ \<Rightarrow> file_loop m outs (file_check m (dl_start b s))
      | _ \<Rightarrow> Ok (dl_finish (dl_start b s)))"

section \<open>A buffer that holds a prefix of the source\<close>

definition holds_prefix :: "bytes \<Rightarrow> nat \<Rightarrow> ring_buffer \<Rightarrow> bool" where
  "holds_prefix src n b \<longleftrightarrow> rb_inv b \<and> unat (rb_total_size b) = length src \<and>
     (\<forall>i. rb_abs b i = (if unat i < n then Some (src ! unat i) else None))"

lemma holds_prefix_new:
  "unat n = length src \<Longrightarrow> n \<le> capacity \<Longrightarrow> holds_prefix src 0 (rb_new capacity n)"
  using rb_new_inv [of n capacity] by (simp add: holds_prefix_def rb_new_def)

lemma write_prefix:
  assumes "holds_prefix src (unat offset) b" and "data = take k (drop (unat offset) src)"
  shows "\<exists>b'. rb_write offset data b = Ok b' \<and> holds_prefix src (unat offset + length data) b'"
proof -
  have len: "length src < 2 ^ 64" using assms(1) unat_u64_less [of "rb_total_size b"] by (simp add: holds_prefix_def)
  show ?thesis
  proof (cases "length src \<le> unat offset")
    case True
    then have "data = []" using assms(2) by simp
    then show ?thesis using assms(1) by (auto simp: rb_write_def)
  next
    case False
    then have l: "unat offset + length data \<le> length src" using assms(2) by simp
    with len have "unat offset + length data < 2 ^ 64" by simp
    with rb_write_refines assms(1) obtain b' where b': "rb_write offset data b = Ok b'" "rb_inv b'"
      "rb_total_size b' = rb_total_size b" "rb_abs b' = file_write (rb_total_size b) offset data (rb_abs b)"
      by (fastforce simp: holds_prefix_def)
    have "rb_abs b' i = (if unat i < unat offset + length data then Some (src ! unat i) else None)" for i
      using assms l unfolding b'(4) by (auto simp: holds_prefix_def file_write_def word_le_nat_alt word_less_nat_alt)
    with b' assms(1) show ?thesis by (auto simp: holds_prefix_def)
  qed
qed

lemma read_prefix:
  assumes "holds_prefix src n b" and "0 < len" and "unat offset + unat len \<le> n" and "n \<le> length src"
  shows "rb_read offset len b = Ok (Some (take (unat len) (drop (unat offset) src)))"
proof -
  have l: "length src < 2 ^ 64" using assms(1) unat_u64_less [of "rb_total_size b"] by (simp add: holds_prefix_def)
  have k: "rb_abs b (offset + of_nat k) = Some (src ! (unat offset + k))" if "k < unat len" for k
  proof -
    have "unat (offset + of_nat k) = unat offset + k" using that assms(3,4) l by (intro unat_add_of_nat) simp
    then show ?thesis using assms(1,3) that by (simp add: holds_prefix_def)
  qed
  have "rb_read offset len b = Ok (file_read offset len (rb_abs b))"
    using assms l by (intro rb_read_refines) (auto simp: holds_prefix_def)
  also have "map (\<lambda>k. rb_abs b (offset + of_nat k)) [0..<unat len] = map (\<lambda>k. Some (src ! (unat offset + k))) [0..<unat len]"
    using k by simp
  then have "file_read offset len (rb_abs b) = Some (map (\<lambda>k. src ! (unat offset + k)) [0..<unat len])"
    by (auto simp: file_read_def Let_def comp_def)
  also have "map (\<lambda>k. src ! (unat offset + k)) [0..<unat len] = take (unat len) (drop (unat offset) src)"
    using assms(3,4) by (intro nth_equalityI) auto
  finally show ?thesis .
qed

section \<open>The HTTP loop\<close>

text \<open>The source honours the range: a body is a non-empty part of the source at the position asked for.\<close>

definition honest_body :: "bytes \<Rightarrow> u64 \<Rightarrow> http_outcome \<Rightarrow> bool" where
  "honest_body src offset out \<longleftrightarrow>
     (case out of HttpBody data \<Rightarrow> data = take (length data) (drop (unat offset) src) | _ \<Rightarrow> True)"

fun honest_run :: "bytes \<Rightarrow> file_meta \<Rightarrow> http_outcome list \<Rightarrow> download \<Rightarrow> bool" where
  "honest_run src m [] d = True"
| "honest_run src m (out # outs) d =
     (honest_body src (dl_offset d) out \<and> (case http_step m out d of Ok d' \<Rightarrow> honest_run src m outs d' | _ \<Rightarrow> True))"

definition http_inv :: "bytes \<Rightarrow> file_meta \<Rightarrow> download \<Rightarrow> bool" where
  "http_inv src m d \<longleftrightarrow> unat (fm_file_size m) = length src \<and> unat (dl_offset d) \<le> length src \<and>
     holds_prefix src (unat (dl_offset d)) (dl_buffer d) \<and>
     (if dl_running d then unat (dl_offset d) < length src \<and> unat (dl_errors d) < 10
      else ms_state (dl_stream d) = Ended \<and> (unat (dl_offset d) = length src \<or> 10 \<le> unat (dl_errors d)))"

text \<open>How many more outcomes the loop can use: ten for each byte still missing.\<close>

definition http_fuel :: "file_meta \<Rightarrow> download \<Rightarrow> nat" where
  "http_fuel m d = (if dl_running d then 10 * (unat (fm_file_size m) - unat (dl_offset d)) + (10 - unat (dl_errors d)) else 0)"

lemma http_error_inv:
  assumes "http_inv src m d" and "dl_running d"
  shows "http_inv src m (http_error m d) \<and> http_fuel m (http_error m d) < http_fuel m d \<and>
    dl_offset (http_error m d) = dl_offset d"
proof -
  have e: "unat (dl_errors d + 1) = unat (dl_errors d) + 1"
    using assms by (simp add: http_inv_def unat_word_ariths)
  show ?thesis using assms e
    by (auto simp: http_error_def http_check_def dl_finish_def http_inv_def http_fuel_def Let_def MAX_ERRORS_def
        word_le_nat_alt ms_end_def set_state_def ms_state_def)
qed

lemma http_step_inv:
  assumes "http_inv src m d" and "honest_body src (dl_offset d) out" and "dl_running d"
  shows "\<exists>d'. http_step m out d = Ok d' \<and> http_inv src m d' \<and> http_fuel m d' < http_fuel m d"
proof (cases "\<exists>data. out = HttpBody data \<and> data \<noteq> []")
  case True
  then obtain data where o: "out = HttpBody data" "data \<noteq> []" by blast
  have src: "unat (fm_file_size m) = length src" "unat (dl_offset d) < length src" "holds_prefix src (unat (dl_offset d)) (dl_buffer d)"
    using assms by (auto simp: http_inv_def)
  have h: "data = take (length data) (drop (unat (dl_offset d)) src)" using assms(2) by (simp add: o(1) honest_body_def)
  from write_prefix [OF src(3) h] obtain b where b: "rb_write (dl_offset d) data (dl_buffer d) = Ok b"
    "holds_prefix src (unat (dl_offset d) + length data) b" by blast
  have "length data = min (length data) (length src - unat (dl_offset d))" by (subst h) simp
  then have l: "unat (dl_offset d) + length data \<le> length src" using src(2) by linarith
  have "length src < 2 ^ 64" using src(1) unat_u64_less [of "fm_file_size m"] by simp
  with l have u: "unat (dl_offset d + of_nat (length data)) = unat (dl_offset d) + length data"
    by (intro unat_add_of_nat) simp
  have n: "0 < length data" using o(2) by simp
  obtain s where st: "http_step m out d = Ok (http_check m (d\<lparr>dl_errors := 0, dl_buffer := b, dl_stream := s, dl_offset := dl_offset d + of_nat (length data)\<rparr>))"
    using assms(3) b(1) by (simp add: http_step_def o Let_def)
  let ?d = "d\<lparr>dl_errors := 0, dl_buffer := b, dl_stream := s, dl_offset := dl_offset d + of_nat (length data)\<rparr>"
  have "http_inv src m (http_check m ?d)"
    using assms(1,3) b(2) l u src by (auto simp: http_check_def http_inv_def dl_finish_def word_le_nat_alt ms_end_def set_state_def ms_state_def)
  moreover have "http_fuel m (http_check m ?d) < http_fuel m d"
  proof -
    have e: "unat (dl_errors d) < 10" using assms(1,3) by (simp add: http_inv_def)
    then have "10 * (length src - (unat (dl_offset d) + length data)) + 10 < 10 * (length src - unat (dl_offset d)) + 10 - unat (dl_errors d)"
      using n l by linarith
    then show ?thesis using assms(3) u src e by (auto simp: http_check_def http_fuel_def dl_finish_def)
  qed
  ultimately show ?thesis using st by blast
next
  case False
  then have "http_step m out d = Ok (http_error m d)" using assms(3) by (auto simp: http_step_def split: http_outcome.split)
  with http_error_inv [OF assms(1,3)] show ?thesis by simp
qed

lemma http_loop_inv:
  assumes "http_inv src m d" and "honest_run src m outs d" and "http_fuel m d \<le> length outs"
  shows "\<exists>d'. http_loop m outs d = Ok d' \<and> http_inv src m d' \<and> \<not> dl_running d'"
  using assms
proof (induction outs arbitrary: d)
  case Nil
  then show ?case by (auto simp: http_fuel_def http_inv_def split: if_splits)
next
  case (Cons out outs)
  show ?case
  proof (cases "dl_running d")
    case True
    with Cons.prems http_step_inv [of src m d out] obtain d' where
      "http_step m out d = Ok d'" "http_inv src m d'" "http_fuel m d' < http_fuel m d" by auto
    with Cons.IH [of d'] Cons.prems show ?thesis by auto
  next
    case False
    with Cons.IH [of d] Cons.prems show ?thesis by (simp add: http_step_def http_fuel_def)
  qed
qed

lemma http_start_inv:
  assumes "unat (fm_file_size m) = length src" and "fm_file_size m \<le> capacity"
  shows "http_inv src m (http_check m (dl_start (rb_new capacity (fm_file_size m)) s)) \<and>
    http_fuel m (http_check m (dl_start (rb_new capacity (fm_file_size m)) s)) \<le> 10 * length src + 10"
  using assms holds_prefix_new [OF assms]
  by (auto simp: http_inv_def http_fuel_def http_check_def dl_start_def dl_finish_def word_le_nat_alt ms_end_def set_state_def ms_state_def)

text \<open>
  C5: downloading a file that fits in the buffer from an HTTP source that honours ranges ends, whatever requests fail:
  ten outcomes for each byte of the file and ten more are enough. Then the stream is marked as ended, and either ten
  requests in a row failed, or every range of the file can be read from the buffer and has the bytes of the source.
\<close>

theorem http_download_terminates:
  assumes "unat (fm_file_size m) = length src" and "fm_file_size m \<le> capacity"
    and "honest_run src m outs (http_check m (dl_start (rb_new capacity (fm_file_size m)) s))"
    and "10 * length src + 10 \<le> length outs"
  shows "\<exists>d. run_http_download_loop m outs (rb_new capacity (fm_file_size m)) s = Ok d \<and>
    \<not> dl_running d \<and> ms_state (dl_stream d) = Ended \<and>
    (10 \<le> dl_errors d \<or>
     (\<forall>offset len. 0 < len \<and> unat offset + unat len \<le> length src \<longrightarrow>
        rb_read offset len (dl_buffer d) = Ok (Some (take (unat len) (drop (unat offset) src)))))"
proof -
  let ?d = "http_check m (dl_start (rb_new capacity (fm_file_size m)) s)"
  have i: "http_inv src m ?d" "http_fuel m ?d \<le> length outs"
    using http_start_inv [OF assms(1,2), of s] assms(4) by auto
  from http_loop_inv [OF i(1) assms(3) i(2)] obtain d where
    d: "http_loop m outs ?d = Ok d" "http_inv src m d" "\<not> dl_running d" by blast
  then have "ms_state (dl_stream d) = Ended" "unat (dl_offset d) = length src \<or> 10 \<le> dl_errors d"
    "holds_prefix src (unat (dl_offset d)) (dl_buffer d)"
    by (auto simp: http_inv_def word_le_nat_alt)
  with d show ?thesis unfolding run_http_download_loop_def
    by (intro exI [of _ d]) (auto intro: read_prefix)
qed

lemma honest_failures: "honest_run src m (replicate n HttpFailed) d"
  by (induction n arbitrary: d) (auto simp: honest_body_def split: result.split)

definition sample_source :: file_meta where
  "sample_source = (empty_meta (InfoHash (replicate 20 7)) 3)"

theorem http_download_terminates_witness:
  "\<exists>d. run_http_download_loop sample_source (HttpBody [1, 2, 3] # replicate 39 HttpFailed) (rb_new 8 3) (ms_new (ss_new 0)) = Ok d \<and>
     \<not> dl_running d \<and> ms_state (dl_stream d) = Ended"
proof -
  have z: "fm_file_size sample_source = 3" by (simp add: sample_source_def empty_meta_def)
  have "honest_run [1, 2, 3] sample_source (HttpBody [1, 2, 3] # replicate 39 HttpFailed)
    (http_check sample_source (dl_start (rb_new 8 (fm_file_size sample_source)) (ms_new (ss_new 0))))"
    using honest_failures [of "[1, 2, 3]" sample_source 39]
    by (auto simp: z honest_body_def http_check_def dl_start_def split: result.split simp del: replicate.simps replicate_Suc)
  from http_download_terminates [OF _ _ this] show ?thesis by (auto simp: z word_le_nat_alt)
qed

section \<open>The file loop\<close>

text \<open>
  Reading a file that does not change and never fails: what a chunk holds is determined by the file. Before
  each read the user acts on the stream.
\<close>

definition next_chunk :: "bytes \<Rightarrow> file_meta \<Rightarrow> u64 \<Rightarrow> bytes" where
  "next_chunk src m offset = take (unat (read_size m offset)) (drop (unat offset) src)"

definition dl_events :: "stream_event list \<Rightarrow> download \<Rightarrow> download" where
  "dl_events es d = d\<lparr>dl_stream := ms_run es (dl_stream d)\<rparr>"

fun file_run :: "bytes \<Rightarrow> file_meta \<Rightarrow> stream_event list list \<Rightarrow> download \<Rightarrow> (download, qvod_error) result" where
  "file_run src m [] d = Ok d"
| "file_run src m (es # ess) d =
     and_then (file_step m (FileChunk (next_chunk src m (dl_offset d))) (dl_events es d)) (file_run src m ess)"

definition file_inv :: "bytes \<Rightarrow> file_meta \<Rightarrow> download \<Rightarrow> bool" where
  "file_inv src m d \<longleftrightarrow> unat (fm_file_size m) = length src \<and> unat (dl_offset d) < length src \<and> dl_running d \<and>
     holds_prefix src (unat (dl_offset d)) (dl_buffer d)"

definition file_done :: "bytes \<Rightarrow> file_meta \<Rightarrow> download \<Rightarrow> bool" where
  "file_done src m d \<longleftrightarrow> \<not> dl_running d \<and> holds_prefix src (length src) (dl_buffer d) \<and> ms_state (dl_stream d) = Ended \<and>
     ss_download_progress (ms_stats (dl_stream d)) = 1 \<and>
     ms_position (dl_stream d) = estimate_position_ms (fm_file_size m) (fm_file_size m) (fm_duration_ms m)"

lemma progress_of_self: "0 < n \<Longrightarrow> progress_of n n = 1"
proof -
  assume "0 < n"
  then have "1 \<le> unat n" by (simp add: word_less_nat_alt Suc_le_eq)
  then have "of_nat 1 \<le> (of_nat (unat n) :: rat)" by (rule of_nat_mono)
  then have "(of_int 1 :: rat) \<le> of_nat (unat n)" by (simp only: of_nat_1 of_int_1)
  then have "1 \<le> f64_of_nat (unat n)" using f64_round_ge [of 1] by (simp add: f64_of_nat_def)
  then show ?thesis using f64_round_int [of 1] by (simp add: progress_of_def f64_div_def)
qed

lemma file_step_chunk:
  assumes "file_inv src m d"
  defines "n \<equiv> min 65536 (length src - unat (dl_offset d))"
  shows "\<exists>d'. file_step m (FileChunk (next_chunk src m (dl_offset d))) (dl_events es d) = Ok d' \<and>
    (if unat (dl_offset d) + n < length src then file_inv src m d' \<and> unat (dl_offset d') = unat (dl_offset d) + n
     else file_done src m d')"
proof -
  have i: "unat (fm_file_size m) = length src" "unat (dl_offset d) < length src" "holds_prefix src (unat (dl_offset d)) (dl_buffer d)"
    "dl_running d" using assms by (auto simp: file_inv_def)
  have "unat (fm_file_size m - dl_offset d) = length src - unat (dl_offset d)"
    using i by (subst unat_sub) (auto simp: word_le_nat_alt)
  moreover have "unat (CHUNK_SIZE :: u64) = 65536" by (simp add: CHUNK_SIZE_def)
  ultimately have r: "unat (read_size m (dl_offset d)) = n" unfolding read_size_def n_def by (simp only: unat_min)
  let ?c = "next_chunk src m (dl_offset d)"
  have c: "length ?c = n" by (simp add: next_chunk_def r) (simp add: n_def)
  from write_prefix [OF i(3) next_chunk_def [of src m]] obtain b where
    b: "rb_write (dl_offset d) ?c (dl_buffer d) = Ok b" "holds_prefix src (unat (dl_offset d) + n) b"
    unfolding c by blast
  have "n \<le> length src - unat (dl_offset d)" unfolding n_def by (rule min.cobounded2)
  then have "unat (dl_offset d) + n \<le> length src" using i(2) by linarith
  also have "length src < 2 ^ 64" unfolding i(1) [symmetric] by (rule unat_u64_less)
  finally have u: "unat (dl_offset d + of_nat n) = unat (dl_offset d) + n" by (rule unat_add_of_nat)
  obtain s where st: "file_step m (FileChunk ?c) (dl_events es d) =
      Ok (file_check m (d\<lparr>dl_errors := 0, dl_buffer := b, dl_stream := s, dl_offset := dl_offset d + of_nat n\<rparr>))"
    and s: "ss_download_progress (ms_stats s) = progress_of (dl_offset d + of_nat n) (fm_file_size m)"
    using i(4) b(1) c by (simp add: file_step_def dl_events_def Let_def ms_defs)
  let ?d = "d\<lparr>dl_errors := 0, dl_buffer := b, dl_stream := s, dl_offset := dl_offset d + of_nat n\<rparr>"
  show ?thesis
  proof (cases "unat (dl_offset d) + n < length src")
    case True
    with st i u b(2) show ?thesis by (auto simp: file_check_def file_inv_def word_le_nat_alt)
  next
    case False
    then have e: "unat (dl_offset d) + n = length src" using i(2) by (simp add: n_def)
    with u i(1) have "dl_offset d + of_nat n = fm_file_size m" by (metis word_unat_eq_iff)
    moreover have "0 < fm_file_size m" using i(1,2) by (simp add: word_less_nat_alt del: length_greater_0_conv)
    ultimately have "ss_download_progress (ms_stats s) = 1" using progress_of_self [of "fm_file_size m"] s by simp
    with st False e u i b(2) show ?thesis
      by (auto simp: file_check_def file_finish_def file_done_def dl_finish_def word_le_nat_alt ms_defs Let_def)
  qed
qed

lemma file_run_done:
  assumes "file_inv src m d" and "length src - unat (dl_offset d) \<le> 65536 * length ess"
    and "65536 * length ess < length src - unat (dl_offset d) + 65536"
  shows "\<exists>d'. file_run src m ess d = Ok d' \<and> file_done src m d'"
  using assms
proof (induction ess arbitrary: d)
  case Nil
  then show ?case by (simp add: file_inv_def)
next
  case (Cons es ess)
  define n where "n = min 65536 (length src - unat (dl_offset d))"
  from file_step_chunk [OF Cons.prems(1), of es, folded n_def] obtain d' where
    d': "file_step m (FileChunk (next_chunk src m (dl_offset d))) (dl_events es d) = Ok d'"
    "if unat (dl_offset d) + n < length src then file_inv src m d' \<and> unat (dl_offset d') = unat (dl_offset d) + n
     else file_done src m d'" by blast
  show ?case
  proof (cases "unat (dl_offset d) + n < length src")
    case True
    then have "n = 65536" by (simp add: n_def min_def split: if_splits)
    with True d' Cons.IH [of d'] Cons.prems show ?thesis by auto
  next
    case False
    then have "length src - unat (dl_offset d) \<le> 65536" by (simp add: n_def min_def split: if_splits)
    with Cons.prems(3) have "ess = []" by (cases ess) auto
    with False d' show ?thesis by simp
  qed
qed

lemma file_download_done:
  assumes "unat (fm_file_size m) = length src" and "src \<noteq> []" and "fm_file_size m \<le> capacity"
    and "length ess = (length src + 65535) div 65536"
  shows "\<exists>d. file_run src m ess (file_check m (dl_start (rb_new capacity (fm_file_size m)) s)) = Ok d \<and> file_done src m d"
proof -
  let ?d = "file_check m (dl_start (rb_new capacity (fm_file_size m)) s)"
  have "file_inv src m ?d" "dl_offset ?d = 0"
    using assms(1,2) holds_prefix_new [OF assms(1,3)] by (auto simp: file_check_def dl_start_def file_inv_def word_le_nat_alt)
  moreover have "length src \<le> 65536 * ((length src + 65535) div 65536)" "65536 * ((length src + 65535) div 65536) < length src + 65536"
    by simp_all
  ultimately show ?thesis using file_run_done [of src m ?d ess] assms(4) by (metis diff_zero unat_0)
qed

text \<open>
  C8: a local file that fits in the buffer, and of which every read succeeds, is read to its end in one step per 64 KiB
  begun, whatever the user does in between: pausing does not hold the reader, and a seek does not survive. At the end the stream is ended with progress 1 at the position of
  the end of the file, and every range can be read from the buffer.
\<close>

theorem file_download_complete:
  assumes "unat (fm_file_size m) = length src" and "src \<noteq> []" and "fm_file_size m \<le> capacity"
    and "length ess = (length src + 65535) div 65536"
  shows "\<exists>d. file_run src m ess (file_check m (dl_start (rb_new capacity (fm_file_size m)) s)) = Ok d \<and> \<not> dl_running d \<and>
    ms_state (dl_stream d) = Ended \<and> ss_download_progress (ms_stats (dl_stream d)) = 1 \<and>
    ms_position (dl_stream d) = estimate_position_ms (fm_file_size m) (fm_file_size m) (fm_duration_ms m) \<and>
    (\<forall>offset len. 0 < len \<and> unat offset + unat len \<le> length src \<longrightarrow>
       rb_read offset len (dl_buffer d) = Ok (Some (take (unat len) (drop (unat offset) src))))"
proof -
  from file_download_done [OF assms] obtain d where
    "file_run src m ess (file_check m (dl_start (rb_new capacity (fm_file_size m)) s)) = Ok d" "file_done src m d" by blast
  then show ?thesis by (intro exI [of _ d]) (auto simp: file_done_def intro: read_prefix)
qed

theorem file_download_complete_witness:
  "\<exists>d. file_run [1, 2, 3] sample_source [[EPause, ESeek 5000]] (file_check sample_source (dl_start (rb_new 8 3) (ms_new (ss_new 0)))) = Ok d \<and>
     ms_state (dl_stream d) = Ended \<and> rb_read 1 2 (dl_buffer d) = Ok (Some [2, 3])"
proof -
  have z: "fm_file_size sample_source = 3" by (simp add: sample_source_def empty_meta_def)
  from file_download_complete [of sample_source "[1, 2, 3]" 8 "[[EPause, ESeek 5000]]" "ms_new (ss_new 0)"]
  obtain d where "file_run [1, 2, 3] sample_source [[EPause, ESeek 5000]] (file_check sample_source (dl_start (rb_new 8 3) (ms_new (ss_new 0)))) = Ok d"
    "ms_state (dl_stream d) = Ended"
    "\<forall>offset len. 0 < len \<and> unat offset + unat len \<le> 3 \<longrightarrow>
       rb_read offset len (dl_buffer d) = Ok (Some (take (unat len) (drop (unat offset) [1, 2, 3])))"
    by (auto simp: z word_le_nat_alt)
  moreover from this(3) have "rb_read 1 2 (dl_buffer d) = Ok (Some (take (unat (2::u64)) (drop (unat (1::u64)) [1, 2, 3])))"
    by (auto simp: word_less_nat_alt)
  ultimately show ?thesis by auto
qed

end
