(* ===== verification/Json.thy ===== *)
theory Json
  imports Float64
begin

text \<open>
  Values of \<open>serde_json\<close>, shared by the two ends of the HTTP interface and the media probe. An object is the list of
  its members; of two with the same name the first counts. The text form is of the library.
\<close>

datatype json = JNull | JBool bool | JInt int | JFloat f64 | JStr string | JArr "json list" | JObj "(string \<times> json) list"

text \<open>\<open>value[key]\<close> and the accessors \<open>as_str\<close>, \<open>as_u64\<close>, \<open>as_f64\<close>, \<open>as_bool\<close>, \<open>as_array\<close>.\<close>

definition json_get :: "string \<Rightarrow> json \<Rightarrow> json" where
  "json_get k j = (case j of JObj ms \<Rightarrow> (case map_of ms k of Some v \<Rightarrow> v | None \<Rightarrow> JNull) | _ \<Rightarrow> JNull)"

definition json_str :: "json \<Rightarrow> string option" where
  "json_str j = (case j of JStr s \<Rightarrow> Some s | _ \<Rightarrow> None)"

definition json_u64 :: "json \<Rightarrow> u64 option" where
  "json_u64 j = (case j of JInt i \<Rightarrow> if 0 \<le> i \<and> i < 2 ^ 64 then Some (of_int i) else None | _ \<Rightarrow> None)"

definition json_f64 :: "json \<Rightarrow> f64 option" where
  "json_f64 j = (case j of JFloat x \<Rightarrow> Some x | JInt i \<Rightarrow> Some (f64_round (of_int i)) | _ \<Rightarrow> None)"

definition json_bool :: "json \<Rightarrow> bool option" where
  "json_bool j = (case j of JBool b \<Rightarrow> Some b | _ \<Rightarrow> None)"

definition json_array :: "json \<Rightarrow> json list option" where
  "json_array j = (case j of JArr js \<Rightarrow> Some js | _ \<Rightarrow> None)"

lemma json_u64_uint [simp]: "json_u64 (JInt (uint w)) = Some w"
proof -
  have "uint w < 2 ^ LENGTH(64)" by (rule unsigned_less)
  then show ?thesis by (simp add: json_u64_def)
qed

end
