(* ===== verification/Media_Probe.thy ===== *)
theory Media_Probe
  imports Json Rust_Std
begin

text \<open>
  The media probe (\<open>qvs-core/src/media_probe.rs\<close>): the metadata of a media file from the JSON of \<open>ffprobe\<close> or,
  where that fails, from what \<open>ffmpeg -i\<close> writes to its error stream. What the two programs answer is an argument.
  Decimal numbers are rounded to \<open>f64\<close>; the words for infinities and NaN count as malformed.
\<close>

record media_probe =
  mp_duration_ms :: u64
  mp_width :: u32
  mp_height :: u32
  mp_video_codec :: string
  mp_audio_codec :: string
  mp_bitrate :: u64
  mp_fps :: f64

definition media_probe_default :: media_probe where
  "media_probe_default = \<lparr>mp_duration_ms = 0, mp_width = 0, mp_height = 0, mp_video_codec = [], mp_audio_codec = [],
     mp_bitrate = 0, mp_fps = 0\<rparr>"

section \<open>Decimal numbers and lines of text\<close>

definition is_ascii_digit :: "char \<Rightarrow> bool" where
  "is_ascii_digit c \<longleftrightarrow> (let n = of_char c :: nat in 48 \<le> n \<and> n \<le> 57)"

definition digits_value :: "string \<Rightarrow> nat" where
  "digits_value s = foldl (\<lambda>n c. 10 * n + (of_char c - 48)) 0 s"

text \<open>The exponent of a decimal number: nothing, or \<open>e\<close> with an optional sign and digits.\<close>

definition parse_exponent :: "string \<Rightarrow> int option" where
  "parse_exponent s =
     (case s of
        [] \<Rightarrow> Some 0
      | c # cs \<Rightarrow>
          if c \<noteq> CHR ''e'' \<and> c \<noteq> CHR ''E'' then None
          else let neg = starts_with ''-'' cs; ds = (if neg \<or> starts_with ''+'' cs then tl cs else cs)
               in if ds = [] \<or> \<not> list_all is_ascii_digit ds then None
                  else Some (if neg then - int (digits_value ds) else int (digits_value ds)))"

text \<open>\<open>str::parse::<f64>\<close> of a finite number.\<close>

definition parse_f64 :: "string \<Rightarrow> f64 option" where
  "parse_f64 s =
     (let neg = starts_with ''-'' s; u = (if neg \<or> starts_with ''+'' s then tl s else s);
          whole = takeWhile is_ascii_digit u; r = dropWhile is_ascii_digit u;
          dot = starts_with ''.'' r; frac = (if dot then takeWhile is_ascii_digit (tl r) else []);
          e = (if dot then dropWhile is_ascii_digit (tl r) else r)
      in if whole = [] \<and> frac = [] then None
         else map_option (\<lambda>x. f64_round ((if neg then - 1 else 1) *
             of_nat (digits_value (whole @ frac)) * 10 powi (x - int (length frac)))) (parse_exponent e))"

definition unwrap_or :: "'a \<Rightarrow> 'a option \<Rightarrow> 'a" where
  "unwrap_or d x = (case x of Some a \<Rightarrow> a | None \<Rightarrow> d)"

definition parse_u32 :: "string \<Rightarrow> u32 option" where
  "parse_u32 s = map_option of_nat (res_ok (parse_uint 10 (2 ^ 32 - 1) s))"

text \<open>\<open>str::lines\<close>.\<close>

definition str_lines :: "string \<Rightarrow> string list" where
  "str_lines s =
     (let ls = split_on (CHR 0x0A) s; ls1 = (if last ls = [] then butlast ls else ls)
      in map (\<lambda>l. case strip_suffix [CHR 0x0D] l of Some l' \<Rightarrow> l' | None \<Rightarrow> l) ls1)"

definition trim_start :: "string \<Rightarrow> string" where
  "trim_start s = dropWhile is_ws s"

text \<open>\<open>s.splitn(2, c)\<close>: the part before the first \<open>c\<close> and, if there is one, the part after it.\<close>

definition before :: "char \<Rightarrow> string \<Rightarrow> string" where
  "before c s = takeWhile (\<lambda>x. x \<noteq> c) s"

definition after :: "char \<Rightarrow> string \<Rightarrow> string option" where
  "after c s = (if c \<in> set s then Some (tl (dropWhile (\<lambda>x. x \<noteq> c) s)) else None)"

text \<open>\<open>s.split(p).nth(1)\<close>: the part between the first two occurrences of a string.\<close>

definition second_part :: "string \<Rightarrow> string \<Rightarrow> string option" where
  "second_part p s =
     map_option (\<lambda>i. let rest = drop (i + length p) s in case find_sub p rest of Some j \<Rightarrow> take j rest | None \<Rightarrow> rest)
       (find_sub p s)"

function trim_end_matches :: "string \<Rightarrow> string \<Rightarrow> string" where
  "trim_end_matches p s =
     (if p \<noteq> [] \<and> ends_with p s then trim_end_matches p (take (length s - length p) s) else s)"
  by pat_completeness auto
termination
proof (relation "measure (length \<circ> snd)")
  fix p s :: string
  assume "p \<noteq> [] \<and> ends_with p s"
  then have "0 < length p" "length p \<le> length s"
    by (auto simp: ends_with_def starts_with_def dest!: arg_cong [where f = length])
  then have "length s - length p < length s" by linarith
  then show "((p, take (length s - length p) s), p, s) \<in> measure (length \<circ> snd)" by simp
qed simp

declare trim_end_matches.simps [simp del]

section \<open>The JSON of ffprobe\<close>

definition seconds_to_ms :: "f64 \<Rightarrow> u64" where
  "seconds_to_ms secs = f64_to_u64 (f64_mul secs 1000)"

definition frame_rate :: "string \<Rightarrow> f64 option" where
  "frame_rate s =
     (case after CHR ''/'' s of
        None \<Rightarrow> None
      | Some d \<Rightarrow>
          (let num = unwrap_or 0 (parse_f64 (before CHR ''/'' s)); den = unwrap_or 1 (parse_f64 d)
           in if 0 < den then Some (f64_div num den) else None))"

definition ffprobe_stream :: "json \<Rightarrow> media_probe \<Rightarrow> media_probe" where
  "ffprobe_stream stream r =
     (let codec_type = unwrap_or [] (json_str (json_get ''codec_type'' stream));
          codec_name = unwrap_or [] (json_str (json_get ''codec_name'' stream))
      in if codec_type = ''video'' then
           r\<lparr>mp_width := ucast (unwrap_or 0 (json_u64 (json_get ''width'' stream))),
             mp_height := ucast (unwrap_or 0 (json_u64 (json_get ''height'' stream))),
             mp_video_codec := codec_name,
             mp_fps := (case Option.bind (json_str (json_get ''r_frame_rate'' stream)) frame_rate of Some x \<Rightarrow> x | None \<Rightarrow> mp_fps r)\<rparr>
         else if codec_type = ''audio'' then (if mp_audio_codec r = [] then r\<lparr>mp_audio_codec := codec_name\<rparr> else r)
         else r)"

text \<open>What a program did: it could not be run, or it ended with this success and this output.\<close>

definition try_ffprobe :: "(bool \<times> json option) option \<Rightarrow> media_probe option" where
  "try_ffprobe output =
     Option.bind output (\<lambda>(success, stdout).
     if \<not> success then None
     else map_option (\<lambda>j.
       let duration_ms = (case Option.bind (json_str (json_get ''duration'' (json_get ''format'' j))) parse_f64 of
             Some secs \<Rightarrow> seconds_to_ms secs | None \<Rightarrow> 0);
           bitrate = unwrap_or 0 (Option.bind (json_str (json_get ''bit_rate'' (json_get ''format'' j))) (\<lambda>s. res_ok (parse_u64 s)));
           r = media_probe_default\<lparr>mp_duration_ms := duration_ms, mp_bitrate := bitrate\<rparr>
       in fold ffprobe_stream (unwrap_or [] (json_array (json_get ''streams'' j))) r) stdout)"

section \<open>The error stream of ffmpeg\<close>

definition hms_to_ms :: "string \<Rightarrow> string \<Rightarrow> string \<Rightarrow> u64" where
  "hms_to_ms h m s =
     (let hours = unwrap_or 0 (res_ok (parse_u64 h)); minutes = unwrap_or 0 (res_ok (parse_u64 m)); secs = unwrap_or 0 (parse_f64 s)
      in seconds_to_ms (f64_add (f64_add (f64_mul (f64_of_nat (unat hours)) 3600) (f64_mul (f64_of_nat (unat minutes)) 60)) secs))"

text \<open>The multiplication by 1000 wraps in a release build.\<close>

definition bitrate_of :: "string \<Rightarrow> u64 option" where
  "bitrate_of br_rest =
     map_option (\<lambda>i. unwrap_or 0 (res_ok (parse_u64 (takeWhile is_ascii_digit (drop (i + 9) br_rest)))) * 1000)
       (find_sub ''bitrate: '' br_rest)"

definition duration_line :: "string \<Rightarrow> media_probe \<Rightarrow> media_probe" where
  "duration_line dur_str r =
     (let r1 = (case split_on CHR '':'' (trim (before CHR '','' dur_str)) of
            [h, m, s] \<Rightarrow> r\<lparr>mp_duration_ms := hms_to_ms h m s\<rparr> | _ \<Rightarrow> r)
      in case Option.bind (after CHR '','' dur_str) bitrate_of of Some b \<Rightarrow> r1\<lparr>mp_bitrate := b\<rparr> | None \<Rightarrow> r1)"

text \<open>The name of a codec: up to the comma, without what stands in parentheses.\<close>

definition codec_of :: "string \<Rightarrow> string" where
  "codec_of section =
     (let c = trim (before CHR '','' section) in case find_sub '' ('' c of Some i \<Rightarrow> take i c | None \<Rightarrow> c)"

definition resolution_of :: "string \<Rightarrow> (u32 \<times> u32) option" where
  "resolution_of token =
     (case after CHR ''x'' token of
        None \<Rightarrow> None
      | Some right_part \<Rightarrow>
          (let left = before CHR ''x'' token; right = takeWhile is_ascii_digit right_part
           in if left \<noteq> [] \<and> list_all is_ascii_digit left \<and> right \<noteq> []
              then Some (unwrap_or 0 (parse_u32 left), unwrap_or 0 (parse_u32 right)) else None))"

definition fps_of :: "string \<Rightarrow> f64 option" where
  "fps_of token =
     (if ends_with '' fps'' token \<or> ends_with '' fps,'' token
      then Some (unwrap_or 0 (parse_f64 (trim (trim_end_matches '' fps,'' (trim_end_matches '' fps'' token))))) else None)"

definition video_token :: "string \<Rightarrow> media_probe \<Rightarrow> media_probe" where
  "video_token tok r =
     (let token = trim tok;
          r1 = (case resolution_of token of Some (w, h) \<Rightarrow> r\<lparr>mp_width := w, mp_height := h\<rparr> | None \<Rightarrow> r)
      in case fps_of token of Some x \<Rightarrow> r1\<lparr>mp_fps := x\<rparr> | None \<Rightarrow> r1)"

definition video_line :: "string \<Rightarrow> media_probe \<Rightarrow> media_probe" where
  "video_line line r =
     (let r1 = (case second_part '': Video: '' line of Some section \<Rightarrow> r\<lparr>mp_video_codec := codec_of section\<rparr> | None \<Rightarrow> r)
      in fold video_token (split_on CHR '','' line) r1)"

definition audio_line :: "string \<Rightarrow> media_probe \<Rightarrow> media_probe" where
  "audio_line line r =
     (case second_part '': Audio: '' line of Some section \<Rightarrow> r\<lparr>mp_audio_codec := codec_of section\<rparr> | None \<Rightarrow> r)"

text \<open>One line; the flag tells whether a video stream has been found.\<close>

definition probe_line :: "string \<Rightarrow> media_probe \<times> bool \<Rightarrow> media_probe \<times> bool" where
  "probe_line l s =
     (let (r, found_video) = s; line = trim_start l;
          r1 = (case strip_prefix ''Duration: '' line of Some dur_str \<Rightarrow> duration_line dur_str r | None \<Rightarrow> r);
          (r2, f2) = (if contains '': Video: '' line \<and> \<not> found_video then (video_line line r1, True) else (r1, found_video));
          r3 = (if contains '': Audio: '' line \<and> mp_audio_codec r2 = [] then audio_line line r2 else r2)
      in (r3, f2))"

definition parse_ffmpeg_stderr :: "string \<Rightarrow> media_probe option" where
  "parse_ffmpeg_stderr stderr =
     (let r = fst (fold probe_line (str_lines stderr) (media_probe_default, False))
      in if mp_duration_ms r = 0 \<and> mp_bitrate r = 0 \<and> mp_width r = 0 \<and> mp_height r = 0 \<and> mp_video_codec r = [] \<and>
            mp_audio_codec r = [] \<and> mp_fps r = 0 then None else Some r)"

definition try_ffmpeg_probe :: "bytes option \<Rightarrow> media_probe option" where
  "try_ffmpeg_probe stderr = Option.bind stderr (\<lambda>bs. parse_ffmpeg_stderr (from_utf8_lossy bs))"

definition probe_media_file :: "(bool \<times> json option) option \<Rightarrow> bytes option \<Rightarrow> media_probe option" where
  "probe_media_file ffprobe ffmpeg_stderr =
     (case try_ffprobe ffprobe of Some r \<Rightarrow> Some r | None \<Rightarrow> try_ffmpeg_probe ffmpeg_stderr)"

end
