(* ===== verification/Engine.thy ===== *)
theory Engine
  imports Download Cache Media_Uri Media_Probe "HOL-Library.AList"
begin

text \<open>
  The streaming engine (\<open>QvodEngine\<close> in \<open>qvs-stream/src/engine.rs\<close>): starting a stream from an
  address, the controls of the player, and the background tasks that run between the calls. SHA-1 is a parameter;
  what the network, the file system and the clock do during a call is its \<open>surroundings\<close> argument.
\<close>

section \<open>State\<close>

record core_media_stream =
  cm_metadata :: file_meta

text \<open>
  A background task. A task that reads a file opens it first. \<open>dl_running\<close> of the stream's \<open>download\<close>
  tells whether the task has ended.
\<close>

datatype download_task = PieceTask | HttpTask string | FileTask string bool

text \<open>
  The buffer and the stream are shared by the engine and the task; they stand in \<open>as_download\<close> beside the
  variables of the task.
\<close>

record active_stream =
  as_info_hash :: info_hash
  as_metadata :: file_meta
  as_download :: download
  as_seek_engine :: seek_engine
  as_adaptive :: adaptive_buffer
  as_paused :: bool
  as_task :: "download_task option"
  as_created_at :: nat

text \<open>
  \<open>en_detached\<close> are the streams replaced by a new one of the same hash: their tasks run on, because dropping
  the handle of a task does not abort it.
\<close>

record engine =
  en_config :: engine_config
  en_streams :: "(info_hash \<times> active_stream) list"
  en_tracker :: bool
  en_dht :: bool
  en_cache :: "cache option"
  en_detached :: "active_stream list"

record stream_status =
  st_state :: stream_state
  st_position_ms :: u64
  st_duration_ms :: u64
  st_buffered_seconds :: f64
  st_download_progress :: f64
  st_peer_count :: nat

text \<open>\<open>QvodEngine::new\<close>; \<open>dht_ok\<close> tells whether the node could be created.\<close>

definition engine_new :: "engine_config \<Rightarrow> bool \<Rightarrow> files \<Rightarrow> engine" where
  "engine_new c dht_ok fs =
     \<lparr>en_config = c, en_streams = [], en_tracker = (ec_tracker_enabled c \<and> ec_tracker_urls c \<noteq> []),
      en_dht = (ec_dht_enabled c \<and> dht_ok),
      en_cache = (if ec_cache_enabled c
        then Some (cache_new \<lparr>cf_cache_dir = ec_cache_dir c, cf_max_size = max (buffer_capacity c * 10) (1024 * 1024 * 1024), cf_max_files = 1000\<rparr> fs)
        else None),
      en_detached = []\<rparr>"

section \<open>The background tasks\<close>

text \<open>What a task meets in one step. A panic ends the task and leaves the stream as it is.\<close>

datatype task_outcome = OnOpen "(unit, string) result" | OnPiece | OnHttp http_outcome | OnFile file_outcome

definition after_step :: "active_stream \<Rightarrow> (download, qvod_error) result \<Rightarrow> active_stream" where
  "after_step a r =
     (case r of Ok d \<Rightarrow> a\<lparr>as_download := d\<rparr> | _ \<Rightarrow> a\<lparr>as_download := (as_download a)\<lparr>dl_running := False\<rparr>\<rparr>)"

definition task_step :: "task_outcome \<Rightarrow> active_stream \<Rightarrow> active_stream" where
  "task_step out a =
     (let m = as_metadata a; d = as_download a
      in case (as_task a, out) of
        (Some PieceTask, OnPiece) \<Rightarrow> after_step a (piece_step m d)
      | (Some (HttpTask url), OnHttp o') \<Rightarrow> after_step a (http_step m o' d)
      | (Some (FileTask path False), OnOpen r) \<Rightarrow>
          (if \<not> dl_running d then a
           else case r of
             Ok _ \<Rightarrow> a\<lparr>as_task := Some (FileTask path True), as_download := file_check m d\<rparr>
           | _ \<Rightarrow> a\<lparr>as_download := dl_finish d\<rparr>)
      | (Some (FileTask path True), OnFile o') \<Rightarrow> after_step a (file_step m o' d)
      | _ \<Rightarrow> a)"

section \<open>Starting a stream\<close>

definition new_active :: "nat \<Rightarrow> engine \<Rightarrow> info_hash \<Rightarrow> file_meta \<Rightarrow> download_task option \<Rightarrow> active_stream" where
  "new_active now e h m task =
     \<lparr>as_info_hash = h, as_metadata = m,
      as_download = (dl_start (rb_new (buffer_capacity (en_config e)) (fm_file_size m)) (ms_new (ss_new (fm_duration_ms m))))
        \<lparr>dl_running := task \<noteq> None\<rparr>,
      as_seek_engine = se_new m, as_adaptive = ab_new now, as_paused = False, as_task = task, as_created_at = now\<rparr>"

text \<open>Registering a stream drops the one that had its hash.\<close>

definition register_stream :: "info_hash \<Rightarrow> active_stream \<Rightarrow> engine \<Rightarrow> engine" where
  "register_stream h a e = e\<lparr>en_streams := AList.update h a (en_streams e),
     en_detached := (case map_of (en_streams e) h of
        Some old \<Rightarrow> if as_task old \<noteq> None then old # en_detached e else en_detached e
      | None \<Rightarrow> en_detached e)\<rparr>"

definition on_stream :: "info_hash \<Rightarrow> (active_stream \<Rightarrow> active_stream) \<Rightarrow> engine \<Rightarrow> engine" where
  "on_stream h f e = e\<lparr>en_streams := AList.map_entry h f (en_streams e)\<rparr>"

definition stream_event :: "stream_event \<Rightarrow> active_stream \<Rightarrow> active_stream" where
  "stream_event ev a = a\<lparr>as_download := dl_event ev (as_download a)\<rparr>"

text \<open>The task is spawned and registered first; it may already run before the stream is set to playing.\<close>

definition start_stream :: "info_hash \<Rightarrow> active_stream \<Rightarrow> task_outcome list \<Rightarrow> engine \<Rightarrow> engine" where
  "start_stream h a early e =
     on_stream h (stream_event EPlay) (on_stream h (\<lambda>a. foldl (\<lambda>a out. task_step out a) a early) (register_stream h a e))"

text \<open>
  What a call to \<open>play\<close> meets: the clock, whether cached metadata can be read, the peers of the tracker and of
  the DHT, the HTTP client and the answer to its request, the canonical form of the path, whether it is a file and
  its length, what the media probe finds, and the steps of the task before the stream is set to playing.
\<close>

record surroundings =
  su_now :: nat
  su_cache_read :: bool
  su_tracker :: "(peer_info list, qvod_error) result"
  su_dht :: "(peer_info list, qvod_error) result"
  su_client :: "(unit, string) result"
  su_head :: "(string option \<times> string option, string) result"
  su_canonical :: "(string, string) result"
  su_file :: "(bool \<times> u64, string) result"
  su_probe :: "media_probe option"
  su_early :: "task_outcome list"

definition unwrap_or_default :: "('a list, 'e) result \<Rightarrow> 'a list" where
  "unwrap_or_default r = (case r of Ok xs \<Rightarrow> xs | _ \<Rightarrow> [])"

definition get_peers_parallel :: "surroundings \<Rightarrow> engine \<Rightarrow> info_hash \<Rightarrow> peer_info list" where
  "get_peers_parallel su e h =
     (if en_tracker e then unwrap_or_default (su_tracker su) else []) @ (if en_dht e then unwrap_or_default (su_dht su) else [])"

definition play_qvod :: "surroundings \<Rightarrow> qvod_uri \<Rightarrow> engine \<Rightarrow> engine \<times> (core_media_stream, qvod_error) result" where
  "play_qvod su u e =
     (let h = qu_info_hash u; file_size = qu_filesize u
      in case Option.bind (en_cache e) (\<lambda>c. cache_find (su_cache_read su) c h) of
        Some m \<Rightarrow> (register_stream h (new_active (su_now su) e h m None) e, Ok \<lparr>cm_metadata = m\<rparr>)
      | None \<Rightarrow>
          let peers = get_peers_parallel su e h;
              m = (if peers = [] then empty_meta h file_size
                   else case resolve_from_peers h peers of Ok m \<Rightarrow> m | _ \<Rightarrow> empty_meta h file_size);
              task = (if peers \<noteq> [] \<or> 0 < file_size then Some PieceTask else None)
          in (start_stream h (new_active (su_now su) e h m task) (su_early su) e, Ok \<lparr>cm_metadata = m\<rparr>))"

definition source_pieces :: "u64 \<Rightarrow> bytes list" where
  "source_pieces file_size =
     replicate (unat (if 0 < file_size then ucast ((file_size + PIECE_LENGTH - 1) div PIECE_LENGTH) else (0 :: u32))) (replicate 20 0)"

definition play_http :: "(bytes \<Rightarrow> bytes) \<Rightarrow> surroundings \<Rightarrow> http_url \<Rightarrow> engine \<Rightarrow> engine \<times> (core_media_stream, qvod_error) result" where
  "play_http sha1 su u e =
     (let h = InfoHash (sha1 (as_bytes (hu_url u)))
      in case probe_http_source (su_client su) (su_head su) of
        Ok (file_size, content_type) \<Rightarrow>
          (let m = \<lparr>fm_info_hash = h, fm_filename = hu_filename u, fm_file_size = file_size, fm_piece_length = PIECE_LENGTH,
                    fm_pieces = source_pieces file_size, fm_keyframe_index = None, fm_duration_ms = 0, fm_video_codec = None,
                    fm_audio_codec = None, fm_width = 0, fm_height = 0, fm_bitrate = 0, fm_from_cache = False\<rparr>;
               task = (if 0 < file_size then Some (HttpTask (hu_url u)) else None)
           in (start_stream h (new_active (su_now su) e h m task) (su_early su) e, Ok \<lparr>cm_metadata = m\<rparr>))
      | Err er \<Rightarrow> (e, Err er)
      | Panic \<Rightarrow> (e, Panic))"

text \<open>The metadata of a file; the path is its canonical form, without a trailing slash.\<close>

definition probe_file_source :: "(bytes \<Rightarrow> bytes) \<Rightarrow> surroundings \<Rightarrow> string \<Rightarrow> (file_meta, qvod_error) result" where
  "probe_file_source sha1 su path =
     and_then (map_err Network (su_file su)) (\<lambda>(is_file, file_size).
     if \<not> is_file then Err (Protocol (''not a file: '' @ path))
     else
       let name = rsplit_first CHR ''/'' path; filename = (if name = [] then ''unknown'' else name);
           (dur, w, h, v, a, bitrate) = (case su_probe su of
              Some p \<Rightarrow> (mp_duration_ms p, mp_width p, mp_height p, mp_video_codec p, mp_audio_codec p, mp_bitrate p)
            | None \<Rightarrow> (0, 0, 0, [], [], 0))
       in Ok \<lparr>fm_info_hash = InfoHash (sha1 (as_bytes path)), fm_filename = filename, fm_file_size = file_size,
              fm_piece_length = PIECE_LENGTH, fm_pieces = source_pieces file_size, fm_keyframe_index = None,
              fm_duration_ms = dur, fm_video_codec = (if v = [] then None else Some v),
              fm_audio_codec = (if a = [] then None else Some a), fm_width = w, fm_height = h, fm_bitrate = bitrate,
              fm_from_cache = False\<rparr>)"

text \<open>A file is known by the hash of its \<open>file://\<close> address.\<close>

definition file_uri :: "string \<Rightarrow> string" where
  "file_uri path = ''file://'' @ path"

definition file_hash :: "(bytes \<Rightarrow> bytes) \<Rightarrow> string \<Rightarrow> info_hash" where
  "file_hash sha1 path = InfoHash (sha1 (as_bytes (file_uri path)))"

definition play_file :: "(bytes \<Rightarrow> bytes) \<Rightarrow> surroundings \<Rightarrow> string \<Rightarrow> engine \<Rightarrow> engine \<times> (core_media_stream, qvod_error) result" where
  "play_file sha1 su file_path e =
     (let h = file_hash sha1 file_path
      in case and_then (map_err Network (su_canonical su)) (\<lambda>canonical.
                and_then (probe_file_source sha1 su canonical) (\<lambda>m. Ok (canonical, m))) of
        Ok (canonical, m0) \<Rightarrow>
          (let m = m0\<lparr>fm_info_hash := h\<rparr>;
               task = (if 0 < fm_file_size m then Some (FileTask canonical False) else None)
           in (start_stream h (new_active (su_now su) e h m task) (su_early su) e, Ok \<lparr>cm_metadata = m\<rparr>))
      | Err er \<Rightarrow> (e, Err er)
      | Panic \<Rightarrow> (e, Panic))"

definition engine_play :: "(bytes \<Rightarrow> bytes) \<Rightarrow> surroundings \<Rightarrow> string \<Rightarrow> engine \<Rightarrow> engine \<times> (core_media_stream, qvod_error) result" where
  "engine_play sha1 su uri e =
     (case parse_media_uri uri of
        Ok (QvodAddr u) \<Rightarrow> play_qvod su u e
      | Ok (HttpAddr u) \<Rightarrow> play_http sha1 su u e
      | Ok (FileAddr path) \<Rightarrow> play_file sha1 su path e
      | Err er \<Rightarrow> (e, Err er)
      | Panic \<Rightarrow> (e, Panic))"

section \<open>Controls and queries\<close>

definition on_all :: "(active_stream \<Rightarrow> active_stream) \<Rightarrow> engine \<Rightarrow> engine" where
  "on_all f e = e\<lparr>en_streams := map (\<lambda>(h, a). (h, f a)) (en_streams e)\<rparr>"

definition pause_stream :: "active_stream \<Rightarrow> active_stream" where
  "pause_stream a = stream_event EPause (a\<lparr>as_paused := True\<rparr>)"

definition resume_stream :: "active_stream \<Rightarrow> active_stream" where
  "resume_stream a = stream_event EResume (a\<lparr>as_paused := False\<rparr>)"

text \<open>The key frame is looked up for the log alone; the stream is sent to the requested time in both cases.\<close>

definition seek_stream :: "u64 \<Rightarrow> active_stream \<Rightarrow> active_stream" where
  "seek_stream t a =
     (case find_nearest_keyframe (as_seek_engine a) t of
        Ok target_offset \<Rightarrow> (let piece_idx = piece_for_offset (as_seek_engine a) target_offset in stream_event (ESeek t) a)
      | _ \<Rightarrow> stream_event (ESeek t) a)"

definition engine_pause :: "engine \<Rightarrow> engine" where
  "engine_pause e = on_all pause_stream e"

definition engine_resume :: "engine \<Rightarrow> engine" where
  "engine_resume e = on_all resume_stream e"

definition engine_seek :: "u64 \<Rightarrow> engine \<Rightarrow> engine \<times> (unit, qvod_error) result" where
  "engine_seek t e = (on_all (seek_stream t) e, Ok ())"

text \<open>\<open>stop\<close> removes the stream and aborts its task.\<close>

definition engine_stop :: "info_hash \<Rightarrow> engine \<Rightarrow> engine" where
  "engine_stop h e = e\<lparr>en_streams := AList.delete h (en_streams e)\<rparr>"

definition engine_status :: "engine \<Rightarrow> info_hash \<Rightarrow> stream_status option" where
  "engine_status e h =
     map_option (\<lambda>a. let s = ms_stats (dl_stream (as_download a))
       in \<lparr>st_state = ss_state s, st_position_ms = ss_position_ms s, st_duration_ms = ss_duration_ms s,
           st_buffered_seconds = ss_buffered_seconds s, st_download_progress = ss_download_progress s, st_peer_count = ss_peer_count s\<rparr>)
     (map_of (en_streams e) h)"

definition active_streams :: "engine \<Rightarrow> info_hash list" where
  "active_streams e = map fst (en_streams e)"

definition read_buffer :: "engine \<Rightarrow> info_hash \<Rightarrow> u64 \<Rightarrow> u64 \<Rightarrow> (bytes option, qvod_error) result" where
  "read_buffer e h offset len =
     (case map_of (en_streams e) h of None \<Rightarrow> Ok None | Some a \<Rightarrow> rb_read offset len (dl_buffer (as_download a)))"

definition engine_file_size :: "engine \<Rightarrow> info_hash \<Rightarrow> u64 option" where
  "engine_file_size e h = map_option (\<lambda>a. fm_file_size (as_metadata a)) (map_of (en_streams e) h)"

section \<open>Streams of a changed engine\<close>

lemma streams_on_stream [simp]:
  "map_of (en_streams (on_stream h f e)) h' = (if h' = h then map_option f (map_of (en_streams e) h) else map_of (en_streams e) h')"
  by (simp add: on_stream_def AList.map_of_map_entry) (auto split: option.splits)

lemma streams_on_all [simp]: "map_of (en_streams (on_all f e)) h = map_option f (map_of (en_streams e) h)"
  by (simp add: on_all_def map_of_map)

lemma streams_register [simp]:
  "map_of (en_streams (register_stream h a e)) h' = (if h' = h then Some a else map_of (en_streams e) h')"
  by (simp add: register_stream_def update_conv)

lemma streams_stop [simp]: "map_of (en_streams (engine_stop h e)) h' = (if h' = h then None else map_of (en_streams e) h')"
  by (simp add: engine_stop_def delete_conv)

lemma streams_start [simp]:
  "map_of (en_streams (start_stream h a early e)) h' =
    (if h' = h then Some (stream_event EPlay (foldl (\<lambda>a out. task_step out a) a early)) else map_of (en_streams e) h')"
  by (simp add: start_stream_def)

section \<open>A stream that nothing is fetched for\<close>

text \<open>A stream without a task has an empty buffer; the buffer that the task of a \<open>qvod\<close> address fills holds zeros.\<close>

definition all_zero :: "bytes \<Rightarrow> bool" where
  "all_zero bs \<longleftrightarrow> set bs \<subseteq> {0}"

definition unfetched :: "active_stream \<Rightarrow> bool" where
  "unfetched a \<longleftrightarrow> as_task a = None \<or> as_task a = Some PieceTask"

definition quiet :: "active_stream \<Rightarrow> bool" where
  "quiet a \<longleftrightarrow> unfetched a \<longrightarrow> all_zero (rb_data (dl_buffer (as_download a))) \<and>
     (as_task a = None \<longrightarrow> rb_filled (dl_buffer (as_download a)) = [])"

lemma all_zero_simps [simp]:
  "all_zero []" "all_zero (replicate n 0)" "all_zero (xs @ ys) \<longleftrightarrow> all_zero xs \<and> all_zero ys"
  by (auto simp: all_zero_def)

lemma all_zero_take_drop [simp]: "all_zero xs \<Longrightarrow> all_zero (take n xs)" "all_zero xs \<Longrightarrow> all_zero (drop n xs)"
  by (auto simp: all_zero_def dest: in_set_takeD in_set_dropD)

lemma slide_to_zero: "all_zero (rb_data b) \<Longrightarrow> all_zero (rb_data (slide_to n b))"
  by (simp add: slide_to_def Let_def)

lemma all_zero_if: "all_zero (rb_data (if c then x else y)) \<longleftrightarrow> (if c then all_zero (rb_data x) else all_zero (rb_data y))"
  by simp

lemma rb_write_zero:
  assumes w: "rb_write offset d b = Ok b'" and z: "all_zero d" "all_zero (rb_data b)"
  shows "all_zero (rb_data b')"
proof -
  define b1 where "b1 = (if offset < rb_file_offset b then slide_to offset b else b)"
  have b1: "all_zero (rb_data b1)" using z(2) by (simp add: b1_def slide_to_zero)
  define e where "e = unat (min (offset + of_nat (length d)) (rb_total_size b) - offset)"
  define n where "n = (of_nat (length (take e d)) :: u64)"
  define b2 where "b2 = (if rb_file_offset b1 + rb_capacity b < offset + n
    then slide_to (min (sat_sub (offset + n) (rb_capacity b)) (sat_sub (rb_total_size b) (rb_capacity b))) b1 else b1)"
  have b2: "all_zero (rb_data b2)" using b1 by (simp add: b2_def slide_to_zero)
  show ?thesis
    using w unfolding rb_write_def Let_def b1_def [symmetric] e_def [symmetric] n_def [symmetric] b2_def [symmetric]
    by (simp only: result.inject result.distinct simp_thms split: if_splits) (use z b2 in \<open>hypsubst, simp\<close>)+
qed

lemma rb_read_zero: "rb_read offset len b = Ok (Some bs) \<Longrightarrow> all_zero (rb_data b) \<Longrightarrow> all_zero bs"
  by (auto simp: rb_read_def subslice_def Let_def split: if_splits)

lemma rb_read_empty: "rb_filled b = [] \<Longrightarrow> rb_read offset len b = Ok None"
  by (simp add: rb_read_def is_range_filled_def)

lemma after_step_simps [simp]:
  "as_task (after_step a r) = as_task a"
  "as_download (after_step a r) = (case r of Ok d \<Rightarrow> d | _ \<Rightarrow> (as_download a)\<lparr>dl_running := False\<rparr>)"
  by (auto simp: after_step_def split: result.split)

lemma piece_step_zero:
  assumes "piece_step m d = Ok d'" and "all_zero (rb_data (dl_buffer d))"
  shows "all_zero (rb_data (dl_buffer d'))"
  using assms by (auto simp: piece_step_def dl_finish_def Let_def and_then_Ok_iff intro: rb_write_zero split: if_splits)

lemma task_step_unfetched: "unfetched (task_step out a) \<longleftrightarrow> unfetched a"
  by (auto simp: task_step_def unfetched_def Let_def split: option.splits download_task.splits task_outcome.splits bool.splits result.splits)

lemma task_step_none: "as_task a = None \<Longrightarrow> task_step out a = a"
  by (simp add: task_step_def Let_def)

lemma task_step_quiet:
  assumes "quiet a"
  shows "quiet (task_step out a)"
proof (cases "as_task a = Some PieceTask")
  case True
  then have "task_step out a = a \<or> task_step out a = after_step a (piece_step (as_metadata a) (as_download a))"
    by (auto simp: task_step_def Let_def split: task_outcome.split)
  with True assms show ?thesis
    by (auto simp: quiet_def unfetched_def split: result.split dest: piece_step_zero)
next
  case False
  then consider "as_task a = None" | "\<not> unfetched a" by (auto simp: unfetched_def)
  then show ?thesis
  proof cases
    case 1
    with assms show ?thesis by (simp add: task_step_none)
  next
    case 2
    then show ?thesis by (simp add: quiet_def task_step_unfetched)
  qed
qed

lemma stream_event_quiet [simp]: "quiet (stream_event ev a) \<longleftrightarrow> quiet a"
  by (simp add: quiet_def unfetched_def stream_event_def dl_event_def)

lemma controls_quiet [simp]:
  "quiet (pause_stream a) \<longleftrightarrow> quiet a" "quiet (resume_stream a) \<longleftrightarrow> quiet a" "quiet (seek_stream t a) \<longleftrightarrow> quiet a"
  by (auto simp: pause_stream_def resume_stream_def seek_stream_def quiet_def unfetched_def stream_event_def dl_event_def split: result.split)

lemma new_active_quiet [simp]: "quiet (new_active now e h m task)"
  by (simp add: quiet_def new_active_def dl_start_def rb_new_def)

lemma early_quiet: "quiet a \<Longrightarrow> quiet (foldl (\<lambda>a out. task_step out a) a outs)"
  by (induction outs arbitrary: a) (auto intro: task_step_quiet)

section \<open>Reachable engines\<close>

text \<open>Any sequence of calls and of steps of the tasks, those of the replaced streams included.\<close>

inductive reachable :: "(bytes \<Rightarrow> bytes) \<Rightarrow> engine \<Rightarrow> bool" for sha1 where
  start: "reachable sha1 (engine_new c dht_ok fs)"
| play: "reachable sha1 e \<Longrightarrow> reachable sha1 (fst (engine_play sha1 su uri e))"
| pause: "reachable sha1 e \<Longrightarrow> reachable sha1 (engine_pause e)"
| resume: "reachable sha1 e \<Longrightarrow> reachable sha1 (engine_resume e)"
| seek: "reachable sha1 e \<Longrightarrow> reachable sha1 (fst (engine_seek t e))"
| stop: "reachable sha1 e \<Longrightarrow> reachable sha1 (engine_stop h e)"
| step: "reachable sha1 e \<Longrightarrow> reachable sha1 (on_stream h (task_step out) e)"
| detached: "reachable sha1 e \<Longrightarrow> i < length (en_detached e) \<Longrightarrow>
    reachable sha1 (e\<lparr>en_detached := (en_detached e)[i := task_step out (en_detached e ! i)]\<rparr>)"

definition all_quiet :: "engine \<Rightarrow> bool" where
  "all_quiet e \<longleftrightarrow> (\<forall>h a. map_of (en_streams e) h = Some a \<longrightarrow> quiet a)"

lemma start_quiet: "all_quiet e \<Longrightarrow> all_quiet (start_stream h (new_active now e' h' m task) outs e)"
  by (simp add: all_quiet_def early_quiet)

lemma register_quiet: "all_quiet e \<Longrightarrow> all_quiet (register_stream h (new_active now e' h' m task) e)"
  by (simp add: all_quiet_def)

lemma play_quiet: "all_quiet e \<Longrightarrow> all_quiet (fst (engine_play sha1 su uri e))"
  by (auto simp: engine_play_def play_qvod_def play_http_def play_file_def Let_def start_quiet register_quiet
      split: result.split media_uri.split option.split)

lemma reachable_quiet: "reachable sha1 e \<Longrightarrow> all_quiet e"
proof (induction rule: reachable.induct)
  case (start c dht_ok fs)
  show ?case by (simp add: all_quiet_def engine_new_def)
next
  case (play e su uri)
  then show ?case by (intro play_quiet)
qed (auto simp: all_quiet_def engine_pause_def engine_resume_def engine_seek_def task_step_quiet split: if_splits)

lemma play_qvod_unfetched:
  "\<exists>a. map_of (en_streams (fst (play_qvod su u e))) (qu_info_hash u) = Some a \<and> unfetched a"
proof -
  have "unfetched a \<Longrightarrow> unfetched (foldl (\<lambda>a out. task_step out a) a outs)" for a outs
    by (induction outs arbitrary: a) (simp_all add: task_step_unfetched)
  then have "unfetched (stream_event ev (foldl (\<lambda>a out. task_step out a) a outs))" if "unfetched a" for a outs ev
    using that by (simp add: stream_event_def unfetched_def)
  then show ?thesis
    by (auto simp: play_qvod_def Let_def unfetched_def new_active_def split: option.split)
qed

text \<open>
  No reachable engine ever serves a byte of a file addressed by its hash: playing a \<open>qvod\<close> address
  always succeeds and registers a stream that has either no task or one that writes zeros, and whatever is read
  from such a stream, then or later, is nothing or zeros; from a stream without a task, which is what cached
  metadata leads to, it is nothing.
\<close>

theorem qvod_streams_unfetched:
  assumes "reachable sha1 e"
  shows "(\<exists>a m. map_of (en_streams (fst (play_qvod su u e))) (qu_info_hash u) = Some a \<and> unfetched a \<and> snd (play_qvod su u e) = Ok m) \<and>
    (\<forall>h a offset len bs. map_of (en_streams e) h = Some a \<and> unfetched a \<and> read_buffer e h offset len = Ok (Some bs) \<longrightarrow>
       as_task a = Some PieceTask \<and> all_zero bs)"
proof -
  have "\<exists>m. snd (play_qvod su u e) = Ok m"
    by (auto simp: play_qvod_def Let_def split: option.split)
  moreover have "as_task a = Some PieceTask \<and> all_zero bs"
    if r: "map_of (en_streams e) h = Some a" "unfetched a" "read_buffer e h offset len = Ok (Some bs)" for h a offset len bs
  proof -
    have "quiet a" using reachable_quiet [OF assms] r(1) by (auto simp: all_quiet_def)
    moreover from r have "rb_read offset len (dl_buffer (as_download a)) = Ok (Some bs)" by (simp add: read_buffer_def)
    ultimately show ?thesis using r(2)
      by (auto simp: quiet_def unfetched_def rb_read_empty intro: rb_read_zero)
  qed
  ultimately show ?thesis using play_qvod_unfetched [of su u e] by blast
qed

definition quiet_surroundings :: surroundings where
  "quiet_surroundings = \<lparr>su_now = 0, su_cache_read = False, su_tracker = Err TrackerTimeout, su_dht = Err DhtTimeout,
     su_client = Err [], su_head = Err [], su_canonical = Err [], su_file = Err [], su_probe = None, su_early = [OnPiece]\<rparr>"

definition sample_address :: qvod_uri where
  "sample_address = \<lparr>qu_info_hash = InfoHash (replicate 20 7), qu_filename = ''a.mp4'', qu_filesize = 3, qu_format = ''mp4''\<rparr>"

lemma sample_address_parses: "parse_media_uri (show_qvod_uri sample_address) = Ok (QvodAddr sample_address)"
  by (rule parse_qvod_addr) (simp add: qvod_uri_wf_def arr20_def sample_address_def)

theorem qvod_streams_unfetched_witness:
  "\<exists>e a. reachable (\<lambda>bs. bs) e \<and> map_of (en_streams e) (qu_info_hash sample_address) = Some a \<and> as_task a = Some PieceTask \<and>
     (\<forall>offset len bs. read_buffer e (qu_info_hash sample_address) offset len = Ok (Some bs) \<longrightarrow> all_zero bs)"
proof -
  let ?init = "engine_new engine_config_default False Map.empty"
  let ?e = "fst (engine_play (\<lambda>bs. bs) quiet_surroundings (show_qvod_uri sample_address) ?init)"
  have e: "?e = fst (play_qvod quiet_surroundings sample_address ?init)"
    by (simp add: engine_play_def sample_address_parses)
  have r: "reachable (\<lambda>bs. bs) ?e" by (intro reachable.intros)
  obtain a where a: "map_of (en_streams ?e) (qu_info_hash sample_address) = Some a" "as_task a = Some PieceTask"
    unfolding e by (simp add: play_qvod_def Let_def engine_new_def engine_config_default_def cache_new_def cache_find_def load_qmv_def
      get_peers_parallel_def quiet_surroundings_def unwrap_or_default_def sample_address_def stream_event_def task_step_def new_active_def)
  with qvod_streams_unfetched [OF r] r show ?thesis unfolding unfetched_def by blast
qed

section \<open>Playing a local file\<close>

text \<open>What the user may do between two chunks, and the trace of the task: the controls, then the next chunk of the file.\<close>

datatype control = CtPause | CtResume | CtSeek u64

fun run_control :: "control \<Rightarrow> engine \<Rightarrow> engine" where
  "run_control CtPause e = engine_pause e"
| "run_control CtResume e = engine_resume e"
| "run_control (CtSeek t) e = fst (engine_seek t e)"

fun control_event :: "control \<Rightarrow> stream_event" where
  "control_event CtPause = EPause"
| "control_event CtResume = EResume"
| "control_event (CtSeek t) = ESeek t"

definition serve_chunk :: "bytes \<Rightarrow> active_stream \<Rightarrow> active_stream" where
  "serve_chunk src a = task_step (OnFile (FileChunk (next_chunk src (as_metadata a) (dl_offset (as_download a))))) a"

fun file_trace :: "bytes \<Rightarrow> info_hash \<Rightarrow> control list list \<Rightarrow> engine \<Rightarrow> engine" where
  "file_trace src h [] e = e"
| "file_trace src h (cs # css) e = file_trace src h css (on_stream h (serve_chunk src) (foldl (\<lambda>e c. run_control c e) e cs))"

text \<open>The engine's controls are events of the stream.\<close>

lemma streams_control:
  assumes "map_of (en_streams e) h = Some a"
  shows "\<exists>a'. map_of (en_streams (run_control c e)) h = Some a' \<and> as_task a' = as_task a \<and> as_metadata a' = as_metadata a \<and>
    as_download a' = dl_event (control_event c) (as_download a)"
  using assms
  by (cases c) (simp_all add: engine_pause_def engine_resume_def engine_seek_def pause_stream_def resume_stream_def
      seek_stream_def stream_event_def split: result.split)

lemma streams_controls:
  assumes "map_of (en_streams e) h = Some a"
  shows "\<exists>a'. map_of (en_streams (foldl (\<lambda>e c. run_control c e) e cs)) h = Some a' \<and> as_task a' = as_task a \<and> as_metadata a' = as_metadata a \<and>
    as_download a' = dl_events (map control_event cs) (as_download a)"
  using assms
proof (induction cs arbitrary: e a)
  case Nil
  then show ?case by (simp add: dl_events_def ms_run_def)
next
  case (Cons c cs)
  from streams_control [OF Cons.prems, of c] obtain a' where
    a': "map_of (en_streams (run_control c e)) h = Some a'" "as_task a' = as_task a" "as_metadata a' = as_metadata a"
    "as_download a' = dl_event (control_event c) (as_download a)" by blast
  from Cons.IH [OF a'(1)] a' show ?case by (simp add: dl_events_def dl_event_def ms_run_def)
qed

text \<open>The task of the stream runs as the file loop of the stream's own events.\<close>

lemma file_trace_run:
  assumes "map_of (en_streams e) h = Some a" and "as_task a = Some (FileTask path True)"
    and "file_run src (as_metadata a) (map (map control_event) css) (as_download a) = Ok d"
  shows "\<exists>a'. map_of (en_streams (file_trace src h css e)) h = Some a' \<and> as_download a' = d"
  using assms
proof (induction css arbitrary: e a)
  case (Cons cs css)
  from streams_controls [OF Cons.prems(1), of cs] obtain a1 where
    a1: "map_of (en_streams (foldl (\<lambda>e c. run_control c e) e cs)) h = Some a1" "as_task a1 = as_task a" "as_metadata a1 = as_metadata a"
    "as_download a1 = dl_events (map control_event cs) (as_download a)" by blast
  have o1: "dl_offset (dl_events es d0) = dl_offset d0" for es d0 by (simp add: dl_events_def)
  from Cons.prems(3) obtain d1 where
    d1: "file_step (as_metadata a) (FileChunk (next_chunk src (as_metadata a) (dl_offset (as_download a)))) (dl_events (map control_event cs) (as_download a)) = Ok d1"
    "file_run src (as_metadata a) (map (map control_event) css) d1 = Ok d" by (auto simp: and_then_Ok_iff)
  have s: "serve_chunk src a1 = a1\<lparr>as_download := d1\<rparr>"
    using a1 Cons.prems(2) d1(1) by (simp add: serve_chunk_def task_step_def Let_def o1 after_step_def)
  from Cons.IH [of "on_stream h (serve_chunk src) (foldl (\<lambda>e c. run_control c e) e cs)" "a1\<lparr>as_download := d1\<rparr>"] a1 s d1(2) Cons.prems(2)
  show ?case by simp
qed simp

lemma probe_file_source_size:
  "su_file su = Ok (True, n) \<Longrightarrow> \<exists>m. probe_file_source sha1 su path = Ok m \<and> fm_file_size m = n"
  by (cases "su_probe su") (simp_all add: probe_file_source_def Let_def)

text \<open>
  C1: playing a local file that fits in the buffer serves the file: once its task, which starts after the call has
  returned, has opened it and read one chunk per 64 KiB, every read succeeding, with any controls of the user in between, the
  engine reports the stream as ended with progress 1, and every range of the file can be read and has the bytes of the file.
\<close>

theorem engine_serves_file:
  assumes "su_canonical su = Ok path" and "su_file su = Ok (True, file_size)" and "su_early su = []"
    and "unat file_size = length src" and "src \<noteq> []" and "file_size \<le> buffer_capacity (en_config e)"
    and "length css = (length src + 65535) div 65536"
  shows "let h = file_hash sha1 p;
      (e1, r) = engine_play sha1 su (file_uri p) e;
      e2 = file_trace src h css (on_stream h (task_step (OnOpen (Ok ()))) e1)
    in is_ok r \<and>
      (\<exists>st. engine_status e2 h = Some st \<and> st_state st = Ended \<and> st_download_progress st = 1) \<and>
      (\<forall>offset len. 0 < len \<and> unat offset + unat len \<le> length src \<longrightarrow>
         read_buffer e2 h offset len = Ok (Some (take (unat len) (drop (unat offset) src))))"
proof -
  let ?h = "file_hash sha1 p"
  have "0 < file_size" using assms(4,5) by (simp add: word_less_nat_alt)
  moreover obtain m0 where m0: "probe_file_source sha1 su path = Ok m0" "fm_file_size m0 = file_size"
    using probe_file_source_size [OF assms(2)] by blast
  moreover define m where "m = m0\<lparr>fm_info_hash := ?h\<rparr>"
  moreover have "engine_play sha1 su (file_uri p) e = play_file sha1 su p e"
    by (simp only: engine_play_def file_uri_def parse_file_addr result.case media_uri.case)
  ultimately have m: "fm_file_size m = file_size" and
    pl: "engine_play sha1 su (file_uri p) e = (start_stream ?h (new_active (su_now su) e ?h m (Some (FileTask path False))) [] e, Ok \<lparr>cm_metadata = m\<rparr>)"
    using assms(1,3) by (simp_all only: play_file_def Let_def map_err.simps and_then.simps result.case prod.case) simp_all
  let ?e1 = "on_stream ?h (task_step (OnOpen (Ok ()))) (fst (engine_play sha1 su (file_uri p) e))"
  let ?s = "fst (ms_play (ms_new (ss_new (fm_duration_ms m))))"
  obtain a where a: "map_of (en_streams ?e1) ?h = Some a" "as_task a = Some (FileTask path True)" "as_metadata a = m"
    "as_download a = file_check m (dl_start (rb_new (buffer_capacity (en_config e)) (fm_file_size m)) ?s)"
    unfolding pl by (simp add: new_active_def stream_event_def dl_event_def task_step_def dl_start_def Let_def)
  obtain d where d: "file_run src m (map (map control_event) css) (as_download a) = Ok d" "file_done src m d"
    using file_download_done [of m src "buffer_capacity (en_config e)" "map (map control_event) css" ?s] assms(4-7) m
    unfolding a(4) by auto
  from file_trace_run [OF a(1,2), of src css d] d(1) a(3) obtain a2 where
    a2: "map_of (en_streams (file_trace src ?h css ?e1)) ?h = Some a2" "as_download a2 = d" by blast
  from d(2) a2 pl show ?thesis
    by (auto simp: Let_def engine_status_def read_buffer_def file_done_def ms_state_def intro: read_prefix)
qed

theorem engine_serves_file_witness:
  "let h = file_hash (\<lambda>bs. bs) ''/a'';
     su = quiet_surroundings\<lparr>su_canonical := Ok ''/a'', su_file := Ok (True, 3), su_early := []\<rparr>;
     (e1, r) = engine_play (\<lambda>bs. bs) su (file_uri ''/a'') (engine_new engine_config_default False Map.empty);
     e2 = file_trace [1, 2, 3] h [[CtPause, CtSeek 9000]] (on_stream h (task_step (OnOpen (Ok ()))) e1)
   in is_ok r \<and>
     (\<exists>st. engine_status e2 h = Some st \<and> st_state st = Ended \<and> st_download_progress st = 1) \<and>
     (\<forall>offset len. 0 < len \<and> unat offset + unat len \<le> length [1, 2, 3 :: u8] \<longrightarrow>
        read_buffer e2 h offset len = Ok (Some (take (unat len) (drop (unat offset) [1, 2, 3]))))"
  unfolding Let_def
  by (rule engine_serves_file [where file_size = 3 and path = "''/a''", unfolded Let_def])
    (simp_all add: engine_new_def engine_config_default_def buffer_capacity_def word_le_nat_alt)

text \<open>
  The task runs before the stream is set to playing: one that has already failed leaves a stream that is shown as
  playing and will never be read.
\<close>

lemma early_failure_shown_as_playing:
  assumes "su_canonical su = Ok path" and "su_file su = Ok (True, n)" and "0 < n" and "su_early su = [OnOpen (Err msg)]"
  shows "\<exists>a. map_of (en_streams (fst (play_file sha1 su p e))) (file_hash sha1 p) = Some a \<and>
    ms_state (dl_stream (as_download a)) = Playing \<and> \<not> dl_running (as_download a)"
proof -
  obtain m where "probe_file_source sha1 su path = Ok m" "fm_file_size m = n"
    using probe_file_source_size [OF assms(2)] by blast
  with assms show ?thesis
    by (simp add: play_file_def Let_def new_active_def task_step_def stream_event_def dl_event_def dl_finish_def ms_defs)
qed

text \<open>Stopping a stream: nothing of it can be seen any more, and every other stream is as it was.\<close>

lemma engine_stop_effect:
  "engine_status (engine_stop h e) h = None \<and> read_buffer (engine_stop h e) h offset len = Ok None \<and>
   engine_file_size (engine_stop h e) h = None \<and>
   (k \<noteq> h \<longrightarrow> engine_status (engine_stop h e) k = engine_status e k \<and> read_buffer (engine_stop h e) k offset len = read_buffer e k offset len)"
  by (simp add: engine_status_def read_buffer_def engine_file_size_def)

end
