(* ===== verification/Tcp_Stream.thy ===== *)
theory Tcp_Stream
  imports Peer_Message
begin

text \<open>
  The TCP connection to a peer (\<open>qvs-transport/src/tcp_stream.rs\<close>): the handshake and the messages over a
  byte stream. What arrives before the time limit of a read, and the error met when it is not enough, are arguments,
  as is how much of a write goes out.
\<close>

section \<open>State\<close>

text \<open>A socket: the bytes that have arrived and are not read yet, and those sent.\<close>

record tcp_socket =
  sk_incoming :: bytes
  sk_sent :: bytes

record tcp_manager =
  tcp_stream :: "tcp_socket option"
  tcp_connected :: bool

definition tcp_new :: tcp_manager where
  "tcp_new = \<lparr>tcp_stream = None, tcp_connected = False\<rparr>"

definition tcp_connect :: "(tcp_socket, qvod_error) result \<Rightarrow> tcp_manager \<Rightarrow> tcp_manager \<times> (unit, qvod_error) result" where
  "tcp_connect outcome t =
     (case outcome of
        Ok s \<Rightarrow> (t\<lparr>tcp_stream := Some s, tcp_connected := True\<rparr>, Ok ())
      | Err e \<Rightarrow> (t, Err e)
      | Panic \<Rightarrow> (t, Panic))"

definition tcp_close :: "tcp_manager \<Rightarrow> tcp_manager" where
  "tcp_close t = t\<lparr>tcp_stream := None, tcp_connected := False\<rparr>"

section \<open>Bytes\<close>

text \<open>A read that fails, by the time limit or by the end of the stream, has taken what there was.\<close>

definition tcp_read_exact :: "qvod_error \<Rightarrow> nat \<Rightarrow> tcp_manager \<Rightarrow> tcp_manager \<times> (bytes, qvod_error) result" where
  "tcp_read_exact failure n t =
     (case tcp_stream t of
        None \<Rightarrow> (t, Err (Protocol ''not connected''))
      | Some s \<Rightarrow>
          if n \<le> length (sk_incoming s) then
            (t\<lparr>tcp_stream := Some (s\<lparr>sk_incoming := drop n (sk_incoming s)\<rparr>)\<rparr>, Ok (take n (sk_incoming s)))
          else (t\<lparr>tcp_stream := Some (s\<lparr>sk_incoming := []\<rparr>)\<rparr>, Err failure))"

definition tcp_write_all :: "(nat \<times> qvod_error) option \<Rightarrow> bytes \<Rightarrow> tcp_manager \<Rightarrow> tcp_manager \<times> (unit, qvod_error) result" where
  "tcp_write_all fault data t =
     (case tcp_stream t of
        None \<Rightarrow> (t, Err (Protocol ''not connected''))
      | Some s \<Rightarrow>
          (case fault of
             None \<Rightarrow> (t\<lparr>tcp_stream := Some (s\<lparr>sk_sent := sk_sent s @ data\<rparr>)\<rparr>, Ok ())
           | Some (n, e) \<Rightarrow> (t\<lparr>tcp_stream := Some (s\<lparr>sk_sent := sk_sent s @ take n data\<rparr>)\<rparr>, Err e)))"

section \<open>Handshake and messages\<close>

definition send_handshake :: "(nat \<times> qvod_error) option \<Rightarrow> info_hash \<Rightarrow> bytes \<Rightarrow> tcp_manager \<Rightarrow> tcp_manager \<times> (unit, qvod_error) result" where
  "send_handshake fault h peer_id t = tcp_write_all fault (hs_encode (hs_new h peer_id)) t"

definition receive_handshake :: "qvod_error \<Rightarrow> tcp_manager \<Rightarrow> tcp_manager \<times> (info_hash \<times> bytes \<times> bytes, qvod_error) result" where
  "receive_handshake failure t =
     (case tcp_read_exact failure 1 t of
        (t1, Ok pstrlen_buf) \<Rightarrow>
          (let pstrlen = unat (pstrlen_buf ! 0); total_len = 1 + pstrlen + 8 + 20 + 20
           in case tcp_read_exact failure (total_len - 1) t1 of
             (t2, Ok rest) \<Rightarrow>
               (t2, and_then (hs_decode (pstrlen_buf @ rest)) (\<lambda>hs. Ok (hs_info_hash hs, hs_peer_id hs, hs_reserved hs)))
           | (t2, Err e) \<Rightarrow> (t2, Err e)
           | (t2, Panic) \<Rightarrow> (t2, Panic))
      | (t1, Err e) \<Rightarrow> (t1, Err e)
      | (t1, Panic) \<Rightarrow> (t1, Panic))"

definition send_message :: "(nat \<times> qvod_error) option \<Rightarrow> peer_message \<Rightarrow> tcp_manager \<Rightarrow> tcp_manager \<times> (unit, qvod_error) result" where
  "send_message fault m t = tcp_write_all fault (pm_encode m) t"

definition send_raw :: "(nat \<times> qvod_error) option \<Rightarrow> bytes \<Rightarrow> tcp_manager \<Rightarrow> tcp_manager \<times> (unit, qvod_error) result" where
  "send_raw fault data t = tcp_write_all fault data t"

definition read_message :: "qvod_error \<Rightarrow> tcp_manager \<Rightarrow> tcp_manager \<times> (peer_message, qvod_error) result" where
  "read_message failure t =
     (case tcp_read_exact failure 4 t of
        (t1, Ok len_buf) \<Rightarrow>
          (let len = unat (be32_at 0 len_buf)
           in if len = 0 then (t1, Err (Protocol ''keep-alive''))
              else case tcp_read_exact failure len t1 of
                (t2, Ok rest) \<Rightarrow> (t2, pm_decode (len_buf @ rest))
              | (t2, Err e) \<Rightarrow> (t2, Err e)
              | (t2, Panic) \<Rightarrow> (t2, Panic))
      | (t1, Err e) \<Rightarrow> (t1, Err e)
      | (t1, Panic) \<Rightarrow> (t1, Panic))"

definition read_keep_alive :: "qvod_error \<Rightarrow> tcp_manager \<Rightarrow> tcp_manager \<times> (bool, qvod_error) result" where
  "read_keep_alive failure t =
     (case tcp_read_exact failure 4 t of
        (t1, Ok b) \<Rightarrow> (t1, Ok (be32_at 0 b = 0))
      | (t1, Err e) \<Rightarrow> (t1, Err e)
      | (t1, Panic) \<Rightarrow> (t1, Panic))"

section \<open>A session\<close>

text \<open>What one side sends and the other reads, in order, over an undisturbed connection.\<close>

definition ok_message :: "peer_message \<Rightarrow> bool" where
  "ok_message m \<longleftrightarrow> length (pm_payload m) + 1 < 2 ^ 32"

fun send_messages :: "peer_message list \<Rightarrow> tcp_manager \<Rightarrow> tcp_manager" where
  "send_messages [] t = t"
| "send_messages (m # ms) t = send_messages ms (fst (send_message None m t))"

fun read_messages :: "qvod_error \<Rightarrow> nat \<Rightarrow> tcp_manager \<Rightarrow> tcp_manager \<times> (peer_message list, qvod_error) result" where
  "read_messages failure 0 t = (t, Ok [])"
| "read_messages failure (Suc n) t =
     (case read_message failure t of
        (t1, Ok m) \<Rightarrow> (case read_messages failure n t1 of (t2, r) \<Rightarrow> (t2, and_then r (\<lambda>ms. Ok (m # ms))))
      | (t1, Err e) \<Rightarrow> (t1, Err e)
      | (t1, Panic) \<Rightarrow> (t1, Panic))"

definition incoming :: "bytes \<Rightarrow> tcp_manager" where
  "incoming bs = \<lparr>tcp_stream = Some \<lparr>sk_incoming = bs, sk_sent = []\<rparr>, tcp_connected = True\<rparr>"

definition sent :: "tcp_manager \<Rightarrow> bytes" where
  "sent t = (case tcp_stream t of None \<Rightarrow> [] | Some s \<Rightarrow> sk_sent s)"

lemma read_exact_incoming: "length bs = n \<Longrightarrow> tcp_read_exact f n (incoming (bs @ rest)) = (incoming rest, Ok bs)"
  by (simp add: tcp_read_exact_def incoming_def)

lemma read_message_incoming:
  assumes "ok_message m"
  shows "read_message f (incoming (pm_encode m @ rest)) = (incoming rest, Ok m)"
proof -
  let ?n = "1 + length (pm_payload m)"
  let ?l = "u32_be (1 + of_nat (length (pm_payload m)))"
  have n: "unat (1 + of_nat (length (pm_payload m)) :: u32) = ?n"
    using assms by (simp add: ok_message_def unat_word_ariths unat_of_nat)
  have e: "pm_encode m @ rest = ?l @ ((msg_id_u8 (pm_msg_id m) # pm_payload m) @ rest)" by (simp add: pm_encode_def)
  have d: "pm_decode (?l @ msg_id_u8 (pm_msg_id m) # pm_payload m) = Ok m"
    using pm_decode_encode_append [of m "[]"] assms by (simp add: pm_encode_def ok_message_def)
  have r: "tcp_read_exact f ?n (incoming ((msg_id_u8 (pm_msg_id m) # pm_payload m) @ rest)) =
      (incoming rest, Ok (msg_id_u8 (pm_msg_id m) # pm_payload m))"
    by (rule read_exact_incoming) simp
  have z: "(?n = 0) = False" by simp
  show ?thesis
    unfolding read_message_def e read_exact_incoming [OF length_u32_be]
    by (simp only: prod.case result.case Let_def be32_at_0 n z if_False r d)
qed

lemma read_messages_incoming:
  assumes "\<forall>m \<in> set ms. ok_message m"
  shows "read_messages f (length ms) (incoming (concat (map pm_encode ms) @ rest)) = (incoming rest, Ok ms)"
  using assms by (induction ms) (simp_all add: read_message_incoming)

lemma sent_messages:
  "tcp_stream t \<noteq> None \<Longrightarrow> sent (send_messages ms t) = sent t @ concat (map pm_encode ms)"
proof (induction ms arbitrary: t)
  case (Cons m ms)
  then obtain s where s: "tcp_stream t = Some s" by blast
  with Cons.IH [of "fst (send_message None m t)"] show ?case
    by (simp add: send_message_def tcp_write_all_def sent_def)
qed simp

lemma receive_handshake_incoming:
  assumes "arr20 (ih_bytes h)" and "arr20 peer_id"
  shows "receive_handshake f (incoming (hs_encode (hs_new h peer_id) @ rest)) =
    (incoming rest, Ok (h, peer_id, hs_reserved (hs_new h peer_id)))"
proof -
  let ?e = "hs_encode (hs_new h peer_id)"
  have l: "length ?e = 67" and hd: "?e = 18 # tl ?e"
    using assms by (simp_all add: hs_encode_def hs_new_def length_handshake_protocol arr20_def)
  have "length (tl ?e) = 66" using l by simp
  then have r: "tcp_read_exact f 66 (incoming (tl ?e @ rest)) = (incoming rest, Ok (tl ?e))" by (rule read_exact_incoming)
  have "tcp_read_exact f 1 (incoming ([18] @ (tl ?e @ rest))) = (incoming (tl ?e @ rest), Ok [18])"
    by (rule read_exact_incoming) simp
  moreover have "[18] @ (tl ?e @ rest) = ?e @ rest" by (subst (2) hd) simp
  ultimately have r1: "tcp_read_exact f 1 (incoming (?e @ rest)) = (incoming (tl ?e @ rest), Ok [18])" by (simp only:)
  have d: "hs_decode ([18] @ tl ?e) = Ok (hs_new h peer_id)"
    using hs_decode_encode [of "hs_new h peer_id" "[]"] hs_new_wf [OF assms] hd by simp
  have n: "1 + unat ([18 :: u8] ! 0) + 8 + 20 + 20 - 1 = 66" by simp
  show ?thesis
    unfolding receive_handshake_def r1
    by (simp only: prod.case result.case Let_def n r d and_then.simps) (simp add: hs_new_def)
qed

text \<open>
  C12: whatever one side sends over an undisturbed connection, its handshake and then any sequence of messages, the
  other reads back in order and byte for byte, and nothing of what follows is taken.
\<close>

theorem tcp_session_roundtrip:
  assumes "arr20 (ih_bytes h)" and "arr20 peer_id" and "\<forall>m \<in> set ms. ok_message m" and "tcp_stream t = Some \<lparr>sk_incoming = bs, sk_sent = []\<rparr>"
  shows "let t1 = send_messages ms (fst (send_handshake None h peer_id t));
      (r1, hs) = receive_handshake f (incoming (sent t1 @ rest));
      (r2, got) = read_messages f (length ms) r1
    in hs = Ok (h, peer_id, hs_reserved (hs_new h peer_id)) \<and> got = Ok ms \<and> r2 = incoming rest"
proof -
  have "sent (send_messages ms (fst (send_handshake None h peer_id t))) =
      hs_encode (hs_new h peer_id) @ concat (map pm_encode ms)"
    using assms(4) by (subst sent_messages) (simp_all add: send_handshake_def tcp_write_all_def sent_def)
  then show ?thesis
    by (simp add: receive_handshake_incoming [OF assms(1,2)] read_messages_incoming [OF assms(3)])
qed

theorem tcp_session_roundtrip_witness:
  "let t1 = send_messages [pm_request 0 0 16384, pm_have 7] (fst (send_handshake None (InfoHash (replicate 20 1)) (replicate 20 2) (incoming [])));
      (r1, hs) = receive_handshake NoPeers (incoming (sent t1 @ keep_alive));
      (r2, got) = read_messages NoPeers (length [pm_request 0 0 16384, pm_have 7]) r1
    in hs = Ok (InfoHash (replicate 20 1), replicate 20 2, hs_reserved (hs_new (InfoHash (replicate 20 1)) (replicate 20 2))) \<and>
      got = Ok [pm_request 0 0 16384, pm_have 7] \<and> r2 = incoming keep_alive"
  by (rule tcp_session_roundtrip) (simp_all add: arr20_def ok_message_def pm_request_def pm_have_def incoming_def)

text \<open>A keep-alive is an error of \<open>read_message\<close>, but leaves the stream at the next message.\<close>

lemma read_message_keep_alive: "read_message f (incoming (keep_alive @ rest)) = (incoming rest, Err (Protocol ''keep-alive''))"
proof -
  have "tcp_read_exact f 4 (incoming (keep_alive @ rest)) = (incoming rest, Ok keep_alive)"
    by (rule read_exact_incoming) (simp add: keep_alive_def)
  moreover have "be32_at 0 keep_alive = 0" by code_simp
  ultimately show ?thesis by (simp add: read_message_def)
qed

text \<open>
  A read that runs into its time limit loses what it had read: here the first three bytes of a length prefix are gone
  and the next read starts in the middle of a message.
\<close>

lemma read_timeout_desynchronises:
  assumes "length part < 4"
  shows "fst (read_message f (incoming part)) = incoming []"
  using assms by (simp add: read_message_def tcp_read_exact_def incoming_def)

end
