(* ===== verification/Pool.thy ===== *)
theory Pool
  imports Congestion "HOL-Library.AList" "HOL-Library.Multiset"
begin

text \<open>
  The pool of peer connections (\<open>qvs-transport/src/pool.rs\<close> and \<open>PoolStats\<close> of
  \<open>stats.rs\<close>). The two hash maps are association lists, whose order is the order of iteration; the clock is an
  argument, in nanoseconds.
\<close>

record peer_connection =
  pc_peer_id :: bytes
  pc_addr :: socket_addr
  pc_am_choking :: bool
  pc_am_interested :: bool
  pc_peer_choking :: bool
  pc_peer_interested :: bool
  pc_bitfield :: bytes
  pc_speed_down :: f64
  pc_speed_up :: f64
  pc_rtt :: nat
  pc_connected_at :: nat
  pc_last_active :: nat
  pc_bytes_downloaded :: u64
  pc_bytes_uploaded :: u64

definition pc_new :: "nat \<Rightarrow> bytes \<Rightarrow> socket_addr \<Rightarrow> peer_connection" where
  "pc_new now peer_id addr =
     \<lparr>pc_peer_id = peer_id, pc_addr = addr, pc_am_choking = True, pc_am_interested = False, pc_peer_choking = True,
      pc_peer_interested = False, pc_bitfield = [], pc_speed_down = 0, pc_speed_up = 0, pc_rtt = millis 100,
      pc_connected_at = now, pc_last_active = now, pc_bytes_downloaded = 0, pc_bytes_uploaded = 0\<rparr>"

definition update_activity :: "nat \<Rightarrow> peer_connection \<Rightarrow> peer_connection" where
  "update_activity now c = c\<lparr>pc_last_active := now\<rparr>"

definition IDLE_TIME :: nat where "IDLE_TIME = millis 300000"

definition is_idle :: "nat \<Rightarrow> peer_connection \<Rightarrow> bool" where
  "is_idle now c \<longleftrightarrow> IDLE_TIME < now - pc_last_active c"

definition is_interesting :: "peer_connection \<Rightarrow> bool" where
  "is_interesting c \<longleftrightarrow> \<not> pc_peer_choking c"

record connection_pool =
  pl_max_connections :: u32
  pl_connections :: "(bytes \<times> peer_connection) list"
  pl_congestion :: "(bytes \<times> congestion) list"

definition pool_new :: "u32 \<Rightarrow> connection_pool" where
  "pool_new n = \<lparr>pl_max_connections = min n MAX_PEER_CONNECTIONS, pl_connections = [], pl_congestion = []\<rparr>"

definition add_peer :: "nat \<Rightarrow> peer_info \<Rightarrow> connection_pool \<Rightarrow> connection_pool \<times> (unit, qvod_error) result" where
  "add_peer now peer p =
     (if unat (pl_max_connections p) \<le> length (pl_connections p) then (p, Err ConnectionLimitReached)
      else let i = pi_peer_id peer
           in if map_of (pl_connections p) i \<noteq> None then (p, Ok ())
              else (p\<lparr>pl_connections := AList.update i (pc_new now i (pi_addr peer)) (pl_connections p),
                      pl_congestion := AList.update i cg_new (pl_congestion p)\<rparr>, Ok ()))"

definition remove_peer :: "bytes \<Rightarrow> connection_pool \<Rightarrow> connection_pool" where
  "remove_peer i p = p\<lparr>pl_connections := AList.delete i (pl_connections p), pl_congestion := AList.delete i (pl_congestion p)\<rparr>"

definition get_peer :: "connection_pool \<Rightarrow> bytes \<Rightarrow> peer_connection option" where
  "get_peer p i = map_of (pl_connections p) i"

text \<open>A change through \<open>get_peer_mut\<close> and \<open>get_congestion_mut\<close>.\<close>

definition update_peer :: "bytes \<Rightarrow> (peer_connection \<Rightarrow> peer_connection) \<Rightarrow> connection_pool \<Rightarrow> connection_pool" where
  "update_peer i f p = p\<lparr>pl_connections := AList.map_entry i f (pl_connections p)\<rparr>"

definition get_congestion :: "connection_pool \<Rightarrow> bytes \<Rightarrow> congestion option" where
  "get_congestion p i = map_of (pl_congestion p) i"

definition update_congestion :: "bytes \<Rightarrow> (congestion \<Rightarrow> congestion) \<Rightarrow> connection_pool \<Rightarrow> connection_pool" where
  "update_congestion i f p = p\<lparr>pl_congestion := AList.map_entry i f (pl_congestion p)\<rparr>"

definition select_upload_peers :: "nat \<Rightarrow> connection_pool \<Rightarrow> peer_connection list" where
  "select_upload_peers n p = take n (filter (\<lambda>c. pc_peer_interested c \<and> \<not> pc_am_choking c) (map snd (pl_connections p)))"

text \<open>The sort is stable and in descending order of speed.\<close>

definition select_download_peers :: "nat \<Rightarrow> connection_pool \<Rightarrow> peer_connection list" where
  "select_download_peers n p =
     take n (sort_key (\<lambda>c. - pc_speed_down c) (filter (\<lambda>c. \<not> pc_peer_choking c) (map snd (pl_connections p))))"

definition cleanup_idle :: "nat \<Rightarrow> connection_pool \<Rightarrow> connection_pool" where
  "cleanup_idle now p =
     foldl (\<lambda>p i. remove_peer i p) p (map fst (filter (\<lambda>(i, c). IDLE_TIME < now - pc_last_active c) (pl_connections p)))"

definition maintain_connections :: "nat \<Rightarrow> connection_pool \<Rightarrow> connection_pool" where
  "maintain_connections now p = p\<lparr>pl_connections := map (\<lambda>(i, c). (i, update_activity now c)) (pl_connections p)\<rparr>"

record pool_stats =
  ps_total_peers :: nat
  ps_connected_peers :: nat
  ps_upload_peers :: nat
  ps_download_peers :: nat
  ps_idle_peers :: nat

definition pool_stats_of :: "nat \<Rightarrow> connection_pool \<Rightarrow> pool_stats" where
  "pool_stats_of now p =
     (let cs = map snd (pl_connections p); count = (\<lambda>f. length (filter f cs))
      in \<lparr>ps_total_peers = length (pl_connections p), ps_connected_peers = count (\<lambda>c. \<not> is_idle now c),
          ps_upload_peers = count (\<lambda>c. \<not> pc_am_choking c), ps_download_peers = count (\<lambda>c. \<not> pc_peer_choking c),
          ps_idle_peers = count (\<lambda>c. is_idle now c)\<rparr>)"

section \<open>The invariant\<close>

datatype pool_op =
    PAdd nat peer_info | PRemove bytes | PCleanup nat | PMaintain nat
  | PUpdate bytes "peer_connection \<Rightarrow> peer_connection" | PCongestion bytes "congestion \<Rightarrow> congestion"

fun pool_apply :: "pool_op \<Rightarrow> connection_pool \<Rightarrow> connection_pool" where
  "pool_apply (PAdd now peer) p = fst (add_peer now peer p)"
| "pool_apply (PRemove i) p = remove_peer i p"
| "pool_apply (PCleanup now) p = cleanup_idle now p"
| "pool_apply (PMaintain now) p = maintain_connections now p"
| "pool_apply (PUpdate i f) p = update_peer i f p"
| "pool_apply (PCongestion i f) p = update_congestion i f p"

definition pool_run :: "pool_op list \<Rightarrow> connection_pool \<Rightarrow> connection_pool" where
  "pool_run ops p = foldl (\<lambda>p op. pool_apply op p) p ops"

definition keys_ok :: "nat \<Rightarrow> 'k list \<Rightarrow> bool" where
  "keys_ok n ks \<longleftrightarrow> distinct ks \<and> length ks \<le> n"

definition pool_inv :: "connection_pool \<Rightarrow> bool" where
  "pool_inv p \<longleftrightarrow> keys_ok (unat (pl_max_connections p)) (map fst (pl_connections p)) \<and>
     map fst (pl_congestion p) = map fst (pl_connections p)"

lemma keys_ok_filter: "keys_ok n ks \<Longrightarrow> keys_ok n (filter f ks)"
  by (auto simp: keys_ok_def intro: le_trans [OF length_filter_le])

lemma keys_ok_snoc: "keys_ok n ks \<Longrightarrow> k \<notin> set ks \<Longrightarrow> length ks < n \<Longrightarrow> keys_ok n (ks @ [k])"
  by (simp add: keys_ok_def)

lemma keys_delete: "map fst (AList.delete k xs) = filter (\<lambda>j. j \<noteq> k) (map fst xs)"
  by (induction xs) (auto simp: AList.delete_eq)

lemma keys_map_entry [simp]: "map fst (AList.map_entry k f xs) = map fst xs"
  by (induction xs) auto

lemma keys_update_new: "k \<notin> set (map fst xs) \<Longrightarrow> map fst (AList.update k v xs) = map fst xs @ [k]"
  by (induction xs) auto

lemma keys_snd_map [simp]: "map fst (map (\<lambda>(i, c). (i, f c)) xs) = map fst xs"
  by (induction xs) auto

lemma remove_peer_inv: "pool_inv p \<Longrightarrow> pool_inv (remove_peer i p)"
  by (simp add: pool_inv_def remove_peer_def keys_delete keys_ok_filter)

lemma add_peer_inv: "pool_inv p \<Longrightarrow> pool_inv (fst (add_peer now peer p))"
proof (cases "unat (pl_max_connections p) \<le> length (pl_connections p) \<or> map_of (pl_connections p) (pi_peer_id peer) \<noteq> None")
  case False
  assume i: "pool_inv p"
  from False have k: "pi_peer_id peer \<notin> set (map fst (pl_connections p))" by (simp add: map_of_eq_None_iff)
  have k': "pi_peer_id peer \<notin> set (map fst (pl_congestion p))" using k i by (simp only: pool_inv_def not_False_eq_True)
  from i k False have "keys_ok (unat (pl_max_connections p)) (map fst (pl_connections p) @ [pi_peer_id peer])"
    by (intro keys_ok_snoc) (simp_all add: pool_inv_def)
  with i False show ?thesis
    by (simp add: pool_inv_def add_peer_def Let_def keys_update_new [OF k] keys_update_new [OF k'])
qed (auto simp: add_peer_def Let_def)

lemma pool_apply_inv: "pool_inv p \<Longrightarrow> pool_inv (pool_apply op p)"
proof (cases op)
  case (PCleanup now)
  have "pool_inv p \<Longrightarrow> pool_inv (foldl (\<lambda>p i. remove_peer i p) p is)" for p "is"
    by (induction "is" arbitrary: p) (auto intro: remove_peer_inv)
  then show "pool_inv p \<Longrightarrow> ?thesis" by (simp add: PCleanup cleanup_idle_def)
next
  case (PMaintain now)
  then show "pool_inv p \<Longrightarrow> ?thesis" by (simp add: pool_inv_def maintain_connections_def del: map_map)
next
  case (PUpdate i f)
  then show "pool_inv p \<Longrightarrow> ?thesis" by (simp add: pool_inv_def update_peer_def)
next
  case (PCongestion i f)
  then show "pool_inv p \<Longrightarrow> ?thesis" by (simp add: pool_inv_def update_congestion_def)
qed (simp_all add: add_peer_inv remove_peer_inv)

lemma pool_run_inv: "pool_inv (pool_run ops (pool_new n))"
proof (induction ops rule: rev_induct)
  case Nil
  show ?case by (simp add: pool_run_def pool_new_def pool_inv_def keys_ok_def)
next
  case (snoc op ops)
  then show ?case by (simp add: pool_run_def pool_apply_inv)
qed

lemma pool_run_max: "pl_max_connections (pool_run ops (pool_new n)) = min n MAX_PEER_CONNECTIONS"
proof (induction ops rule: rev_induct)
  case Nil
  show ?case by (simp add: pool_run_def pool_new_def)
next
  case (snoc op ops)
  have "pl_max_connections (foldl (\<lambda>p i. remove_peer i p) p is) = pl_max_connections p" for p "is"
    by (induction "is" arbitrary: p) (simp_all add: remove_peer_def)
  then have "pl_max_connections (pool_apply op p) = pl_max_connections p" for p
    by (cases op) (simp_all add: add_peer_def remove_peer_def cleanup_idle_def maintain_connections_def update_peer_def
        update_congestion_def Let_def)
  with snoc show ?case by (simp add: pool_run_def)
qed

text \<open>Cleaning up keeps exactly the connections that are not idle.\<close>

lemma remove_peers_eq:
  "pl_connections (foldl (\<lambda>p i. remove_peer i p) p is) = filter (\<lambda>(j, c). j \<notin> set is) (pl_connections p)"
proof (induction "is" arbitrary: p)
  case (Cons i "is")
  then show ?case by (auto simp: remove_peer_def AList.delete_eq intro!: filter_cong)
qed simp

lemma cleanup_idle_eq:
  assumes "distinct (map fst (pl_connections p))"
  shows "pl_connections (cleanup_idle now p) = filter (\<lambda>(i, c). \<not> is_idle now c) (pl_connections p)"
proof -
  have "i \<notin> set (map fst (filter (\<lambda>(i, c). IDLE_TIME < now - pc_last_active c) (pl_connections p))) \<longleftrightarrow> \<not> is_idle now c"
    if "(i, c) \<in> set (pl_connections p)" for i c
    using that assms by (auto simp: is_idle_def image_iff dest: eq_key_imp_eq_value)
  then show ?thesis
    unfolding cleanup_idle_def remove_peers_eq by (intro filter_cong refl) (simp only: split_beta' prod.collapse)
qed

text \<open>Maintaining the connections marks all of them as active: nothing is idle for five minutes afterwards.\<close>

lemma maintain_hides_idle:
  "later \<le> now + IDLE_TIME \<Longrightarrow> filter (\<lambda>(i, c). is_idle later c) (pl_connections (maintain_connections now p)) = []"
  by (auto simp: maintain_connections_def is_idle_def update_activity_def filter_empty_conv)

text \<open>
  C21: whatever sequence of operations a pool has seen, it holds at most the given number of peers and never
  more than 50, each once and each with its congestion state; a cleanup keeps exactly the connections active in the
  last five minutes; and the peers selected for download are unchoked, in descending order of speed, and no faster
  unchoked peer is left out.
\<close>

theorem pool_bounded:
  "let p = pool_run ops (pool_new n)
   in distinct (map fst (pl_connections p)) \<and> length (pl_connections p) \<le> min (unat n) 50 \<and>
     map fst (pl_congestion p) = map fst (pl_connections p) \<and>
     pl_connections (cleanup_idle now p) = filter (\<lambda>(i, c). \<not> is_idle now c) (pl_connections p) \<and>
     sorted_wrt (\<lambda>a b. pc_speed_down b \<le> pc_speed_down a) (select_download_peers k p) \<and>
     (\<exists>rest. mset (select_download_peers k p @ rest) = mset (filter is_interesting (map snd (pl_connections p))) \<and>
        length (select_download_peers k p) = min k (length (filter is_interesting (map snd (pl_connections p)))) \<and>
        list_all (\<lambda>c. list_all (\<lambda>d. pc_speed_down d \<le> pc_speed_down c) rest) (select_download_peers k p))"
proof -
  let ?p = "pool_run ops (pool_new n)"
  let ?xs = "sort_key (\<lambda>c. - pc_speed_down c) (filter is_interesting (map snd (pl_connections ?p)))"
  have i: "keys_ok (unat (min n MAX_PEER_CONNECTIONS)) (map fst (pl_connections ?p))"
    "map fst (pl_congestion ?p) = map fst (pl_connections ?p)"
    using pool_run_inv [of ops n] by (simp_all only: pool_inv_def pool_run_max)
  moreover have "unat (min n MAX_PEER_CONNECTIONS) = min (unat n) 50" by (simp add: unat_min MAX_PEER_CONNECTIONS_def)
  ultimately have a: "distinct (map fst (pl_connections ?p))" "length (pl_connections ?p) \<le> min (unat n) 50"
    by (simp_all only: keys_ok_def length_map)
  have s: "select_download_peers k ?p = take k ?xs"
    by (simp add: select_download_peers_def is_interesting_def [abs_def])
  have "sorted_wrt (\<lambda>a b. pc_speed_down b \<le> pc_speed_down a) ?xs"
    using sorted_sort_key [of "\<lambda>c. - pc_speed_down c"] by (simp add: sorted_map)
  then have w: "sorted_wrt (\<lambda>a b. pc_speed_down b \<le> pc_speed_down a) (take k ?xs @ drop k ?xs)" by simp
  then have "sorted_wrt (\<lambda>a b. pc_speed_down b \<le> pc_speed_down a) (take k ?xs)"
    "list_all (\<lambda>c. list_all (\<lambda>d. pc_speed_down d \<le> pc_speed_down c) (drop k ?xs)) (take k ?xs)"
    unfolding sorted_wrt_append list_all_iff by blast+
  moreover have "mset (take k ?xs @ drop k ?xs) = mset (filter is_interesting (map snd (pl_connections ?p)))"
    by (simp only: append_take_drop_id mset_sort)
  ultimately show ?thesis
    using a i(2) cleanup_idle_eq [OF a(1)] unfolding Let_def s
    by (intro conjI exI [of _ "drop k ?xs"]) simp_all
qed

end
