(* ===== verification/P2sp.thy ===== *)
theory P2sp
  imports Scheduler Congestion "HOL-Library.AList"
begin

text \<open>
  The downloader that combines peers and HTTP sources (\<open>qvs-transport/src/p2sp.rs\<close>). An HTTP server is a
  function from the address and the requested range to the body of its answer, whatever its status, or a network
  error.
\<close>

section \<open>State\<close>

datatype source = Parallel | P2PWithHttpFallback | P2POnly | P2PIdle

record download_config =
  dc_max_p2p_connections :: u32
  dc_http_fallback_enabled :: bool
  dc_http_fallback_timeout_ms :: u64
  dc_critical_parallel :: bool

definition download_config_default :: download_config where
  "download_config_default = \<lparr>dc_max_p2p_connections = 50, dc_http_fallback_enabled = True,
     dc_http_fallback_timeout_ms = 3000, dc_critical_parallel = True\<rparr>"

record download_request =
  rq_piece_index :: u32
  rq_source :: source
  rq_started_at :: nat
  rq_block :: block_request

record download_stats =
  ds_total_downloaded :: u64
  ds_total_pieces :: u64
  ds_http_bytes :: u64
  ds_p2p_bytes :: u64
  ds_active_requests :: u64

definition download_stats_default :: download_stats where
  "download_stats_default = \<lparr>ds_total_downloaded = 0, ds_total_pieces = 0, ds_http_bytes = 0, ds_p2p_bytes = 0, ds_active_requests = 0\<rparr>"

text \<open>\<open>p2_engine\<close> tells whether there is a connection, \<open>p2_client\<close> whether an HTTP client was built.\<close>

record p2sp =
  p2_engine :: bool
  p2_client :: bool
  p2_urls :: "string list"
  p2_scheduler :: "scheduler option"
  p2_config :: download_config
  p2_active :: "(u32 \<times> download_request) list"
  p2_stats :: download_stats

definition p2sp_new :: "bool \<Rightarrow> bool \<Rightarrow> string list \<Rightarrow> scheduler option \<Rightarrow> download_config \<Rightarrow> p2sp" where
  "p2sp_new engine build_ok urls scheduler config =
     \<lparr>p2_engine = engine, p2_client = (dc_http_fallback_enabled config \<and> urls \<noteq> [] \<and> build_ok), p2_urls = urls,
      p2_scheduler = scheduler, p2_config = config, p2_active = [], p2_stats = download_stats_default\<rparr>"

fun select_source :: "p2sp \<Rightarrow> piece_priority \<Rightarrow> source" where
  "select_source d Critical =
     (if dc_http_fallback_enabled (p2_config d) \<and> dc_critical_parallel (p2_config d) \<and> p2_urls d \<noteq> [] then Parallel else P2POnly)"
| "select_source d High =
     (if dc_http_fallback_enabled (p2_config d) \<and> p2_urls d \<noteq> [] then P2PWithHttpFallback else P2POnly)"
| "select_source d Normal = P2POnly"
| "select_source d Low = P2PIdle"

section \<open>Downloading a piece\<close>

type_synonym http_server = "string \<Rightarrow> u64 \<times> u64 \<Rightarrow> (bytes, string) result"

definition download_p2p :: "p2sp \<Rightarrow> u32 \<Rightarrow> (bytes, qvod_error) result" where
  "download_p2p d piece_index = (if \<not> p2_engine d then Err (Protocol ''P2P engine not connected'') else Err NoPeers)"

definition download_http :: "http_server \<Rightarrow> p2sp \<Rightarrow> u32 \<Rightarrow> (bytes, qvod_error) result" where
  "download_http server d piece_index =
     and_then (ok_or (if p2_client d then Some () else None) (Protocol ''HTTP client not configured'')) (\<lambda>_.
     and_then (ok_or (case p2_urls d of [] \<Rightarrow> None | u # _ \<Rightarrow> Some u) NoPeers) (\<lambda>url.
     let offset = ucast piece_index * BLOCK_LENGTH
     in map_err Network (server url (offset, offset + BLOCK_LENGTH - 1))))"

text \<open>What every download does before and after.\<close>

definition begin_request :: "nat \<Rightarrow> source \<Rightarrow> u32 \<Rightarrow> p2sp \<Rightarrow> p2sp" where
  "begin_request now s piece_index d =
     d\<lparr>p2_stats := (p2_stats d)\<lparr>ds_active_requests := ds_active_requests (p2_stats d) + 1\<rparr>,
       p2_active := AList.update piece_index
         \<lparr>rq_piece_index = piece_index, rq_source = s, rq_started_at = now,
          rq_block = \<lparr>br_piece_index = piece_index, br_begin = 0, br_length = ucast BLOCK_LENGTH\<rparr>\<rparr> (p2_active d)\<rparr>"

definition end_request :: "u32 \<Rightarrow> (bytes, qvod_error) result \<Rightarrow> p2sp \<Rightarrow> p2sp \<times> (bytes, qvod_error) result" where
  "end_request piece_index r d =
     (let d1 = d\<lparr>p2_active := AList.delete piece_index (p2_active d)\<rparr>;
          st = (p2_stats d1)\<lparr>ds_active_requests := ds_active_requests (p2_stats d1) - 1\<rparr>;
          st = (if is_ok r then st\<lparr>ds_total_pieces := ds_total_pieces st + 1\<rparr> else st)
      in (d1\<lparr>p2_stats := st\<rparr>, r))"

definition download_critical :: "http_server \<Rightarrow> nat \<Rightarrow> u32 \<Rightarrow> p2sp \<Rightarrow> p2sp \<times> (bytes, qvod_error) result" where
  "download_critical server now p d0 =
     (let d = begin_request now Parallel p d0
      in end_request p (case download_p2p d p of Ok bs \<Rightarrow> Ok bs | _ \<Rightarrow> download_http server d p) d)"

text \<open>\<open>timed_out\<close>: the limit of \<open>http_fallback_timeout_ms\<close> passes before the peers have answered.\<close>

definition download_high :: "http_server \<Rightarrow> bool \<Rightarrow> nat \<Rightarrow> u32 \<Rightarrow> p2sp \<Rightarrow> p2sp \<times> (bytes, qvod_error) result" where
  "download_high server timed_out now p d0 =
     (let d = begin_request now P2PWithHttpFallback p d0
      in end_request p
        (case (if timed_out then None else Some (download_p2p d p)) of
           Some (Ok bs) \<Rightarrow> Ok bs
         | _ \<Rightarrow> download_http server d p) d)"

definition download_normal :: "nat \<Rightarrow> u32 \<Rightarrow> p2sp \<Rightarrow> p2sp \<times> (bytes, qvod_error) result" where
  "download_normal now p d0 = (let d = begin_request now P2POnly p d0 in end_request p (download_p2p d p) d)"

definition download_idle :: "nat \<Rightarrow> u32 \<Rightarrow> p2sp \<Rightarrow> p2sp \<times> (bytes, qvod_error) result" where
  "download_idle now p d0 = (let d = begin_request now P2PIdle p d0 in end_request p (download_p2p d p) d)"

section \<open>Settings\<close>

definition download_critical_timeout :: nat where "download_critical_timeout = millis 1000"
definition download_high_timeout :: nat where "download_high_timeout = millis 3000"

definition is_http_enabled :: "p2sp \<Rightarrow> bool" where
  "is_http_enabled d = dc_http_fallback_enabled (p2_config d)"

definition add_http_source :: "string \<Rightarrow> p2sp \<Rightarrow> p2sp" where
  "add_http_source url d = (if url \<in> set (p2_urls d) then d else d\<lparr>p2_urls := p2_urls d @ [url]\<rparr>)"

definition remove_http_source :: "string \<Rightarrow> p2sp \<Rightarrow> p2sp" where
  "remove_http_source url d = d\<lparr>p2_urls := filter (\<lambda>s. s \<noteq> url) (p2_urls d)\<rparr>"

section \<open>What a download leads to\<close>

lemma download_p2p_fails: "download_p2p d p \<noteq> Ok bs" "download_p2p d p \<noteq> Panic"
  by (simp_all add: download_p2p_def)

lemma begin_end:
  assumes "map_of (p2_active d) p = None"
  shows "end_request p r (begin_request now s p d) =
    (d\<lparr>p2_stats := (p2_stats d)\<lparr>ds_total_pieces := ds_total_pieces (p2_stats d) + (if is_ok r then 1 else 0)\<rparr>\<rparr>, r)"
proof -
  have "AList.delete p (AList.update p v xs) = xs" if "map_of xs p = None" for v and xs :: "(u32 \<times> download_request) list"
    using that by (induction xs) (auto split: if_splits)
  with assms show ?thesis by (simp add: end_request_def begin_request_def Let_def)
qed

lemma download_http_stats: "download_http server (begin_request now s p d) p = download_http server d p"
  by (simp add: download_http_def begin_request_def)

text \<open>An HTTP source that has the file and answers a range with the bytes the file has there.\<close>

definition honest_server :: "bytes \<Rightarrow> http_server \<Rightarrow> bool" where
  "honest_server src server \<longleftrightarrow> (\<forall>url a b. a \<le> b \<longrightarrow> server url (a, b) = Ok (take (unat b + 1 - unat a) (drop (unat a) src)))"

text \<open>A piece of the file.\<close>

definition piece_of :: "bytes \<Rightarrow> u32 \<Rightarrow> bytes" where
  "piece_of src p = take (unat PIECE_LENGTH) (drop (unat p * unat PIECE_LENGTH) src)"

lemma block_range:
  fixes p :: u32
  defines "offset \<equiv> ucast p * BLOCK_LENGTH"
  shows "unat offset = unat p * 16384 \<and> unat (offset + BLOCK_LENGTH - 1) = unat p * 16384 + 16383"
proof -
  have p: "unat p < 2 ^ 32" using unsigned_less [of p] by simp
  then have u: "unat (ucast p :: u64) = unat p" by (simp add: unsigned_ucast_eq take_bit_nat_eq_self)
  have o1: "unat offset = unat p * 16384"
    using p by (simp add: offset_def BLOCK_LENGTH_def unat_word_ariths u)
  have "offset + BLOCK_LENGTH - 1 = offset + of_nat 16383" by (simp add: BLOCK_LENGTH_def)
  moreover have "unat (offset + of_nat 16383) = unat offset + 16383" using p o1 by (intro unat_add_of_nat) simp
  ultimately have "unat (offset + BLOCK_LENGTH - 1) = unat offset + 16383" by (simp only:)
  with o1 show ?thesis by (simp only:)
qed

lemma download_http_honest:
  assumes "honest_server src server" and "p2_client d" and "p2_urls d \<noteq> []"
  shows "download_http server d p = Ok (take 16384 (drop (unat p * 16384) src))"
proof -
  obtain u us where u: "p2_urls d = u # us" using assms(3) by (cases "p2_urls d") auto
  let ?o = "ucast p * BLOCK_LENGTH"
  have r: "unat ?o = unat p * 16384" "unat (?o + BLOCK_LENGTH - 1) = unat p * 16384 + 16383"
    using block_range [of p] by auto
  then have "?o \<le> ?o + BLOCK_LENGTH - 1" by (simp add: word_le_nat_alt)
  with assms(1) have "server u (?o, ?o + BLOCK_LENGTH - 1) = Ok (take (unat (?o + BLOCK_LENGTH - 1) + 1 - unat ?o) (drop (unat ?o) src))"
    unfolding honest_server_def by blast
  then have "server u (?o, ?o + BLOCK_LENGTH - 1) = Ok (take 16384 (drop (unat p * 16384) src))" by (simp only: r) simp
  then show ?thesis by (simp add: download_http_def assms(2) u Let_def)
qed

text \<open>
  The peers never supply a piece: normal and idle downloads always fail, and critical and high ones have the
  outcome of the HTTP source, whether or not the peers' time limit passed. What an honest source then delivers for
  piece \<open>p\<close> are the 16 KiB at \<open>p\<close> times the length of a block, so never a piece that is longer than a block.
  A download leaves the open requests as they were and counts the piece exactly when it succeeded.
\<close>

theorem p2sp_download_outcomes:
  assumes "map_of (p2_active d) p = None" and "honest_server src server" and "p2_client d" and "p2_urls d \<noteq> []"
  shows "is_err (snd (download_normal now p d)) \<and> is_err (snd (download_idle now p d)) \<and>
    fst (download_normal now p d) = d \<and> fst (download_idle now p d) = d \<and>
    (let block = take 16384 (drop (unat p * 16384) src);
         done = d\<lparr>p2_stats := (p2_stats d)\<lparr>ds_total_pieces := ds_total_pieces (p2_stats d) + 1\<rparr>\<rparr>
     in download_critical server now p d = (done, Ok block) \<and> download_high server timed_out now p d = (done, Ok block) \<and>
       (16384 < length (piece_of src p) \<longrightarrow> block \<noteq> piece_of src p))"
proof -
  have c: "p2_client (begin_request now s p d)" "p2_urls (begin_request now s p d) \<noteq> []" for s
    using assms(3,4) by (simp_all add: begin_request_def)
  have h: "download_http server (begin_request now s p d) p = Ok (take 16384 (drop (unat p * 16384) src))" for s
    by (rule download_http_honest [OF assms(2) c])
  have e: "is_err (download_p2p d' p) \<and> \<not> is_ok (download_p2p d' p)" for d' by (simp add: download_p2p_def)
  have n: "(case download_p2p d' p of Ok bs \<Rightarrow> Ok bs | _ \<Rightarrow> r) = r" for d' r by (simp add: download_p2p_def)
  have t: "(case if timed_out then None else Some (download_p2p d' p) of Some (Ok bs) \<Rightarrow> Ok bs | _ \<Rightarrow> r) = r" for d' r
    by (simp add: download_p2p_def)
  have l: "16384 < length (piece_of src p) \<longrightarrow> take 16384 (drop (unat p * 16384) src) \<noteq> piece_of src p"
    by (metis length_take min.cobounded2 not_less)
  show ?thesis
    using e by (simp add: download_normal_def download_idle_def download_critical_def download_high_def begin_end [OF assms(1)]
        h n t l Let_def)
qed

theorem p2sp_download_outcomes_witness:
  "let src = replicate 40000 7; server = (\<lambda>url (a, b). Ok (take (unat b + 1 - unat a) (drop (unat a) src)));
      d = p2sp_new False True [''http://a''] None download_config_default
    in snd (download_high server False 0 1 d) = Ok (take 16384 (drop (unat (1 :: u32) * 16384) src))"
  using p2sp_download_outcomes [of "p2sp_new False True [''http://a''] None download_config_default" 1 "replicate 40000 7"
      "\<lambda>url (a, b). Ok (take (unat b + 1 - unat a) (drop (unat a) (replicate 40000 7)))" 0 False]
  by (simp add: p2sp_new_def download_config_default_def honest_server_def Let_def)

text \<open>
  The body is taken whatever the status of the answer, so a page that says the file does not exist becomes the data
  of the piece; and a source added later is never asked when there was none at the start, because the client is
  built only once.
\<close>

lemma download_http_any_status:
  "p2_client d \<Longrightarrow> p2_urls d = u # us \<Longrightarrow> (\<And>r. server u r = Ok page) \<Longrightarrow> download_http server d p = Ok page"
  by (simp add: download_http_def Let_def)

lemma late_source_unused:
  "download_http server (add_http_source url (p2sp_new engine ok [] sc config)) p = Err (Protocol ''HTTP client not configured'')"
  by (simp add: download_http_def add_http_source_def p2sp_new_def)

end
