(* ===== verification/Http_Server.thy ===== *)
theory Http_Server
  imports Core_Types Congestion
begin

text \<open>
  The parts of the local HTTP server below its handlers: range headers (\<open>qvs-local-server/src/range.rs\<close>), the
  choice of a port (\<open>config.rs\<close>) and the rate limiter (\<open>middleware.rs\<close>). Whether a port can be
  bound is an argument, as is the clock, in nanoseconds.
\<close>

section \<open>Range headers\<close>

record range_result =
  rr_start :: u64
  rr_end :: u64
  rr_total_length :: u64

type_synonym range_header = "range_result list"

definition split_once :: "'a \<Rightarrow> 'a list \<Rightarrow> ('a list \<times> 'a list) option" where
  "split_once c s = map_option (\<lambda>i. (take i s, drop (i + 1) s)) (position (\<lambda>x. x = c) s)"

definition parse_range :: "string \<Rightarrow> u64 \<Rightarrow> range_result option" where
  "parse_range spec total_length =
     (if total_length = 0 then None
      else case split_once CHR ''-'' spec of
        None \<Rightarrow> None
      | Some (start_str, end_str) \<Rightarrow>
          if start_str = [] then
            Option.bind (res_ok (parse_u64 end_str)) (\<lambda>suffix.
            if suffix = 0 then None
            else let start = (if total_length \<le> suffix then 0 else total_length - suffix)
                 in Some \<lparr>rr_start = start, rr_end = total_length - 1, rr_total_length = total_length\<rparr>)
          else
            Option.bind (res_ok (parse_u64 start_str)) (\<lambda>start.
            if end_str = [] then Some \<lparr>rr_start = start, rr_end = total_length - 1, rr_total_length = total_length\<rparr>
            else Option.bind (res_ok (parse_u64 end_str)) (\<lambda>e.
              Some \<lparr>rr_start = start, rr_end = min e (total_length - 1), rr_total_length = total_length\<rparr>)))"

definition range_header_parse :: "string \<Rightarrow> u64 \<Rightarrow> range_header option" where
  "range_header_parse header total_length =
     Option.bind (strip_prefix ''bytes='' header) (\<lambda>h.
     let ranges = List.map_filter (\<lambda>part. parse_range (trim part) total_length) (split_on CHR '','' h)
     in if ranges = [] then None else Some ranges)"

definition content_range :: "range_header \<Rightarrow> string" where
  "content_range ranges =
     (case ranges of
        r # _ \<Rightarrow> ''bytes '' @ show_u64 (rr_start r) @ ''-'' @ show_u64 (rr_end r) @ ''/'' @ show_u64 (rr_total_length r)
      | [] \<Rightarrow> [])"

text \<open>Every range ends inside the file, but nothing keeps its start below its end.\<close>

lemma parse_range_bounds:
  "parse_range spec n = Some r \<Longrightarrow> 0 < n \<and> rr_total_length r = n \<and> rr_end r \<le> n - 1"
  by (auto simp: parse_range_def Let_def word_neq_0_conv split: option.splits prod.splits if_splits bind_splits)

section \<open>Ports\<close>

record local_server_config =
  lc_preferred_port :: u16
  lc_max_retry :: u8
  lc_bind_address :: ip_addr

definition local_server_config_new :: "u16 \<Rightarrow> local_server_config" where
  "local_server_config_new port = \<lparr>lc_preferred_port = port, lc_max_retry = 10, lc_bind_address = V4 [127, 0, 0, 1]\<rparr>"

definition local_server_config_default :: local_server_config where
  "local_server_config_default = \<lparr>lc_preferred_port = 8621, lc_max_retry = 10, lc_bind_address = V4 [127, 0, 0, 1]\<rparr>"

definition with_bind_address :: "ip_addr \<Rightarrow> local_server_config \<Rightarrow> local_server_config" where
  "with_bind_address a c = c\<lparr>lc_bind_address := a\<rparr>"

text \<open>The first free port among the preferred one and its successors; the sum wraps around.\<close>

fun first_port :: "(u16 \<Rightarrow> bool) \<Rightarrow> u16 \<Rightarrow> nat list \<Rightarrow> u16 option" where
  "first_port free p [] = None"
| "first_port free p (k # ks) = (let port = p + of_nat k in if free port then Some port else first_port free p ks)"

text \<open>\<open>free a p\<close>: the port \<open>p\<close> of the address \<open>a\<close> can be bound.\<close>

definition find_available_port :: "(ip_addr \<Rightarrow> u16 \<Rightarrow> bool) \<Rightarrow> local_server_config \<Rightarrow> u16" where
  "find_available_port free c =
     (let local = V4 [127, 0, 0, 1]; p = lc_preferred_port c
      in if free local p then p
         else case first_port (free local) p [1..<unat (lc_max_retry c) + 1] of Some port \<Rightarrow> port | None \<Rightarrow> 0)"

definition find_available_port_async :: "(ip_addr \<Rightarrow> u16 \<Rightarrow> bool) \<Rightarrow> local_server_config \<Rightarrow> u16 option" where
  "find_available_port_async free c =
     first_port (free (lc_bind_address c)) (lc_preferred_port c) [0..<unat (lc_max_retry c) + 1]"

lemma first_port_Some: "first_port free p ks = Some port \<Longrightarrow> free port \<and> (\<exists>k \<in> set ks. port = p + of_nat k)"
  by (induction ks) (auto simp: Let_def split: if_splits)

lemma first_port_None: "first_port free p ks = None \<longleftrightarrow> (\<forall>k \<in> set ks. \<not> free (p + of_nat k))"
  by (induction ks) (auto simp: Let_def)

text \<open>Near the top of the range the sum wraps around (in a debug build it panics): 65535 is followed by port 0.\<close>

lemma find_port_wraps:
  "find_available_port_async (\<lambda>_ p. p = 0) (local_server_config_new 65535) = Some 0"
  by code_simp

section \<open>The rate limiter\<close>

record rate_limiter =
  rl_requests :: "ip_addr \<Rightarrow> nat list option"
  rl_max_requests :: nat
  rl_window :: nat

definition rl_new :: "nat \<Rightarrow> nat \<Rightarrow> rate_limiter" where
  "rl_new max_requests window_secs = \<lparr>rl_requests = Map.empty, rl_max_requests = max_requests, rl_window = window_secs * 10 ^ 9\<rparr>"

definition rl_check :: "nat \<Rightarrow> ip_addr \<Rightarrow> rate_limiter \<Rightarrow> rate_limiter \<times> bool" where
  "rl_check now ip l =
     (let ts = (case rl_requests l ip of Some ts \<Rightarrow> ts | None \<Rightarrow> []);
          ts = filter (\<lambda>t. now - t < rl_window l) ts
      in if rl_max_requests l \<le> length ts then (l\<lparr>rl_requests := (rl_requests l)(ip \<mapsto> ts)\<rparr>, False)
         else (l\<lparr>rl_requests := (rl_requests l)(ip \<mapsto> ts @ [now])\<rparr>, True))"

text \<open>
  \<open>rate_limit_middleware\<close>: the client is who the first entry of the \<open>X-Forwarded-For\<close> header says;
  \<open>parse_ip\<close> is the parser of addresses of the standard library.
\<close>

definition client_ip :: "(string \<Rightarrow> ip_addr option) \<Rightarrow> string option \<Rightarrow> ip_addr" where
  "client_ip parse_ip forwarded_for =
     (case Option.bind (map_option (\<lambda>v. hd (split_on CHR '','' v)) forwarded_for) parse_ip of
        Some ip \<Rightarrow> ip | None \<Rightarrow> V4 [127, 0, 0, 1])"

definition rate_limit_middleware :: "(string \<Rightarrow> ip_addr option) \<Rightarrow> nat \<Rightarrow> string option \<Rightarrow> rate_limiter \<Rightarrow> rate_limiter \<times> bool" where
  "rate_limit_middleware parse_ip now forwarded_for l = rl_check now (client_ip parse_ip forwarded_for) l"

definition stored :: "rate_limiter \<Rightarrow> ip_addr \<Rightarrow> nat list" where
  "stored l ip = (case rl_requests l ip of Some ts \<Rightarrow> ts | None \<Rightarrow> [])"

text \<open>A run of the limiter over requests in the order of time, and the requests it has let through.\<close>

definition rl_step :: "rate_limiter \<times> (nat \<times> ip_addr) list \<Rightarrow> nat \<times> ip_addr \<Rightarrow> rate_limiter \<times> (nat \<times> ip_addr) list" where
  "rl_step st r = (let (l', ok) = rl_check (fst r) (snd r) (fst st) in (l', if ok then snd st @ [r] else snd st))"

definition rl_run :: "(nat \<times> ip_addr) list \<Rightarrow> rate_limiter \<Rightarrow> rate_limiter \<times> (nat \<times> ip_addr) list" where
  "rl_run rs l = foldl rl_step (l, []) rs"

definition times_of :: "ip_addr \<Rightarrow> (nat \<times> ip_addr) list \<Rightarrow> nat list" where
  "times_of ip acc = map fst (filter (\<lambda>r. snd r = ip) acc)"

text \<open>How many requests of the client were let through in the window that ends at \<open>t\<close>.\<close>

definition recent :: "nat \<Rightarrow> nat \<Rightarrow> nat list \<Rightarrow> nat" where
  "recent w t ts = length (filter (\<lambda>s. s \<le> t \<and> t < s + w) ts)"

definition rl_inv :: "nat \<Rightarrow> nat \<Rightarrow> nat \<Rightarrow> rate_limiter \<times> (nat \<times> ip_addr) list \<Rightarrow> bool" where
  "rl_inv n w now st \<longleftrightarrow> rl_max_requests (fst st) = n \<and> rl_window (fst st) = w \<and>
     (\<forall>ip. (\<forall>t \<in> set (times_of ip (snd st)). t \<le> now) \<and> (\<forall>t \<in> set (stored (fst st) ip). t \<le> now) \<and>
       (\<forall>t \<ge> now. filter (\<lambda>s. t < s + w) (times_of ip (snd st)) = filter (\<lambda>s. t < s + w) (stored (fst st) ip)) \<and>
       (\<forall>t. recent w t (times_of ip (snd st)) \<le> n))"

lemma rl_inv_le:
  assumes "rl_inv n w now0 (l, acc)" and "now0 \<le> now"
  shows "\<forall>t \<in> set (times_of ip acc). t \<le> now" and "\<forall>t \<in> set (stored l ip). t \<le> now"
  using assms unfolding rl_inv_def fst_conv snd_conv by (meson le_trans)+

lemma rl_check_recent:
  assumes "rl_inv n w now0 (l, acc)" and "now0 \<le> now"
  shows "filter (\<lambda>t. now - t < w) (stored l ip) = filter (\<lambda>s. now < s + w) (times_of ip acc)"
    and "snd (rl_check now ip l) \<longleftrightarrow> recent w now (times_of ip acc) < n"
proof -
  note le = rl_inv_le(2) [OF assms, of ip] rl_inv_le(1) [OF assms, of ip]
  have "filter (\<lambda>t. now - t < w) (stored l ip) = filter (\<lambda>s. now < s + w) (stored l ip)"
    using le(1) by (intro filter_cong refl) auto
  also have "\<dots> = filter (\<lambda>s. now < s + w) (times_of ip acc)" using assms by (simp add: rl_inv_def)
  finally show f: "filter (\<lambda>t. now - t < w) (stored l ip) = filter (\<lambda>s. now < s + w) (times_of ip acc)" .
  have "recent w now (times_of ip acc) = length (filter (\<lambda>t. now - t < w) (stored l ip))"
    unfolding f recent_def using le(2) by (intro arg_cong [where f = length] filter_cong refl) auto
  then show "snd (rl_check now ip l) \<longleftrightarrow> recent w now (times_of ip acc) < n"
    using assms(1) by (auto simp: rl_check_def rl_inv_def stored_def Let_def)
qed

lemma rl_step_inv:
  assumes i: "rl_inv n w now0 (l, acc)" and le: "now0 \<le> now"
  shows "rl_inv n w now (rl_step (l, acc) (now, ip))"
proof -
  let ?l = "fst (rl_check now ip l)" and ?ok = "snd (rl_check now ip l)"
  let ?acc = "if ?ok then acc @ [(now, ip)] else acc"
  have st: "rl_step (l, acc) (now, ip) = (?l, ?acc)" by (simp add: rl_step_def split_beta)
  have c: "rl_max_requests ?l = n" "rl_window ?l = w" using i by (auto simp: rl_check_def rl_inv_def Let_def)
  have sto: "stored ?l j = (if j = ip then filter (\<lambda>t. now - t < w) (stored l ip) @ (if ?ok then [now] else []) else stored l j)" for j
    using i by (auto simp: rl_check_def rl_inv_def stored_def Let_def)
  have tim: "times_of j ?acc = times_of j acc @ (if ?ok \<and> j = ip then [now] else [])" for j
    by (auto simp: times_of_def)
  note r = rl_check_recent [OF i le, of ip]
  show ?thesis
    unfolding st rl_inv_def fst_conv snd_conv
  proof (intro conjI c, rule allI, intro conjI)
    fix j
    show "\<forall>t \<in> set (times_of j ?acc). t \<le> now" "\<forall>t \<in> set (stored ?l j). t \<le> now"
      using rl_inv_le [OF i le, of j] unfolding tim sto by auto
    show "\<forall>t \<ge> now. filter (\<lambda>s. t < s + w) (times_of j ?acc) = filter (\<lambda>s. t < s + w) (stored ?l j)"
    proof (intro allI impI)
      fix t assume t: "now \<le> t"
      have "filter (\<lambda>s. t < s + w) (filter (\<lambda>s. now < s + w) (times_of ip acc)) = filter (\<lambda>s. t < s + w) (times_of ip acc)"
        using t by (auto intro: filter_cong)
      moreover have "filter (\<lambda>s. t < s + w) (times_of j acc) = filter (\<lambda>s. t < s + w) (stored l j)"
        using i le t by (simp add: rl_inv_def)
      ultimately show "filter (\<lambda>s. t < s + w) (times_of j ?acc) = filter (\<lambda>s. t < s + w) (stored ?l j)"
        unfolding tim sto r(1) by (auto simp del: filter_filter)
    qed
    show "\<forall>t. recent w t (times_of j ?acc) \<le> n"
    proof
      fix t
      have b: "recent w t (times_of j acc) \<le> n" using i by (simp add: rl_inv_def)
      show "recent w t (times_of j ?acc) \<le> n"
      proof (cases "?ok \<and> j = ip \<and> now \<le> t")
        case True
        have "recent w t (times_of ip acc) \<le> recent w now (times_of ip acc)"
        proof -
          note rl_inv_le(1) [OF i le, of ip]
          then have "filter (\<lambda>s. s \<le> t \<and> t < s + w) (times_of ip acc) =
              filter (\<lambda>s. t < s + w) (filter (\<lambda>s. s \<le> now \<and> now < s + w) (times_of ip acc))"
            using True by (auto simp: filter_filter intro!: filter_cong)
          then show ?thesis by (simp add: recent_def length_filter_le del: filter_filter)
        qed
        then show ?thesis using True r(2) unfolding tim by (auto simp: recent_def)
      next
        case False
        then show ?thesis using b unfolding tim by (auto simp: recent_def)
      qed
    qed
  qed
qed

lemma rl_run_inv:
  assumes "sorted (map fst rs)"
  shows "rl_inv n (s * 10 ^ 9) (if rs = [] then 0 else fst (last rs)) (rl_run rs (rl_new n s))"
  using assms
proof (induction rs rule: rev_induct)
  case Nil
  show ?case by (simp add: rl_run_def rl_inv_def rl_new_def stored_def times_of_def recent_def)
next
  case (snoc r rs)
  obtain now ip where r: "r = (now, ip)" by fastforce
  obtain l acc where st: "rl_run rs (rl_new n s) = (l, acc)" by fastforce
  have "(if rs = [] then 0 else fst (last rs)) \<le> now"
    using snoc.prems by (auto simp: r sorted_append)
  with rl_step_inv [of n "s * 10 ^ 9" _ l acc now ip] snoc st show ?case
    by (simp add: r rl_run_def sorted_append)
qed

text \<open>
  The limiter is an exact sliding window: of the requests of a client, in the order of time, it lets one through
  exactly when fewer than the maximum were let through in the window that ends there, so in no window of that
  length are there more, whatever the other clients do.
\<close>

theorem rate_limit_exact:
  assumes "sorted (map fst (rs @ [(now, ip)]))"
  shows "let (l, acc) = rl_run rs (rl_new n s); w = s * 10 ^ 9
    in (snd (rl_check now ip l) \<longleftrightarrow> recent w now (times_of ip acc) < n) \<and> (\<forall>j t. recent w t (times_of j acc) \<le> n)"
proof -
  obtain l acc where st: "rl_run rs (rl_new n s) = (l, acc)" by fastforce
  have i: "rl_inv n (s * 10 ^ 9) (if rs = [] then 0 else fst (last rs)) (l, acc)"
    using rl_run_inv [of rs n s] assms by (simp add: st sorted_append)
  have "(if rs = [] then 0 else fst (last rs)) \<le> now" using assms by (auto simp: sorted_append)
  from rl_check_recent(2) [OF i this] have "snd (rl_check now ip l) \<longleftrightarrow> recent (s * 10 ^ 9) now (times_of ip acc) < n" .
  with i show ?thesis by (simp add: st rl_inv_def)
qed

theorem rate_limit_exact_witness:
  "let (l, acc) = rl_run [(0, V4 [1, 2, 3, 4]), (5, V4 [1, 2, 3, 4])] (rl_new 2 1)
   in \<not> snd (rl_check 7 (V4 [1, 2, 3, 4]) l) \<and> (\<forall>j t. recent (10 ^ 9) t (times_of j acc) \<le> 2)"
proof -
  have "times_of (V4 [1, 2, 3, 4]) (snd (rl_run [(0, V4 [1, 2, 3, 4]), (5, V4 [1, 2, 3, 4])] (rl_new 2 1))) = [0, 5]"
    by (simp add: times_of_def rl_run_def rl_step_def rl_check_def rl_new_def Let_def)
  with rate_limit_exact [of "[(0, V4 [1, 2, 3, 4]), (5, V4 [1, 2, 3, 4])]" 7 "V4 [1, 2, 3, 4]" 2 1] show ?thesis
    by (auto simp: recent_def split: prod.split_asm)
qed

text \<open>
  The client names itself: with a fresh \<open>X-Forwarded-For\<close> entry each, any number of requests is let through.
\<close>

lemma rate_limit_evaded:
  "0 < rl_max_requests l \<Longrightarrow> rl_requests l ip = None \<Longrightarrow> parse_ip entry = Some ip \<Longrightarrow> CHR '','' \<notin> set entry \<Longrightarrow>
    snd (rate_limit_middleware parse_ip now (Some entry) l)"
  by (simp add: rate_limit_middleware_def client_ip_def rl_check_def split_on_none)

section \<open>The range header of a player\<close>

lemma trim_id: "\<forall>c \<in> set s. \<not> is_ws c \<Longrightarrow> trim s = s"
proof -
  have d: "\<forall>c \<in> set t. \<not> is_ws c \<Longrightarrow> dropWhile is_ws t = t" for t by (cases t) auto
  assume "\<forall>c \<in> set s. \<not> is_ws c"
  then show "trim s = s" using d [of s] d [of "rev s"] by (simp add: trim_def)
qed

lemma show_u64_chars: "c \<in> set (show_u64 n) \<Longrightarrow> is_digit c"
  by (simp add: show_u64_def show_nat_digits)

lemma is_digit_plain: "is_digit c \<Longrightarrow> \<not> is_ws c \<and> c \<noteq> CHR '','' \<and> c \<noteq> CHR ''-''"
  by (auto simp: is_digit_def is_ws_def Let_def)

lemma show_u64_neq_Nil: "show_u64 n \<noteq> []"
  using parse_u64_show_u64 [of n] by (auto simp: parse_u64_def parse_uint_def)

lemma range_header_roundtrip:
  assumes "0 < n"
  shows "range_header_parse (''bytes='' @ show_u64 a @ ''-'' @ show_u64 b) n =
      Some [\<lparr>rr_start = a, rr_end = min b (n - 1), rr_total_length = n\<rparr>] \<and>
    range_header_parse (''bytes='' @ show_u64 a @ ''-'') n = Some [\<lparr>rr_start = a, rr_end = n - 1, rr_total_length = n\<rparr>]"
proof -
  have plain: "\<forall>c \<in> set (show_u64 a @ ''-'' @ show_u64 b). \<not> is_ws c \<and> c \<noteq> CHR '',''"
    "\<forall>c \<in> set (show_u64 a @ ''-''). \<not> is_ws c \<and> c \<noteq> CHR '',''"
    using is_digit_plain show_u64_chars by (auto simp: is_ws_def)
  have once: "split_once CHR ''-'' (show_u64 a @ CHR ''-'' # t) = Some (show_u64 a, t)" for t
  proof -
    have "\<forall>c \<in> set (show_u64 a). \<not> c = CHR ''-''" using is_digit_plain show_u64_chars by blast
    then show ?thesis by (simp add: split_once_def position_append)
  qed
  have p: "parse_range (show_u64 a @ ''-'' @ show_u64 b) n = Some \<lparr>rr_start = a, rr_end = min b (n - 1), rr_total_length = n\<rparr>"
    "parse_range (show_u64 a @ ''-'') n = Some \<lparr>rr_start = a, rr_end = n - 1, rr_total_length = n\<rparr>"
    using assms by (simp_all add: parse_range_def once show_u64_neq_Nil parse_u64_show_u64)
  have s: "split_on CHR '','' t = [t]" "trim t = t" if "\<forall>c \<in> set t. \<not> is_ws c \<and> c \<noteq> CHR '',''" for t
    using that by (auto intro: split_on_none trim_id)
  show ?thesis
    unfolding range_header_parse_def strip_prefix_append
    by (simp only: bind.simps s [OF plain(1)] s [OF plain(2)] List.map_filter_simps p Let_def option.case list.simps if_False)
qed

text \<open>A start beyond the end of the file is accepted: the range then ends before it starts.\<close>

lemma range_header_backwards:
  "0 < n \<Longrightarrow> n \<le> a \<Longrightarrow> \<exists>r. range_header_parse (''bytes='' @ show_u64 a @ ''-'') n = Some [r] \<and> rr_end r < rr_start r"
  using range_header_roundtrip [of n a]
  by (auto simp: word_less_nat_alt word_le_nat_alt unat_sub_if_size)

end
