(* ===== verification/Handlers.thy ===== *)
theory Handlers
  imports Engine Http_Server
begin

text \<open>
  The handlers of the local HTTP server (\<open>qvs-local-server/src/handler.rs\<close>) over the engine. Requests arrive
  decoded (query and body are records), answers are status, range and body, or a JSON value. The task that sends the
  body of \<open>/play\<close> is a step function; between its steps the engine goes on.
\<close>

section \<open>Requests and answers\<close>

record play_params =
  pp_hash :: string
  pp_name :: "string option"
  pp_size :: "u64 option"

record segment_params =
  sp_hash :: string
  sp_offset :: "u64 option"
  sp_length :: "u64 option"
  sp_index :: "u32 option"

record control_params =
  cp_action :: string
  cp_hash :: "string option"
  cp_value :: "string option"
  cp_url :: "string option"

record control_response =
  cr_success :: bool
  cr_message :: string

datatype status_code = BadRequest | NotFound | InternalServerError

fun debug_state :: "stream_state \<Rightarrow> string" where
  "debug_state Initializing = ''Initializing''"
| "debug_state Buffering = ''Buffering''"
| "debug_state Playing = ''Playing''"
| "debug_state Paused = ''Paused''"
| "debug_state Seeking = ''Seeking''"
| "debug_state Ended = ''Ended''"
| "debug_state Error = ''Error''"

text \<open>The format \<open>{:.1}\<close> of a non-negative number.\<close>

definition fixed1 :: "f64 \<Rightarrow> string" where
  "fixed1 x = (let n = nat (round_even (x * 10)) in show_nat (n div 10) @ ''.'' @ show_nat (n mod 10))"

text \<open>An address of the three forms the handlers hash as a whole.\<close>

definition is_url :: "string \<Rightarrow> bool" where
  "is_url s \<longleftrightarrow> starts_with ''http://'' s \<or> starts_with ''https://'' s \<or> starts_with ''file://'' s"

definition stream_key :: "(bytes \<Rightarrow> bytes) \<Rightarrow> string \<Rightarrow> (info_hash, qvod_error) result" where
  "stream_key sha1 s = (if is_url s then Ok (InfoHash (sha1 (as_bytes s))) else parse_info_hash s)"

section \<open>Playing\<close>

text \<open>The task that sends the body: what it sends is a list of chunks.\<close>

record play_stream =
  sm_info_hash :: info_hash
  sm_position :: u64
  sm_sent :: "bytes list"
  sm_open :: bool

definition play_chunk_size :: u64 where "play_chunk_size = 65536"

text \<open>One turn of its loop; \<open>client_ok\<close>: the client is still there. A panic ends the task.\<close>

definition play_stream_step :: "engine \<Rightarrow> bool \<Rightarrow> play_stream \<Rightarrow> play_stream" where
  "play_stream_step e client_ok s =
     (if \<not> sm_open s then s
      else let h = sm_info_hash s; data = read_buffer e h (sm_position s) play_chunk_size
      in case engine_status e h of
        None \<Rightarrow> s\<lparr>sm_open := False\<rparr>
      | Some st \<Rightarrow>
          if st_state st = Ended then
            (case data of
               Ok (Some d) \<Rightarrow> (if d \<noteq> [] \<and> client_ok then s\<lparr>sm_sent := sm_sent s @ [d], sm_open := False\<rparr> else s\<lparr>sm_open := False\<rparr>)
             | _ \<Rightarrow> s\<lparr>sm_open := False\<rparr>)
          else
            (case data of
               Ok (Some d) \<Rightarrow>
                 (if d = [] then s
                  else let s1 = s\<lparr>sm_position := sm_position s + of_nat (length d)\<rparr>
                       in if client_ok then s1\<lparr>sm_sent := sm_sent s @ [d]\<rparr> else s1\<lparr>sm_open := False\<rparr>)
             | Ok None \<Rightarrow> s
             | _ \<Rightarrow> s\<lparr>sm_open := False\<rparr>))"

record play_response =
  pr_range :: "range_result option"
  pr_file_size :: u64
  pr_stream :: play_stream

text \<open>With a range the answer is 206 with this header, otherwise 200 without one.\<close>

definition play_content_range :: "play_response \<Rightarrow> string option" where
  "play_content_range r =
     map_option (\<lambda>g. ''bytes '' @ show_u64 (rr_start g) @ ''-'' @ show_u64 (rr_end g) @ ''/'' @ show_u64 (pr_file_size r)) (pr_range r)"

definition play_uri :: "play_params \<Rightarrow> (string, status_code) result" where
  "play_uri p =
     (let hash = pp_hash p
      in if is_url hash then Ok hash
         else and_then (map_err (\<lambda>_. BadRequest) (parse_info_hash hash)) (\<lambda>_.
           Ok (''qvod://'' @ hash @ ''|'' @ (case pp_name p of Some n \<Rightarrow> n | None \<Rightarrow> ''stream'') @ ''|'' @
               show_u64 (case pp_size p of Some n \<Rightarrow> n | None \<Rightarrow> 0) @ ''|mp4|'')))"

definition handle_play :: "(bytes \<Rightarrow> bytes) \<Rightarrow> surroundings \<Rightarrow> play_params \<Rightarrow> string option \<Rightarrow> engine \<Rightarrow>
    engine \<times> (play_response, status_code) result" where
  "handle_play sha1 su params range_value e =
     (case play_uri params of
        Ok uri \<Rightarrow>
          (case engine_play sha1 su uri e of
             (e1, Ok stream) \<Rightarrow>
               (let ih = fm_info_hash (cm_metadata stream);
                    fs = (case engine_file_size e1 ih of Some n \<Rightarrow> n | None \<Rightarrow> 0);
                    range_info = Option.bind range_value (\<lambda>v. Option.bind (range_header_parse v fs) (\<lambda>rh. case rh of r # _ \<Rightarrow> Some r | [] \<Rightarrow> None));
                    start_offset = (case range_info of Some r \<Rightarrow> rr_start r | None \<Rightarrow> 0)
                in (e1, Ok \<lparr>pr_range = range_info, pr_file_size = fs,
                     pr_stream = \<lparr>sm_info_hash = ih, sm_position = start_offset, sm_sent = [], sm_open = True\<rparr>\<rparr>))
           | (e1, Err _) \<Rightarrow> (e1, Err InternalServerError)
           | (e1, Panic) \<Rightarrow> (e1, Panic))
      | Err s \<Rightarrow> (e, Err s)
      | Panic \<Rightarrow> (e, Panic))"

section \<open>Segments and status\<close>

definition handle_segment :: "segment_params \<Rightarrow> engine \<Rightarrow> (bytes, status_code) result" where
  "handle_segment p e =
     and_then (map_err (\<lambda>_. BadRequest) (parse_info_hash (sp_hash p))) (\<lambda>h.
     let offset = (case sp_offset p of Some n \<Rightarrow> n | None \<Rightarrow> 0);
         len = (case sp_length p of Some n \<Rightarrow> n | None \<Rightarrow> 65536)
     in and_then (map_err (\<lambda>_. NotFound) (read_buffer e h offset len)) (\<lambda>data.
        case data of Some d \<Rightarrow> if d = [] then Err NotFound else Ok d | None \<Rightarrow> Err NotFound))"

definition status_fields :: "stream_status \<Rightarrow> (string \<times> json) list" where
  "status_fields s =
     [(''state'', JStr (debug_state (st_state s))), (''position_ms'', JInt (uint (st_position_ms s))),
      (''duration_ms'', JInt (uint (st_duration_ms s))), (''buffered_seconds'', JFloat (st_buffered_seconds s)),
      (''download_progress'', JFloat (st_download_progress s)), (''peer_count'', JInt (int (st_peer_count s)))]"

definition handle_status :: "(bytes \<Rightarrow> bytes) \<Rightarrow> nat \<Rightarrow> string \<Rightarrow> engine \<Rightarrow> (json, qvod_error) result" where
  "handle_status sha1 uptime_secs hash e =
     (if hash = [] then
        let streams = map (\<lambda>ih. case engine_status e ih of
              Some s \<Rightarrow> JObj ((''info_hash'', JStr (show_info_hash ih)) # status_fields s)
            | None \<Rightarrow> JObj [(''info_hash'', JStr (show_info_hash ih)), (''state'', JStr ''unknown'')]) (active_streams e)
        in Ok (JObj [(''active_streams'', JArr streams), (''stream_count'', JInt (int (length streams))), (''uptime_secs'', JInt (int uptime_secs))])
      else case stream_key sha1 hash of
        Ok ih \<Rightarrow>
          (case engine_status e ih of
             Some s \<Rightarrow> Ok (JObj (status_fields s))
           | None \<Rightarrow> Ok (JObj [(''state'', JStr ''not_found'')]))
      | Err _ \<Rightarrow> Ok (JObj [(''state'', JStr ''invalid_hash''), (''error'', JStr ''info_hash must be 40 hex characters or a URI'')])
      | Panic \<Rightarrow> Panic)"

section \<open>Controls\<close>

definition answer :: "bool \<Rightarrow> string \<Rightarrow> control_response" where
  "answer ok msg = \<lparr>cr_success = ok, cr_message = msg\<rparr>"

definition control_play :: "(bytes \<Rightarrow> bytes) \<Rightarrow> surroundings \<Rightarrow> control_params \<Rightarrow> engine \<Rightarrow> engine \<times> (control_response, qvod_error) result" where
  "control_play sha1 su p e =
     (case (case cp_url p of
              Some url \<Rightarrow> Some url
            | None \<Rightarrow> map_option (\<lambda>hash. if is_url hash then hash else ''qvod://'' @ hash @ ''||0|mp4|'') (cp_hash p)) of
        None \<Rightarrow> (e, Ok (answer False ''hash or url required''))
      | Some uri \<Rightarrow>
          (case engine_play sha1 su uri e of
             (e1, Ok _) \<Rightarrow> (e1, Ok (answer True (''playing '' @ uri)))
           | (e1, Err er) \<Rightarrow> (e1, Ok (answer False (''play failed: '' @ show_error er)))
           | (e1, Panic) \<Rightarrow> (e1, Panic)))"

definition control_stop :: "(bytes \<Rightarrow> bytes) \<Rightarrow> control_params \<Rightarrow> engine \<Rightarrow> engine \<times> (control_response, qvod_error) result" where
  "control_stop sha1 p e =
     (case cp_hash p of
        None \<Rightarrow> (e, Ok (answer False ''hash required''))
      | Some hash \<Rightarrow>
          (case stream_key sha1 hash of
             Ok ih \<Rightarrow> (engine_stop ih e, Ok (answer True ''stopped''))
           | Err er \<Rightarrow> (e, Ok (answer False (''invalid hash: '' @ show_error er)))
           | Panic \<Rightarrow> (e, Panic)))"

definition control_seek :: "control_params \<Rightarrow> engine \<Rightarrow> engine \<times> (control_response, qvod_error) result" where
  "control_seek p e =
     (case cp_value p of
        None \<Rightarrow> (e, Ok (answer False ''value required''))
      | Some value \<Rightarrow>
          (case parse_u64 value of
             Ok ms \<Rightarrow>
               (case engine_seek ms e of
                  (e1, Ok _) \<Rightarrow> (e1, Ok (answer True (''seeked to '' @ show_u64 ms @ ''ms'')))
                | (e1, Err er) \<Rightarrow> (e1, Ok (answer False (show_error er)))
                | (e1, Panic) \<Rightarrow> (e1, Panic))
           | _ \<Rightarrow> (e, Ok (answer False ''invalid timestamp''))))"

definition control_status_line :: "engine \<Rightarrow> info_hash \<Rightarrow> string" where
  "control_status_line e ih =
     (case engine_status e ih of
        Some st \<Rightarrow> show_info_hash ih @ '': '' @ fixed1 (f64_mul (st_download_progress st) 100) @ ''% buffered, '' @ debug_state (st_state st) @ ''\<newline>''
      | None \<Rightarrow> [])"

definition handle_control :: "(bytes \<Rightarrow> bytes) \<Rightarrow> surroundings \<Rightarrow> control_params \<Rightarrow> engine \<Rightarrow> engine \<times> (control_response, qvod_error) result" where
  "handle_control sha1 su p e =
     (if cp_action p = ''play'' then control_play sha1 su p e
      else if cp_action p = ''pause'' then (engine_pause e, Ok (answer True ''paused''))
      else if cp_action p = ''resume'' then (engine_resume e, Ok (answer True ''resumed''))
      else if cp_action p = ''stop'' then control_stop sha1 p e
      else if cp_action p = ''seek'' then control_seek p e
      else if cp_action p = ''status'' then
        let msg = concat (map (control_status_line e) (active_streams e))
        in (e, Ok (answer True (if msg = [] then ''no active streams'' else msg)))
      else (e, Ok (answer False (''unknown action: '' @ cp_action p))))"

section \<open>The body of an answer\<close>

fun play_stream_run :: "(engine \<times> bool) list \<Rightarrow> play_stream \<Rightarrow> play_stream" where
  "play_stream_run [] s = s"
| "play_stream_run ((e, ok) # es) s = play_stream_run es (play_stream_step e ok s)"

text \<open>What is read is as long as was asked for.\<close>

lemma rb_read_length: "rb_read offset len b = Ok (Some bs) \<Longrightarrow> length bs = unat len"
proof -
  assume r: "rb_read offset len b = Ok (Some bs)"
  let ?o = "sat_sub offset (rb_file_offset b)"
  from r have c: "unat (?o + len) \<le> length (rb_data b)" "unat ?o \<le> unat (?o + len)"
    "bs = subslice (unat ?o) (unat (?o + len)) (rb_data b)"
    by (auto simp: rb_read_def Let_def split: if_splits)
  have "unat (?o + len) = unat ?o + unat len"
    using c(2) unat_u64_less [of len] by (simp add: unat_plus_if_size word_size split: if_splits)
  with c show ?thesis by simp
qed

lemma read_buffer_length: "read_buffer e h offset len = Ok (Some bs) \<Longrightarrow> length bs = unat len"
  by (auto simp: read_buffer_def split: option.splits dest: rb_read_length)

lemma play_stream_step_chunks:
  assumes "\<forall>d \<in> set (sm_sent s). length d = 65536"
  shows "\<forall>d \<in> set (sm_sent (play_stream_step e ok s)). length d = 65536"
proof -
  have "length d = 65536" if "read_buffer e h p play_chunk_size = Ok (Some d)" for h p d
    using read_buffer_length [OF that] by (simp add: play_chunk_size_def)
  with assms show ?thesis
    by (auto simp: play_stream_step_def Let_def split: option.split result.split)
qed

lemma play_stream_run_chunks:
  "\<forall>d \<in> set (sm_sent s). length d = 65536 \<Longrightarrow> \<forall>d \<in> set (sm_sent (play_stream_run es s)). length d = 65536"
proof (induction es arbitrary: s)
  case (Cons x es)
  obtain e ok where "x = (e, ok)" by fastforce
  with Cons.IH [OF play_stream_step_chunks [OF Cons.prems, of e ok]] show ?case by simp
qed simp

lemma play_stream_run_closed: "\<not> sm_open s \<Longrightarrow> play_stream_run es s = s"
  by (induction es s rule: play_stream_run.induct) (simp_all add: play_stream_step_def)

text \<open>Past the end of the file nothing can be read.\<close>

lemma read_beyond:
  assumes "holds_prefix src n b" and "n < unat offset + unat len" and "0 < len" and "unat offset + unat len < 2 ^ 64"
  shows "rb_read offset len b = Ok None"
proof -
  define k where "k = (if n < unat offset then 0 else n - unat offset)"
  have k: "k < unat len" "n \<le> unat offset + k" using assms(2,3) by (auto simp: k_def word_less_nat_alt)
  then have "unat (offset + of_nat k) = unat offset + k" using assms(4) by (intro unat_add_of_nat) simp
  then have "rb_abs b (offset + of_nat k) = None" using assms(1) k(2) by (simp add: holds_prefix_def)
  then have "None \<in> set (map (\<lambda>k. rb_abs b (offset + of_nat k)) [0..<unat len])" using k(1) by (auto simp: image_iff intro!: bexI [of _ k])
  moreover have "rb_read offset len b = Ok (file_read offset len (rb_abs b))"
    using assms by (intro rb_read_refines) (auto simp: holds_prefix_def)
  ultimately show ?thesis by (simp add: file_read_def Let_def)
qed

text \<open>
  C40: the body of \<open>/play\<close> is cut: every chunk sent has 64 KiB, so a file whose size is no multiple of that never
  arrives whole; and once the file has been read to its end, the task sends at most one more chunk, and none when
  less than 64 KiB are left, and closes.
\<close>

theorem play_body_truncated:
  assumes "map_of (en_streams e) h = Some a" and "file_done src m (as_download a)" and "length src < 2 ^ 63"
    and "unat offset \<le> length src"
  shows "(\<forall>es (s :: play_stream). sm_sent s = [] \<longrightarrow> 65536 dvd length (concat (sm_sent (play_stream_run es s)))) \<and>
    play_stream_run ((e, True) # es) \<lparr>sm_info_hash = h, sm_position = offset, sm_sent = [], sm_open = True\<rparr> =
      \<lparr>sm_info_hash = h, sm_position = offset,
       sm_sent = (if unat offset + 65536 \<le> length src then [take 65536 (drop (unat offset) src)] else []), sm_open = False\<rparr>"
proof
  show "\<forall>es (s :: play_stream). sm_sent s = [] \<longrightarrow> 65536 dvd length (concat (sm_sent (play_stream_run es s)))"
  proof (intro allI impI)
    fix es and s :: play_stream assume "sm_sent s = []"
    then have "\<forall>d \<in> set (sm_sent (play_stream_run es s)). length d = 65536" by (intro play_stream_run_chunks) simp
    moreover have "\<forall>d \<in> set ds. length d = 65536 \<Longrightarrow> 65536 dvd length (concat ds)" for ds :: "bytes list"
      by (induction ds) auto
    ultimately show "65536 dvd length (concat (sm_sent (play_stream_run es s)))" by blast
  qed
next
  have d: "holds_prefix src (length src) (dl_buffer (as_download a))" "ms_state (dl_stream (as_download a)) = Ended"
    using assms(2) by (simp_all add: file_done_def)
  have u: "unat (65536 :: u64) = 65536" by simp
  have r: "read_buffer e h offset 65536 =
      Ok (if unat offset + 65536 \<le> length src then Some (take 65536 (drop (unat offset) src)) else None)"
  proof (cases "unat offset + 65536 \<le> length src")
    case True
    then show ?thesis using read_prefix [OF d(1), of 65536 offset] assms(1) by (simp add: read_buffer_def)
  next
    case False
    then show ?thesis using read_beyond [OF d(1), of offset 65536] assms(1,3,4) by (simp add: read_buffer_def)
  qed
  obtain st where st: "engine_status e h = Some st" "st_state st = Ended"
    using assms(1) d(2) by (auto simp: engine_status_def ms_state_def Let_def)
  show "play_stream_run ((e, True) # es) \<lparr>sm_info_hash = h, sm_position = offset, sm_sent = [], sm_open = True\<rparr> =
      \<lparr>sm_info_hash = h, sm_position = offset,
       sm_sent = (if unat offset + 65536 \<le> length src then [take 65536 (drop (unat offset) src)] else []), sm_open = False\<rparr>"
    unfolding play_stream_run.simps
    by (subst play_stream_run_closed) (auto simp: play_stream_step_def st r play_chunk_size_def Let_def)
qed

theorem play_body_truncated_witness:
  "\<exists>e h. (\<exists>st. engine_status e h = Some st \<and> st_download_progress st = 1) \<and>
     read_buffer e h 0 3 = Ok (Some [1, 2, 3]) \<and>
     sm_sent (play_stream_run [(e, True)] \<lparr>sm_info_hash = h, sm_position = 0, sm_sent = [], sm_open = True\<rparr>) = []"
proof -
  have z: "fm_file_size sample_source = 3" by (simp add: sample_source_def empty_meta_def)
  obtain d where d: "file_done [1, 2, 3] sample_source d"
    using file_download_done [of sample_source "[1, 2, 3]" 8 "[[]]" "ms_new (ss_new 0)"] by (auto simp: z word_le_nat_alt)
  let ?h = "fm_info_hash sample_source"
  let ?e0 = "engine_new engine_config_default False Map.empty"
  let ?a = "(new_active 0 ?e0 ?h sample_source (Some PieceTask))\<lparr>as_download := d\<rparr>"
  let ?e = "register_stream ?h ?a ?e0"
  have a: "map_of (en_streams ?e) ?h = Some ?a" by simp
  have "holds_prefix [1, 2, 3] (length [1, 2, 3 :: u8]) (dl_buffer d)" using d by (simp only: file_done_def)
  from read_prefix [OF this, of 3 0] a have "read_buffer ?e ?h 0 3 = Ok (Some [1, 2, 3])" by (simp add: read_buffer_def)
  moreover have "engine_status ?e ?h \<noteq> None" "\<And>st. engine_status ?e ?h = Some st \<Longrightarrow> st_download_progress st = 1"
    using d by (auto simp: engine_status_def file_done_def Let_def)
  moreover have "sm_sent (play_stream_run [(?e, True)] \<lparr>sm_info_hash = ?h, sm_position = 0, sm_sent = [], sm_open = True\<rparr>) = []"
    using play_body_truncated [OF a, of "[1, 2, 3]" sample_source 0 "[]"] d by simp
  ultimately show ?thesis by blast
qed

section \<open>The life of a stream as the handlers show it\<close>

definition control_request :: "string \<Rightarrow> string \<Rightarrow> control_params" where
  "control_request action hash = \<lparr>cp_action = action, cp_hash = Some hash, cp_value = None, cp_url = None\<rparr>"

lemma is_url_parse:
  assumes "is_url s"
  shows "(\<exists>u. parse_media_uri s = Ok (HttpAddr u) \<and> hu_url u = s) \<or> (\<exists>p. parse_media_uri s = Ok (FileAddr p) \<and> s = file_uri p)"
proof -
  have st: "starts_with p s \<longleftrightarrow> (\<exists>t. s = p @ t)" for p
    by (metis append_take_drop_id starts_with_def append_eq_conv_conj)
  from assms consider t where "s = ''http://'' @ t" | t where "s = ''https://'' @ t" | t where "s = ''file://'' @ t"
    unfolding is_url_def st by blast
  then show ?thesis
  proof cases
    case 1
    then show ?thesis by (simp add: parse_media_uri_def starts_with_def Let_def)
  next
    case 2
    then show ?thesis by (simp add: parse_media_uri_def starts_with_def Let_def)
  next
    case 3
    then have "s = file_uri t" by (simp add: file_uri_def)
    moreover have "parse_media_uri (file_uri t) = Ok (FileAddr t)" unfolding file_uri_def by (rule parse_file_addr)
    ultimately show ?thesis by blast
  qed
qed

lemma play_url_registers:
  assumes "is_url s" and "engine_play sha1 su s e = (e1, Ok m)"
  shows "map_of (en_streams e1) (InfoHash (sha1 (as_bytes s))) \<noteq> None"
  using is_url_parse [OF assms(1)]
proof (elim disjE exE conjE)
  fix u assume "parse_media_uri s = Ok (HttpAddr u)" "hu_url u = s"
  with assms(2) show ?thesis
    by (auto simp: engine_play_def play_http_def Let_def split: result.splits prod.splits)
next
  fix p assume p: "parse_media_uri s = Ok (FileAddr p)" "s = file_uri p"
  then have "InfoHash (sha1 (as_bytes s)) = file_hash sha1 p" by (simp only: file_hash_def)
  with assms(2) p(1) show ?thesis
    by (auto simp: engine_play_def play_file_def Let_def split: result.splits prod.splits)
qed

lemma empty_name_refused:
  assumes "CHR ''|'' \<notin> set hash"
  shows "\<not> is_ok (parse_media_uri (''qvod://'' @ hash @ ''||0|mp4|''))"
proof -
  let ?s = "''qvod://'' @ (hash @ ''||0|mp4'') @ ''|''"
  have parts: "split_on CHR ''|'' (hash @ ''||0|mp4'') = [hash, [], ''0'', ''mp4'']"
    using split_on_append [OF assms, of "''|0|mp4''"] by simp
  have "\<not> is_ok (parse_qvod_uri ?s)"
    by (simp only: parse_qvod_uri_def strip_prefix_append option.case ok_or.simps and_then.simps ends_with_append
        strip_suffix_append Let_def parts if_False not_True_eq_False) (cases "parse_info_hash hash", simp_all)
  moreover have "?s = ''qvod://'' @ hash @ ''||0|mp4|''" by simp
  ultimately have q: "\<not> is_ok (parse_qvod_uri (''qvod://'' @ hash @ ''||0|mp4|''))" by simp
  have "parse_media_uri (''qvod://'' @ hash @ ''||0|mp4|'') = and_then (parse_qvod_uri (''qvod://'' @ hash @ ''||0|mp4|'')) (\<lambda>u. Ok (QvodAddr u))"
    by (simp add: parse_media_uri_def starts_with_def)
  with q show ?thesis by (cases "parse_qvod_uri (''qvod://'' @ hash @ ''||0|mp4|'')") simp_all
qed

text \<open>So the address the controls build from a bare hash is refused, and the engine stays as it is.\<close>

lemma bare_hash_refused:
  assumes "CHR ''|'' \<notin> set hash"
  shows "engine_play sha1 su (''qvod://'' @ hash @ ''||0|mp4|'') e = (e, Panic) \<or>
    (\<exists>er. engine_play sha1 su (''qvod://'' @ hash @ ''||0|mp4|'') e = (e, Err er))"
  using empty_name_refused [OF assms]
  by (cases "parse_media_uri (''qvod://'' @ hash @ ''||0|mp4|'')") (simp_all only: engine_play_def is_ok.simps result.case, auto)

text \<open>
  For an address the controls and the status agree on the stream: after a play that succeeded the status of the
  same address is that of a stream, after a stop of it there is none. Playing a bare info hash through the controls
  never succeeds, because the address built from it has an empty file name, and changes nothing.
\<close>

theorem control_status_agree:
  "(is_url address \<and> handle_control sha1 su (control_request ''play'' address) e = (e1, Ok r) \<and> cr_success r \<longrightarrow>
      (\<exists>st. handle_status sha1 up address e1 = Ok (JObj (status_fields st))) \<and>
      (\<exists>e2. handle_control sha1 su (control_request ''stop'' address) e1 = (e2, Ok (answer True ''stopped'')) \<and>
         handle_status sha1 up address e2 = Ok (JObj [(''state'', JStr ''not_found'')]))) \<and>
   (CHR ''|'' \<notin> set hash \<and> \<not> is_url hash \<and> handle_control sha1 su (control_request ''play'' hash) e = (e3, Ok r3) \<longrightarrow>
      \<not> cr_success r3 \<and> e3 = e)"
proof (intro conjI impI; elim conjE)
  assume u: "is_url address" and c: "handle_control sha1 su (control_request ''play'' address) e = (e1, Ok r)" and r: "cr_success r"
  from c r u obtain m where "engine_play sha1 su address e = (e1, Ok m)"
    by (auto simp: handle_control_def control_request_def control_play_def answer_def split: result.splits prod.splits)
  from play_url_registers [OF u this] obtain a where a: "map_of (en_streams e1) (InfoHash (sha1 (as_bytes address))) = Some a" by blast
  have k: "stream_key sha1 address = Ok (InfoHash (sha1 (as_bytes address)))" "address \<noteq> []"
    using u by (auto simp: stream_key_def is_url_def starts_with_def)
  show "\<exists>st. handle_status sha1 up address e1 = Ok (JObj (status_fields st))"
    by (auto simp: handle_status_def k engine_status_def a)
  show "\<exists>e2. handle_control sha1 su (control_request ''stop'' address) e1 = (e2, Ok (answer True ''stopped'')) \<and>
      handle_status sha1 up address e2 = Ok (JObj [(''state'', JStr ''not_found'')])"
    by (simp add: handle_control_def control_request_def control_stop_def k handle_status_def engine_status_def)
next
  assume h: "CHR ''|'' \<notin> set hash" "\<not> is_url hash" and c: "handle_control sha1 su (control_request ''play'' hash) e = (e3, Ok r3)"
  from bare_hash_refused [OF h(1), of sha1 su e] c h(2) show "\<not> cr_success r3" "e3 = e"
    by (auto simp: handle_control_def control_request_def control_play_def answer_def)
qed

definition file_surroundings :: surroundings where
  "file_surroundings = quiet_surroundings\<lparr>su_canonical := Ok ''/a'', su_file := Ok (True, 3), su_early := []\<rparr>"

theorem control_status_agree_witness:
  "\<exists>e1 r. handle_control (\<lambda>bs. bs) file_surroundings (control_request ''play'' (file_uri ''/a''))
        (engine_new engine_config_default False Map.empty) = (e1, Ok r) \<and>
     (\<exists>st. handle_status (\<lambda>bs. bs) 0 (file_uri ''/a'') e1 = Ok (JObj (status_fields st))) \<and>
     (\<exists>r3. handle_control (\<lambda>bs. bs) file_surroundings (control_request ''play'' (replicate 40 CHR ''a'')) e1 = (e1, Ok r3) \<and>
        \<not> cr_success r3)"
proof -
  let ?init = "engine_new engine_config_default False Map.empty"
  have u: "is_url (file_uri ''/a'')" "\<not> is_url (replicate 40 CHR ''a'')" by code_simp+
  obtain m0 where m0: "probe_file_source (\<lambda>bs. bs) file_surroundings ''/a'' = Ok m0"
    using probe_file_source_size [of file_surroundings 3] by (fastforce simp: file_surroundings_def)
  have "engine_play (\<lambda>bs. bs) file_surroundings (file_uri ''/a'') ?init = play_file (\<lambda>bs. bs) file_surroundings ''/a'' ?init"
    by (simp only: engine_play_def file_uri_def parse_file_addr result.case media_uri.case)
  moreover have "su_canonical file_surroundings = Ok ''/a''" by (simp add: file_surroundings_def)
  ultimately obtain e1 m where "engine_play (\<lambda>bs. bs) file_surroundings (file_uri ''/a'') ?init = (e1, Ok m)"
    using m0 by (simp add: play_file_def Let_def)
  then obtain r where p: "handle_control (\<lambda>bs. bs) file_surroundings (control_request ''play'' (file_uri ''/a'')) ?init = (e1, Ok r)" "cr_success r"
    using u by (simp add: handle_control_def control_request_def control_play_def answer_def)
  have "parse_media_uri (''qvod://'' @ replicate 40 CHR ''a'' @ ''||0|mp4|'') = Err (InvalidUri ''filename cannot be empty'')" by code_simp
  then obtain r3 where q: "handle_control (\<lambda>bs. bs) file_surroundings (control_request ''play'' (replicate 40 CHR ''a'')) e1 = (e1, Ok r3)"
    using u by (auto simp: handle_control_def control_request_def control_play_def engine_play_def)
  note a1 = control_status_agree [of "file_uri ''/a''" "\<lambda>bs. bs" file_surroundings ?init e1 r 0 "replicate 40 CHR ''a''"]
  note a2 = control_status_agree [of "file_uri ''/a''" "\<lambda>bs. bs" file_surroundings e1 e1 r 0 "replicate 40 CHR ''a''" e1 r3]
  from a1 p u a2 q show ?thesis by auto
qed

end
