(* ===== verification/Tracker.thy ===== *)
theory Tracker
  imports Core_Util
begin

text \<open>
  The tracker client (\<open>qvs-tracker\<close>): the announce request and its answer (\<open>protocol.rs\<close>), scraping
  (\<open>scraper.rs\<close>), and the attempts over several trackers (\<open>client.rs\<close>). The order of the trackers, which
  the code shuffles, and the answer to each attempt are arguments.
\<close>

section \<open>The announce request\<close>

record announce_params =
  ap_info_hash :: info_hash
  ap_peer_id :: bytes
  ap_port :: u16
  ap_uploaded :: u64
  ap_downloaded :: u64
  ap_left :: u64
  ap_event :: announce_event
  ap_compact :: bool

definition unreserved :: "u8 \<Rightarrow> bool" where
  "unreserved b \<longleftrightarrow> byte CHR ''0'' \<le> b \<and> b \<le> byte CHR ''9'' \<or> byte CHR ''a'' \<le> b \<and> b \<le> byte CHR ''z'' \<or>
     byte CHR ''A'' \<le> b \<and> b \<le> byte CHR ''Z'' \<or> b \<in> {byte CHR ''-'', byte CHR ''_'', byte CHR ''.'', byte CHR ''~''}"

definition upper_hex_char :: "nat \<Rightarrow> char" where
  "upper_hex_char d = ''0123456789ABCDEF'' ! d"

definition url_encode :: "bytes \<Rightarrow> string" where
  "url_encode data = concat (map (\<lambda>b.
     if unreserved b then [byte_char b]
     else [CHR 0x25, upper_hex_char (unat b div 16), upper_hex_char (unat b mod 16)]) data)"

definition to_query :: "announce_params \<Rightarrow> string" where
  "to_query p = join ''&''
     ([''info_hash='' @ url_encode (ih_bytes (ap_info_hash p)), ''peer_id='' @ url_encode (ap_peer_id p),
       ''port='' @ show_nat (unat (ap_port p)), ''uploaded='' @ show_u64 (ap_uploaded p), ''downloaded='' @ show_u64 (ap_downloaded p),
       ''left='' @ show_u64 (ap_left p), ''event='' @ announce_event_str (ap_event p)] @
      (if ap_compact p then [''compact=1''] else []))"

section \<open>The answer\<close>

record announce_response =
  ar_interval :: u32
  ar_min_interval :: "u32 option"
  ar_complete :: u32
  ar_incomplete :: u32
  ar_downloaded :: u32
  ar_peers :: "(bytes \<times> u16) list"

definition try_u32 :: "u64 \<Rightarrow> u32 option" where
  "try_u32 i = (if 0 \<le> sint i \<and> sint i < 2 ^ 32 then Some (ucast i) else None)"

definition dict_get_int :: "(bytes \<times> simple_bencode) list \<Rightarrow> string \<Rightarrow> (u64, qvod_error) result" where
  "dict_get_int dict key =
     ok_or (Option.bind (map_of dict (as_bytes key)) sb_as_int) (TrackerProtocol (''missing field: '' @ [CHR 0x22] @ key @ [CHR 0x22]))"

definition count_field :: "(bytes \<times> simple_bencode) list \<Rightarrow> string \<Rightarrow> u32" where
  "count_field dict key =
     (case try_u32 (case dict_get_int dict key of Ok i \<Rightarrow> i | _ \<Rightarrow> 0) of Some n \<Rightarrow> n | None \<Rightarrow> 0)"

definition from_bencode :: "bytes \<Rightarrow> (announce_response, qvod_error) result" where
  "from_bencode data =
     and_then (map_err TrackerProtocol (simple_bencode_decode data)) (\<lambda>(val, _).
     and_then (ok_or (sb_as_dict val) (TrackerProtocol ''response not a dict'')) (\<lambda>dict.
     and_then (dict_get_int dict ''interval'') (\<lambda>i.
     and_then (ok_or (try_u32 i) (TrackerProtocol ''interval out of range'')) (\<lambda>interval.
     Ok \<lparr>ar_interval = interval, ar_min_interval = Option.bind (res_ok (dict_get_int dict ''min interval'')) try_u32,
         ar_complete = count_field dict ''complete'', ar_incomplete = count_field dict ''incomplete'',
         ar_downloaded = count_field dict ''downloaded'',
         ar_peers = (case map_of dict (as_bytes ''peers'') of
             None \<Rightarrow> []
           | Some v \<Rightarrow>
               (case sb_as_str_bytes v of
                  Some bs \<Rightarrow> parse_compact_peers bs
                | None \<Rightarrow> (case sb_as_list v of Some l \<Rightarrow> parse_dict_peers l | None \<Rightarrow> [])))\<rparr>))))"

section \<open>Scraping\<close>

definition trim_end_slashes :: "string \<Rightarrow> string" where
  "trim_end_slashes s = rev (dropWhile (\<lambda>c. c = CHR ''/'') (rev s))"

definition build_scrape_url :: "string \<Rightarrow> info_hash list \<Rightarrow> string" where
  "build_scrape_url base_url hs =
     trim_end_slashes base_url @ ''/scrape?'' @ join ''&'' (map (\<lambda>h. ''info_hash='' @ show_info_hash h) hs)"

definition swarm_count :: "(bytes \<times> simple_bencode) list \<Rightarrow> string \<Rightarrow> u32" where
  "swarm_count dict key =
     (case try_u32 (case Option.bind (map_of dict (as_bytes key)) sb_as_int of Some i \<Rightarrow> i | None \<Rightarrow> 0) of Some n \<Rightarrow> n | None \<Rightarrow> 0)"

fun scrape_entries :: "(bytes \<times> simple_bencode) list \<Rightarrow> ((info_hash \<times> swarm_status) list, qvod_error) result" where
  "scrape_entries [] = Ok []"
| "scrape_entries ((key, val) # es) =
     and_then (ok_or (sb_as_dict val) (TrackerProtocol ''invalid file entry'')) (\<lambda>dict.
     and_then (scrape_entries es) (\<lambda>rest.
     let len = min (length key) 20; info_hash = take len key @ replicate (20 - len) 0
     in Ok ((InfoHash info_hash, \<lparr>sw_complete = swarm_count dict ''complete'', sw_incomplete = swarm_count dict ''incomplete'',
              sw_downloaded = swarm_count dict ''downloaded''\<rparr>) # rest)))"

definition parse_scrape_response :: "bytes \<Rightarrow> ((info_hash \<times> swarm_status) list, qvod_error) result" where
  "parse_scrape_response data =
     and_then (map_err TrackerProtocol (simple_bencode_decode data)) (\<lambda>(val, _).
     and_then (ok_or (Option.bind (Option.bind (sb_as_dict val) (\<lambda>d. map_of d (as_bytes ''files''))) sb_as_dict)
         (TrackerProtocol ''scrape response missing files'')) scrape_entries)"

section \<open>The client\<close>

record tracker_config =
  tc_tracker_urls :: "string list"
  tc_peer_id :: bytes
  tc_port :: u16
  tc_compact :: bool

definition tracker_config_default :: tracker_config where
  "tracker_config_default = \<lparr>tc_tracker_urls = [''http://tracker.qvod.com:6969/announce''], tc_peer_id = replicate 20 0,
     tc_port = DEFAULT_PORT, tc_compact = True\<rparr>"

text \<open>What comes of a request: a body with a success status, a body that failed, another status, no answer.\<close>

datatype http_reply = ReplyBody bytes | ReplyBodyFailed string | ReplyStatus string | NoReply string

text \<open>The answer of the network to an address, by the number of the attempt.\<close>

type_synonym tracker_net = "string \<Rightarrow> nat \<Rightarrow> http_reply"

definition reply_body :: "string \<Rightarrow> string \<Rightarrow> string \<Rightarrow> http_reply \<Rightarrow> (bytes, qvod_error) result" where
  "reply_body request status body r =
     (case r of
        ReplyBody bs \<Rightarrow> Ok bs
      | ReplyBodyFailed e \<Rightarrow> Err (TrackerProtocol (body @ '': '' @ e))
      | ReplyStatus s \<Rightarrow> Err (TrackerProtocol (status @ '' '' @ s))
      | NoReply e \<Rightarrow> Err (TrackerProtocol (request @ '': '' @ e)))"

definition tracker_peer :: "bytes \<times> u16 \<Rightarrow> peer_info" where
  "tracker_peer p =
     \<lparr>pi_peer_id = replicate 20 0,
      pi_addr = \<lparr>sa_ip = V4 (if length (fst p) = 4 then fst p else [0, 0, 0, 0]), sa_port = snd p\<rparr>,
      pi_is_firewalled = False, pi_bw_up = 0, pi_bw_down = 0, pi_location = None, pi_latency = 0\<rparr>"

definition announce_url :: "tracker_config \<Rightarrow> string \<Rightarrow> info_hash \<Rightarrow> announce_event \<Rightarrow> u64 \<Rightarrow> u64 \<Rightarrow> u64 \<Rightarrow> string" where
  "announce_url c url h event uploaded downloaded left =
     trim_end_slashes url @ ''?'' @ to_query \<lparr>ap_info_hash = h, ap_peer_id = tc_peer_id c, ap_port = tc_port c,
       ap_uploaded = uploaded, ap_downloaded = downloaded, ap_left = left, ap_event = event, ap_compact = tc_compact c\<rparr>"

definition announce_single :: "tracker_config \<Rightarrow> http_reply \<Rightarrow> (peer_info list, qvod_error) result" where
  "announce_single c r =
     and_then (reply_body ''request failed'' ''tracker returned'' ''read response'' r) (\<lambda>bs.
     and_then (from_bencode bs) (\<lambda>resp. Ok (map tracker_peer (ar_peers resp))))"

text \<open>Three attempts at each tracker; the delays between them are left out.\<close>

fun attempts :: "(string \<Rightarrow> nat \<Rightarrow> ('a, qvod_error) result) \<Rightarrow> (string \<times> nat) list \<Rightarrow> qvod_error option \<Rightarrow> ('a, qvod_error) result" where
  "attempts f [] last_err = Err (case last_err of Some e \<Rightarrow> e | None \<Rightarrow> TrackerTimeout)"
| "attempts f ((url, k) # us) last_err =
     (case f url k of Ok a \<Rightarrow> Ok a | Err e \<Rightarrow> attempts f us (Some e) | Panic \<Rightarrow> Panic)"

definition schedule :: "string list \<Rightarrow> (string \<times> nat) list" where
  "schedule urls = concat (map (\<lambda>u. map (\<lambda>k. (u, k)) [0..<3]) urls)"

definition tracker_announce :: "tracker_config \<Rightarrow> string list \<Rightarrow> tracker_net \<Rightarrow> info_hash \<Rightarrow> announce_event \<Rightarrow> u64 \<Rightarrow> u64 \<Rightarrow> u64 \<Rightarrow>
    (peer_info list, qvod_error) result" where
  "tracker_announce c urls net h event uploaded downloaded left =
     attempts (\<lambda>url k. announce_single c (net (announce_url c url h event uploaded downloaded left) k)) (schedule urls) None"

definition scrape_single :: "http_reply \<Rightarrow> ((info_hash \<times> swarm_status) list, qvod_error) result" where
  "scrape_single r =
     and_then (reply_body ''scrape request failed'' ''scrape returned'' ''read scrape response'' r) parse_scrape_response"

definition tracker_scrape :: "string list \<Rightarrow> tracker_net \<Rightarrow> info_hash list \<Rightarrow> ((info_hash \<times> swarm_status) list, qvod_error) result" where
  "tracker_scrape urls net hs = attempts (\<lambda>url k. scrape_single (net (build_scrape_url url hs) k)) (schedule urls) None"

section \<open>The answer of a tracker\<close>

lemma simple_str_encode:
  assumes "length (encode_str s @ rest) < 2 ^ 64"
  shows "simple_bencode_decode (encode_str s @ rest) = Ok (SStr s, rest)"
proof -
  have "decode_str data = Ok (s, r) \<Longrightarrow> simple_decode_str data = Ok (SStr s, r)" for data r
    by (auto simp: simple_decode_str_def decode_str_def and_then_Ok_iff Let_def split: option.splits if_splits)
  from this [OF decode_str_encode [OF assms]] have d: "simple_decode_str (encode_str s @ rest) = Ok (SStr s, rest)" .
  obtain c cs where c: "encode_str s @ rest = c # cs" "is_digit_byte c"
    using encode_str_hd [of s] by (cases "encode_str s") auto
  moreover from c(2) have "c \<noteq> byte CHR ''i''" using not_digit_ld(3) by metis
  ultimately show ?thesis using d by (simp add: simple_bencode_decode.simps(2))
qed

lemma simple_int_encode: "simple_bencode_decode (bencode_encode (BInt i) @ rest) = Ok (SInt i, rest)"
proof -
  let ?d = "byte CHR ''i'' # as_bytes (show_i64 i) @ byte CHR ''e'' # rest"
  have "decode_int ?d = Ok (BInt j, r) \<Longrightarrow> simple_decode_int ?d = Ok (SInt j, r)" for j r
    by (auto simp: simple_decode_int_def decode_int_def and_then_Ok_iff subslice_def split: option.splits)
  from this [OF decode_int_encode] show ?thesis by (simp add: simple_bencode_decode.simps(2))
qed

text \<open>A dictionary of numbers and strings.\<close>

fun plain :: "simple_bencode \<Rightarrow> bool" where
  "plain (SInt i) = True"
| "plain (SStr s) = True"
| "plain _ = False"

definition encode_entries :: "(bytes \<times> simple_bencode) list \<Rightarrow> bytes" where
  "encode_entries es = concat (map (\<lambda>(k, v). encode_str k @ bencode_encode (to_bencode v)) es)"

lemma simple_dict_loop_encode:
  assumes "\<forall>e \<in> set es. plain (snd e)" and "bt_wf (acc @ es)" and "length (encode_entries es @ byte CHR ''e'' # rest) < 2 ^ 64"
  shows "simple_dict_loop acc (encode_entries es @ byte CHR ''e'' # rest) = Ok (SDict (acc @ es), rest)"
  using assms
proof (induction es arbitrary: acc)
  case Nil
  then show ?case by (subst simple_dict_loop.simps) (simp add: encode_entries_def)
next
  case (Cons e es)
  obtain k v where e: "e = (k, v)" by fastforce
  let ?r = "encode_entries es @ byte CHR ''e'' # rest"
  have d: "encode_entries (e # es) @ byte CHR ''e'' # rest = encode_str k @ bencode_encode (to_bencode v) @ ?r"
    by (simp add: encode_entries_def e)
  have l: "length (encode_str k @ bencode_encode (to_bencode v) @ ?r) < 2 ^ 64" using Cons.prems(3) unfolding d .
  have k: "simple_bencode_decode (encode_str k @ bencode_encode (to_bencode v) @ ?r) = Ok (SStr k, bencode_encode (to_bencode v) @ ?r)"
    using l by (rule simple_str_encode)
  have v: "simple_bencode_decode (bencode_encode (to_bencode v) @ ?r) = Ok (v, ?r)"
    using Cons.prems(1) l simple_int_encode simple_str_encode by (cases v) (simp_all add: e)
  have "bt_insert k v acc = acc @ [(k, v)]"
    using Cons.prems(2) by (intro bt_insert_last) (auto simp: bt_wf_def e sorted_wrt_append)
  with Cons.IH [of "acc @ [e]"] Cons.prems l have "simple_dict_loop (bt_insert k v acc) ?r = Ok (SDict (acc @ e # es), rest)"
    by (simp add: e)
  then show ?case
    unfolding d using encode_str_hd [of k] not_digit_ld(4)
    by (subst simple_dict_loop.simps) (auto simp: k v)
qed

lemma simple_dict_encode:
  assumes "\<forall>e \<in> set es. plain (snd e)" and "bt_wf es" and "length (bencode_encode (to_bencode (SDict es))) < 2 ^ 64"
  shows "simple_bencode_decode (bencode_encode (to_bencode (SDict es))) = Ok (SDict es, [])"
proof -
  have e: "bencode_encode (to_bencode (SDict es)) = byte CHR ''d'' # encode_entries es @ [byte CHR ''e'']"
    by (simp add: encode_entries_def comp_def case_prod_unfold)
  then have "simple_dict_loop [] (encode_entries es @ [byte CHR ''e'']) = Ok (SDict es, [])"
    using simple_dict_loop_encode [of es "[]" "[]"] assms by simp
  moreover have "byte CHR ''d'' \<noteq> byte CHR ''i''" "byte CHR ''d'' \<noteq> byte CHR ''l''" by code_simp+
  ultimately show ?thesis unfolding e by (simp add: simple_bencode_decode.simps(2))
qed

text \<open>The answer a tracker gives in the compact form.\<close>

definition tracker_answer :: "u32 \<Rightarrow> u32 \<Rightarrow> u32 \<Rightarrow> (bytes \<times> u16) list \<Rightarrow> bytes" where
  "tracker_answer complete incomplete interval ps = bencode_encode (to_bencode (SDict
     [(as_bytes ''complete'', SInt (ucast complete)), (as_bytes ''incomplete'', SInt (ucast incomplete)),
      (as_bytes ''interval'', SInt (ucast interval)), (as_bytes ''peers'', SStr (concat (map (\<lambda>(ip, port). ip @ u16_be port) ps)))]))"

lemma try_u32_ucast: "try_u32 (ucast x) = Some x"
proof -
  have "uint x < 2 ^ LENGTH(32)" by (rule unsigned_less)
  then have u: "uint x < 2 ^ 32" "0 \<le> uint x" by simp_all
  have "uint (ucast x :: u64) = uint x"
    by (rule uint_up_ucast) (simp add: is_up)
  moreover have len: "LENGTH(64) - Suc 0 = 63" by simp
  have "sint (ucast x :: u64) = signed_take_bit 63 (uint (ucast x :: u64))" using sint_uint [of "ucast x :: u64"] unfolding len .
  moreover have "signed_take_bit 63 (uint x) = uint x" 
  proof (rule signed_take_bit_int_eq_self)
    show "- (2 ^ 63) \<le> uint x" using u(2) by (rule order_trans [rotated]) simp
    show "uint x < 2 ^ 63" using u(1) by (rule less_le_trans) simp
  qed
  ultimately have "sint (ucast x :: u64) = uint x" by simp
  moreover have "(ucast (ucast x :: u64) :: u32) = x" by (rule bit_word_eqI) (auto simp: bit_simps)
  ultimately show ?thesis using u by (simp only: try_u32_def simp_thms if_True)
qed

lemma from_bencode_answer:
  assumes "\<forall>p \<in> set ps. length (fst p) = 4" and "length (tracker_answer complete incomplete interval ps) < 2 ^ 64"
  shows "from_bencode (tracker_answer complete incomplete interval ps) =
    Ok \<lparr>ar_interval = interval, ar_min_interval = None, ar_complete = complete, ar_incomplete = incomplete, ar_downloaded = 0, ar_peers = ps\<rparr>"
proof -
  define peers where "peers = concat (map (\<lambda>(ip, port). ip @ u16_be port) ps)"
  let ?es = "[(as_bytes ''complete'', SInt (ucast complete)), (as_bytes ''incomplete'', SInt (ucast incomplete)),
      (as_bytes ''interval'', SInt (ucast interval)), (as_bytes ''peers'', SStr peers)]"
  have "bt_wf ?es" unfolding bt_wf_def by code_simp
  then have d: "simple_bencode_decode (tracker_answer complete incomplete interval ps) = Ok (SDict ?es, [])"
    using assms(2) unfolding tracker_answer_def peers_def [symmetric] by (intro simple_dict_encode) auto
  have keys: "as_bytes ''complete'' \<noteq> as_bytes ''incomplete''" "as_bytes ''complete'' \<noteq> as_bytes ''interval''" "as_bytes ''complete'' \<noteq> as_bytes ''peers''"
    "as_bytes ''incomplete'' \<noteq> as_bytes ''interval''" "as_bytes ''incomplete'' \<noteq> as_bytes ''peers''" "as_bytes ''interval'' \<noteq> as_bytes ''peers''"
    "as_bytes ''min interval'' \<notin> set (map fst ?es)" "as_bytes ''downloaded'' \<notin> set (map fst ?es)"
    by code_simp+
  have g: "map_of ?es (as_bytes ''complete'') = Some (SInt (ucast complete))" "map_of ?es (as_bytes ''incomplete'') = Some (SInt (ucast incomplete))"
    "map_of ?es (as_bytes ''interval'') = Some (SInt (ucast interval))" "map_of ?es (as_bytes ''peers'') = Some (SStr peers)"
    by (simp_all only: map_of.simps fun_upd_apply fst_conv snd_conv if_True if_False simp_thms keys(1-6) keys(1-6) [symmetric])
  have n: "map_of ?es (as_bytes ''min interval'') = None" "map_of ?es (as_bytes ''downloaded'') = None"
    using keys(7,8) by (simp_all only: map_of_eq_None_iff set_map not_False_eq_True)
  have p: "parse_compact_peers peers = ps" unfolding peers_def by (rule parse_compact_peers_concat [OF assms(1)])
  have z: "try_u32 0 = Some 0" by code_simp
  show ?thesis
    by (simp only: from_bencode_def d map_err.simps and_then.simps prod.case sb_as_dict.simps ok_or.simps dict_get_int_def g n
        bind.simps sb_as_int.simps try_u32_ucast count_field_def result.case option.case res_ok.simps sb_as_str_bytes.simps p z)
qed

section \<open>Announcing\<close>

lemma attempts_failed:
  assumes "\<forall>(u, k) \<in> set us. is_err (f u k)"
  shows "\<exists>e'. attempts f (us @ vs) e = attempts f vs e'"
  using assms
proof (induction us arbitrary: e)
  case (Cons u us)
  then obtain er where "f (fst u) (snd u) = Err er" by (cases "f (fst u) (snd u)") auto
  with Cons show ?case by (cases u) simp
qed auto

text \<open>Every tracker is asked at most three times, and only when all attempts fail does the announce fail.\<close>

lemma attempts_Err:
  "attempts f us e = Err er \<Longrightarrow> \<forall>(u, k) \<in> set us. is_err (f u k)"
  by (induction f us e rule: attempts.induct) (auto split: result.splits)

lemma length_schedule: "length (schedule urls) = 3 * length urls"
  by (induction urls) (simp_all add: schedule_def)

text \<open>
  C32: an announce delivers the peers of the first tracker, in whatever order they are asked, that gives a compact
  answer (complete, incomplete, interval and peers), after at most three attempts without a body at each one before it: the
  addresses of the answer, each with its port.
\<close>

theorem tracker_announce_delivers:
  assumes "\<forall>p \<in> set ps. length (fst p) = 4" and "length (tracker_answer complete incomplete interval ps) < 2 ^ 64"
    and "\<forall>v \<in> set us. \<forall>k < 3. \<forall>bs. net (announce_url c v h ev up down left) k \<noteq> ReplyBody bs"
    and "k < 3" and "\<forall>j < k. \<forall>bs. net (announce_url c u h ev up down left) j \<noteq> ReplyBody bs"
    and "net (announce_url c u h ev up down left) k = ReplyBody (tracker_answer complete incomplete interval ps)"
  shows "\<exists>peers. tracker_announce c (us @ u # vs) net h ev up down left = Ok peers \<and>
    map (\<lambda>p. (sa_ip (pi_addr p), sa_port (pi_addr p))) peers = map (\<lambda>(ip, port). (V4 ip, port)) ps"
proof -
  let ?f = "\<lambda>url k. announce_single c (net (announce_url c url h ev up down left) k)"
  have no: "(\<forall>bs. r \<noteq> ReplyBody bs) \<Longrightarrow> is_err (announce_single c r)" for r
    by (cases r) (simp_all add: announce_single_def reply_body_def)
  let ?fails = "schedule us @ map (\<lambda>j. (u, j)) [0..<k]"
  let ?rest = "(u, k) # map (\<lambda>j. (u, j)) [Suc k..<3] @ schedule vs"
  have "[0..<3] = [0..<k] @ k # [Suc k..<3]" using upt_add_eq_append [of 0 k "3 - k"] upt_conv_Cons [of k 3] assms(4) by simp
  then have s: "schedule (us @ u # vs) = ?fails @ ?rest" by (simp add: schedule_def)
  have "\<forall>(v, j) \<in> set ?fails. is_err (?f v j)"
    using assms(3,5) no by (auto simp: schedule_def)
  from attempts_failed [OF this, of ?rest None] obtain e where
    "tracker_announce c (us @ u # vs) net h ev up down left = attempts ?f ?rest e"
    unfolding tracker_announce_def s by blast
  moreover have "?f u k = Ok (map tracker_peer ps)"
    by (simp add: announce_single_def assms(6) reply_body_def from_bencode_answer [OF assms(1,2)])
  ultimately have "tracker_announce c (us @ u # vs) net h ev up down left = Ok (map tracker_peer ps)" by simp
  moreover have "map (\<lambda>p. (sa_ip (pi_addr p), sa_port (pi_addr p))) (map tracker_peer ps) = map (\<lambda>(ip, port). (V4 ip, port)) ps"
    using assms(1) by (auto simp: tracker_peer_def)
  ultimately show ?thesis by blast
qed

theorem tracker_announce_delivers_witness:
  "\<exists>peers. tracker_announce tracker_config_default [''http://a'', ''http://b'']
      (\<lambda>url k. if starts_with ''http://b'' url \<and> k = 1 then ReplyBody (tracker_answer 1 2 1800 [([10, 0, 0, 1], 6881)]) else NoReply [])
      (InfoHash (replicate 20 1)) Started 0 0 0 = Ok peers \<and>
    map (\<lambda>p. (sa_ip (pi_addr p), sa_port (pi_addr p))) peers = map (\<lambda>(ip, port). (V4 ip, port)) [([10, 0, 0, 1], 6881)]"
proof -
  let ?net = "\<lambda>url k. if starts_with ''http://b'' url \<and> k = (1 :: nat) then ReplyBody (tracker_answer 1 2 1800 [([10, 0, 0, 1], 6881)]) else NoReply []"
  have u: "\<not> starts_with ''http://b'' (announce_url tracker_config_default ''http://a'' h e a b c)"
    "starts_with ''http://b'' (announce_url tracker_config_default ''http://b'' h e a b c)" for h e a b c
    by (simp_all add: announce_url_def trim_end_slashes_def starts_with_def)
  have "length (tracker_answer 1 2 1800 [([10, 0, 0, 1], 6881)]) < 2 ^ 64"
    by (simp add: tracker_answer_def encode_str_def show_i64_def show_nat.simps)
  with tracker_announce_delivers [of "[([10, 0, 0, 1], 6881)]" 1 2 1800 "[''http://a'']" ?net tracker_config_default "InfoHash (replicate 20 1)" Started 0 0 0
      1 "''http://b''" "[]"] u
  show ?thesis by simp
qed

text \<open>An address of any other length than four bytes, an IPv6 one included, becomes 0.0.0.0.\<close>

lemma tracker_peer_other: "length ip \<noteq> 4 \<Longrightarrow> sa_ip (pi_addr (tracker_peer (ip, port))) = V4 [0, 0, 0, 0]"
  by (simp add: tracker_peer_def)

text \<open>The scrape address is built from the announce address and carries the hashes in hexadecimal.\<close>

lemma scrape_url_of_announce:
  "build_scrape_url ''http://t/announce'' [InfoHash [0xAB]] = ''http://t/announce/scrape?info_hash=ab''"
  by code_simp

end
