(* ===== verification/Media_Sync.thy ===== *)
theory Media_Sync
  imports Rust_Std Core_Types
begin

text \<open>
  Synchronisation of picture and sound (\<open>qvs-media/src/sync.rs\<close>) and the recognition of containers
  (\<open>format.rs\<close>). Case conversion is on ASCII.
\<close>

section \<open>Synchronisation\<close>

datatype sync_strategy = AudioMaster | VideoMaster | ExternalMaster

datatype sync_action = RenderFrame | DropFrame | RepeatFrame

text \<open>The drift is an \<open>i64\<close>: a 64-bit word read with its sign.\<close>

record av_sync =
  av_strategy :: sync_strategy
  av_last_video_pts :: u64
  av_last_audio_pts :: u64
  av_drift_ms :: u64
  av_dropped_frames :: u64

definition av_new :: av_sync where
  "av_new = \<lparr>av_strategy = AudioMaster, av_last_video_pts = 0, av_last_audio_pts = 0, av_drift_ms = 0, av_dropped_frames = 0\<rparr>"

definition set_strategy :: "sync_strategy \<Rightarrow> av_sync \<Rightarrow> av_sync" where
  "set_strategy s a = a\<lparr>av_strategy := s\<rparr>"

text \<open>\<open>i64::abs\<close> in a release build: the smallest number stays as it is.\<close>

definition i64_abs :: "u64 \<Rightarrow> u64" where
  "i64_abs x = (if sint x < 0 then - x else x)"

definition sync_video :: "u64 \<Rightarrow> u64 \<Rightarrow> av_sync \<Rightarrow> av_sync \<times> sync_action" where
  "sync_video video_pts_ms audio_pts_ms a =
     (let diff = video_pts_ms - audio_pts_ms;
          a1 = a\<lparr>av_last_video_pts := video_pts_ms, av_last_audio_pts := audio_pts_ms, av_drift_ms := diff\<rparr>
      in (a1, case av_strategy a of
           AudioMaster \<Rightarrow> if 20 < sint diff then DropFrame else if sint diff < - 100 then RepeatFrame else RenderFrame
         | VideoMaster \<Rightarrow> RenderFrame
         | ExternalMaster \<Rightarrow> if 50 < sint (i64_abs diff) then DropFrame else RenderFrame))"

definition sync_audio :: "u64 \<Rightarrow> av_sync \<Rightarrow> av_sync \<times> sync_action" where
  "sync_audio audio_pts_ms a = (a, RenderFrame)"

definition av_reset :: "av_sync \<Rightarrow> av_sync" where
  "av_reset a = a\<lparr>av_last_video_pts := 0, av_last_audio_pts := 0, av_drift_ms := 0, av_dropped_frames := 0\<rparr>"

section \<open>Containers\<close>

datatype media_format = Rmvb | Avi | Mkv | Mp4 | Wmv | Flv | Mov | Ts | Webm | UnknownFormat

definition from_extension :: "string \<Rightarrow> media_format" where
  "from_extension ext =
     (let e = map ascii_lower ext in
      if e \<in> {''rmvb'', ''rm''} then Rmvb else if e = ''avi'' then Avi else if e = ''mkv'' then Mkv else if e = ''mp4'' then Mp4
      else if e = ''wmv'' then Wmv else if e = ''flv'' then Flv else if e = ''mov'' then Mov else if e = ''ts'' then Ts
      else if e = ''webm'' then Webm else UnknownFormat)"

definition from_magic :: "bytes \<Rightarrow> media_format" where
  "from_magic bs =
     (if length bs < 4 then UnknownFormat
      else if starts_with ([0, 0, 0, 0x18] @ as_bytes ''ftypmp4'') bs \<or> starts_with (as_bytes ''ftyp'') bs then Mp4
      else if starts_with [0x1A, 0x45, 0xDF, 0xA3] bs then Mkv
      else if starts_with (as_bytes ''FLV'') bs then Flv
      else if starts_with (as_bytes ''RIFF'') bs then Avi
      else if starts_with [0x30, 0x26, 0xB2, 0x75] bs then Wmv
      else if starts_with [0x2E, 0x52, 0x4D, 0x46] bs then Rmvb
      else if starts_with [0x47, 0x40] bs then Ts
      else UnknownFormat)"

text \<open>\<open>Path::extension\<close> of a Unix path.\<close>

definition path_extension :: "string \<Rightarrow> string option" where
  "path_extension path =
     (case rev (filter (\<lambda>c. c \<noteq> [] \<and> c \<noteq> ''.'') (split_on CHR ''/'' path)) of
        [] \<Rightarrow> None
      | name # _ \<Rightarrow>
          (let parts = split_on CHR ''.'' name
           in if name = ''..'' \<or> length parts < 2 \<or> join ''.'' (butlast parts) = [] then None else Some (last parts)))"

definition probe_format :: "string \<Rightarrow> (media_format, qvod_error) result" where
  "probe_format path =
     (case path_extension path of
        Some ext \<Rightarrow> (let fmt = from_extension ext in if fmt \<noteq> UnknownFormat then Ok fmt else Ok UnknownFormat)
      | None \<Rightarrow> Ok UnknownFormat)"

section \<open>What the tolerances mean\<close>

lemma sint_diff:
  assumes "unat v < 2 ^ 63" and "unat a < 2 ^ 63"
  shows "sint (v - a :: u64) = int (unat v) - int (unat a)"
proof -
  let ?d = "int (unat v) - int (unat a)"
  have "int (unat v) < int (2 ^ 63)" "int (unat a) < int (2 ^ 63)" using assms by (simp_all only: of_nat_less_iff)
  then have d: "- (2 ^ 63) \<le> ?d" "?d < 2 ^ 63" unfolding of_nat_power of_nat_numeral by linarith+
  have "v - a = of_int ?d" by simp
  then have "sint (v - a) = signed_take_bit (LENGTH(64) - Suc 0) ?d" by (simp only: signed_of_int of_int_eq_id id_apply)
  also have "LENGTH(64) - Suc 0 = 63" by simp
  also have "signed_take_bit 63 ?d = ?d" using d by (intro signed_take_bit_int_eq_self) auto
  finally show ?thesis .
qed

text \<open>
  With the sound as master a picture more than 20 ms ahead is dropped, one more than 100 ms behind repeated, and every
  other one shown; dropped pictures are never counted.
\<close>

lemma sync_video_audio_master:
  assumes "av_strategy a = AudioMaster" and "unat v < 2 ^ 63" and "unat t < 2 ^ 63"
  shows "snd (sync_video v t a) = (if unat t + 20 < unat v then DropFrame else if unat v + 100 < unat t then RepeatFrame else RenderFrame)"
proof -
  have "20 < int (unat v) - int (unat t) \<longleftrightarrow> unat t + 20 < unat v" "int (unat v) - int (unat t) < - 100 \<longleftrightarrow> unat v + 100 < unat t"
    by linarith+
  then show ?thesis
    by (simp only: sync_video_def Let_def assms(1) sync_strategy.case snd_conv sint_diff [OF assms(2,3)])
qed

lemma dropped_frames_never_counted:
  "av_dropped_frames (fst (sync_video v t a)) = av_dropped_frames a"
  by (simp add: sync_video_def Let_def)

text \<open>The magic number of MP4 is looked for with one size of its first box and one family of brands; common files have others.\<close>

lemma common_mp4_unknown:
  "from_magic ([0, 0, 0, 0x20] @ as_bytes ''ftypisom'') = UnknownFormat" "from_magic ([0, 0, 0, 0x18] @ as_bytes ''ftypmp42'') = Mp4"
  by code_simp+

lemma probe_format_name:
  "probe_format ''/media/Film.MKV'' = Ok Mkv" "probe_format ''.mp4'' = Ok UnknownFormat" "probe_format ''a.mp4/..'' = Ok UnknownFormat"
  by code_simp+

end
