(* ===== verification/Frame_Reader.thy ===== *)
theory Frame_Reader
  imports Media_Probe Core_Types
begin

text \<open>
  The frame reader of the player over a decoder process (\<open>qvs-media/src/subprocess.rs\<close>; the reader of
  \<open>native.rs\<close> has the same interface): the thread that cuts the output of the process into frames, one step per
  read of its pipe, and the reader at the other end of the channel.
\<close>

record media_info =
  mi_width :: u32
  mi_height :: u32
  mi_duration_ms :: u64
  mi_video_codec :: string
  mi_audio_codec :: string
  mi_bitrate :: u64
  mi_fps :: f64

definition media_info_default :: media_info where
  "media_info_default = \<lparr>mi_width = 0, mi_height = 0, mi_duration_ms = 0, mi_video_codec = [], mi_audio_codec = [],
     mi_bitrate = 0, mi_fps = 0\<rparr>"

definition probe_file :: "media_probe option \<Rightarrow> (media_info, qvod_error) result" where
  "probe_file probe =
     and_then (ok_or probe (Decode ''neither ffprobe nor ffmpeg available for probing'')) (\<lambda>r.
     Ok \<lparr>mi_width = mp_width r, mi_height = mp_height r, mi_duration_ms = mp_duration_ms r, mi_video_codec = mp_video_codec r,
         mi_audio_codec = mp_audio_codec r, mi_bitrate = mp_bitrate r, mi_fps = mp_fps r\<rparr>)"

section \<open>The decoder thread\<close>

record decoder =
  dc_frame_size :: nat
  dc_buf :: bytes
  dc_offset :: nat
  dc_sent :: "bytes list"
  dc_open :: bool

definition decoder_start :: "nat \<Rightarrow> decoder" where
  "decoder_start frame_size = \<lparr>dc_frame_size = frame_size, dc_buf = replicate frame_size 0, dc_offset = 0, dc_sent = [], dc_open = True\<rparr>"

text \<open>
  One turn of the loop: whether the reader still wants frames and is still there, and what the read of the pipe gave.
  A read fills at most the rest of the buffer; reading nothing is the end of the output.
\<close>

datatype pipe_read = PrBytes bytes | PrInterrupted | PrError

definition decoder_step :: "bool \<Rightarrow> bool \<Rightarrow> pipe_read \<Rightarrow> decoder \<Rightarrow> decoder" where
  "decoder_step running receiver r d =
     (if \<not> dc_open d then d
      else if \<not> running then d\<lparr>dc_open := False\<rparr>
      else case r of
        PrBytes bs \<Rightarrow>
          (let n = length bs; buf = take (dc_offset d) (dc_buf d) @ bs @ drop (dc_offset d + n) (dc_buf d)
           in if n = 0 then d\<lparr>dc_open := False\<rparr>
              else if dc_frame_size d \<le> dc_offset d + n
              then (if receiver then d\<lparr>dc_buf := buf, dc_sent := dc_sent d @ [buf], dc_offset := 0\<rparr>
                    else d\<lparr>dc_buf := buf, dc_offset := dc_offset d + n, dc_open := False\<rparr>)
              else d\<lparr>dc_buf := buf, dc_offset := dc_offset d + n\<rparr>)
      | PrInterrupted \<Rightarrow> d
      | PrError \<Rightarrow> d\<lparr>dc_open := False\<rparr>)"

section \<open>The reader\<close>

text \<open>The channel is the frames not yet taken; \<open>fr_sender\<close>: the thread still holds its end.\<close>

record frame_reader =
  fr_queue :: "bytes list"
  fr_sender :: bool
  fr_width :: u32
  fr_height :: u32
  fr_frame_size :: nat
  fr_fps :: f64
  fr_duration_ms :: u64
  fr_position_ms :: u64
  fr_running :: bool

text \<open>The size of a frame is computed in 32 bits, which wraps in a release build.\<close>

definition frame_size :: "u32 \<Rightarrow> u32 \<Rightarrow> nat" where
  "frame_size width height = unat (width * height * 3)"

definition fr_open :: "media_probe option \<Rightarrow> (unit, string) result \<Rightarrow> (frame_reader, qvod_error) result" where
  "fr_open probe spawn =
     and_then (probe_file probe) (\<lambda>info.
     if mi_width info = 0 \<or> mi_height info = 0 then Err (Decode ''could not determine video dimensions'')
     else and_then (map_err (\<lambda>e. Decode (''decoder thread spawn: '' @ e)) spawn) (\<lambda>_.
       Ok \<lparr>fr_queue = [], fr_sender = True, fr_width = mi_width info, fr_height = mi_height info,
           fr_frame_size = frame_size (mi_width info) (mi_height info),
           fr_fps = (if 0 < mi_fps info then mi_fps info else 24), fr_duration_ms = mi_duration_ms info,
           fr_position_ms = 0, fr_running = True\<rparr>))"

text \<open>What the thread does meanwhile: it sends frames, and may end.\<close>

definition fr_deliver :: "bytes list \<Rightarrow> bool \<Rightarrow> frame_reader \<Rightarrow> frame_reader" where
  "fr_deliver frames done r =
     (if fr_sender r then r\<lparr>fr_queue := fr_queue r @ frames, fr_sender := \<not> done\<rparr> else r)"

definition fr_advance :: "frame_reader \<Rightarrow> frame_reader" where
  "fr_advance r = (if 0 < fr_fps r then r\<lparr>fr_position_ms := fr_position_ms r + f64_to_u64 (f64_div 1000 (fr_fps r))\<rparr> else r)"

text \<open>A reader that has been closed takes a frame from the channel only to see whether there is one.\<close>

definition try_read_frame :: "frame_reader \<Rightarrow> frame_reader \<times> (bytes option, qvod_error) result" where
  "try_read_frame r =
     (if \<not> fr_running r \<and> fr_queue r = [] then (r, Err (Decode ''decoder stopped''))
      else let r1 = (if fr_running r then r else r\<lparr>fr_queue := tl (fr_queue r)\<rparr>)
      in case fr_queue r1 of
           frame # q \<Rightarrow> (fr_advance (r1\<lparr>fr_queue := q\<rparr>), Ok (Some frame))
         | [] \<Rightarrow> (r1, if fr_sender r1 then Ok None else Err (Decode ''decoder disconnected'')))"

text \<open>The blocking read: \<open>next\<close> is the frame the thread sends while it waits, if it sends one before it ends.\<close>

definition read_frame :: "bytes option \<Rightarrow> frame_reader \<Rightarrow> frame_reader \<times> (bytes option, qvod_error) result" where
  "read_frame next r =
     (case fr_queue r of
        frame # q \<Rightarrow> (fr_advance (r\<lparr>fr_queue := q\<rparr>), Ok (Some frame))
      | [] \<Rightarrow>
          (case (if fr_sender r then next else None) of
             Some frame \<Rightarrow> (fr_advance r, Ok (Some frame))
           | None \<Rightarrow> (r\<lparr>fr_sender := False\<rparr>, Ok None)))"

text \<open>Closing stops the thread and waits for its end; what it still sent stays in the channel.\<close>

definition fr_close :: "bytes list \<Rightarrow> frame_reader \<Rightarrow> frame_reader" where
  "fr_close frames r = fr_deliver frames True (r\<lparr>fr_running := False\<rparr>)"

text \<open>A single frame: what the process wrote, cut to the size of a frame.\<close>

definition extract_frame :: "media_probe option \<Rightarrow> (bytes, string) result \<Rightarrow> (bytes option, qvod_error) result" where
  "extract_frame probe output =
     and_then (probe_file probe) (\<lambda>info.
     if mi_width info = 0 \<or> mi_height info = 0 then Err (Decode ''could not determine video dimensions'')
     else let fs = frame_size (mi_width info) (mi_height info)
       in and_then (map_err (\<lambda>e. Decode (''ffmpeg seek frame failed: '' @ e)) output) (\<lambda>stdout.
         Ok (if length stdout < fs then None else Some (take fs stdout))))"

section \<open>Frames are cut exactly\<close>

text \<open>
  What the operating system guarantees of the reads of a pipe: each gives at least one byte and no more than was asked
  for.
\<close>

fun reads_ok :: "nat \<Rightarrow> nat \<Rightarrow> pipe_read list \<Rightarrow> bool" where
  "reads_ok fs off [] = True"
| "reads_ok fs off (PrBytes bs # rs) \<longleftrightarrow>
     bs \<noteq> [] \<and> off + length bs \<le> fs \<and> reads_ok fs (if off + length bs = fs then 0 else off + length bs) rs"
| "reads_ok fs off (PrInterrupted # rs) = reads_ok fs off rs"
| "reads_ok fs off (PrError # rs) = False"

fun read_bytes :: "pipe_read list \<Rightarrow> bytes" where
  "read_bytes [] = []"
| "read_bytes (PrBytes bs # rs) = bs @ read_bytes rs"
| "read_bytes (_ # rs) = read_bytes rs"

abbreviation decoder_run :: "pipe_read list \<Rightarrow> decoder \<Rightarrow> decoder" where
  "decoder_run rs d \<equiv> fold (decoder_step True True) rs d"

lemma decoder_run_sent:
  assumes "dc_open d" and "length (dc_buf d) = dc_frame_size d" and "dc_offset d < dc_frame_size d"
    and "reads_ok (dc_frame_size d) (dc_offset d) rs"
  shows "dc_open (decoder_run rs d) \<and>
    dc_sent (decoder_run rs d) = dc_sent d @ chunks_exact (dc_frame_size d) (take (dc_offset d) (dc_buf d) @ read_bytes rs)"
  using assms
proof (induction rs arbitrary: d)
  case Nil
  then show ?case by (simp add: chunks_exact.simps)
next
  case (Cons r rs)
  show ?case
  proof (cases r)
    case (PrBytes bs)
    let ?n = "dc_offset d + length bs" and ?fs = "dc_frame_size d"
    let ?buf = "take (dc_offset d) (dc_buf d) @ bs @ drop ?n (dc_buf d)"
    from Cons.prems PrBytes have n: "bs \<noteq> []" "?n \<le> ?fs" by auto
    show ?thesis
    proof (cases "?n = ?fs")
      case True
      let ?d = "d\<lparr>dc_buf := ?buf, dc_sent := dc_sent d @ [?buf], dc_offset := 0\<rparr>"
      have "decoder_step True True r d = ?d" using Cons.prems(1) n True by (simp add: decoder_step_def PrBytes Let_def)
      moreover have "chunks_exact ?fs (take (dc_offset d) (dc_buf d) @ bs @ read_bytes rs) = ?buf # chunks_exact ?fs (read_bytes rs)"
        using Cons.prems(2,3) True by (subst chunks_exact.simps) simp
      ultimately show ?thesis
        using Cons.IH [of ?d] Cons.prems n True PrBytes by simp
    next
      case False
      let ?d = "d\<lparr>dc_buf := ?buf, dc_offset := ?n\<rparr>"
      have "decoder_step True True r d = ?d" using Cons.prems(1) n False by (simp add: decoder_step_def PrBytes Let_def)
      then show ?thesis
        using Cons.IH [of ?d] Cons.prems n False PrBytes by simp
    qed
  next
    case PrInterrupted
    then have "decoder_step True True r d = d" by (simp add: decoder_step_def)
    with Cons PrInterrupted show ?thesis by simp
  next
    case PrError
    with Cons.prems show ?thesis by simp
  qed
qed

text \<open>
  C23: however the operating system splits the output of the decoder process into reads, the frames the thread sends
  are its consecutive pieces of the size of a frame, in order and without gaps; an incomplete last piece is not sent.
\<close>

theorem decoder_frames_exact:
  assumes "0 < fs" and "reads_ok fs 0 rs"
  shows "dc_sent (fold (decoder_step True True) rs (decoder_start fs)) = chunks_exact fs (read_bytes rs)"
  using decoder_run_sent [of "decoder_start fs" rs] assms by (simp add: decoder_start_def)

theorem decoder_frames_exact_witness:
  "dc_sent (fold (decoder_step True True) [PrBytes [1, 2], PrInterrupted, PrBytes [3], PrBytes [4], PrBytes [5, 6], PrBytes [7]] (decoder_start 3)) =
    [[1, 2, 3], [4, 5, 6]]"
  using decoder_frames_exact [of 3 "[PrBytes [1, 2], PrInterrupted, PrBytes [3], PrBytes [4], PrBytes [5, 6], PrBytes [7]]"]
  by (simp add: chunks_exact.simps)

text \<open>A video whose frames have a multiple of \<open>2 ^ 32\<close> bytes gets frames of size 0: the first read ends the thread.\<close>

lemma frame_size_wraps: "frame_size 65536 65536 = 0"
  by code_simp

lemma decoder_empty_frame: "\<not> dc_open (decoder_step True True (PrBytes []) (decoder_start 0))"
  by (simp add: decoder_step_def decoder_start_def)

section \<open>The reader\<close>

text \<open>A running reader gives the frames of the channel in order; then it waits for more or reports the end.\<close>

lemma try_read_running:
  assumes "fr_running r"
  shows "snd (try_read_frame r) = (case fr_queue r of frame # _ \<Rightarrow> Ok (Some frame)
      | [] \<Rightarrow> if fr_sender r then Ok None else Err (Decode ''decoder disconnected''))"
    and "fr_queue (fst (try_read_frame r)) = tl (fr_queue r)"
  using assms by (auto simp: try_read_frame_def fr_advance_def split: list.split)

text \<open>A closed one drops every other frame.\<close>

lemma closed_reader_drops:
  "\<not> fr_running r \<Longrightarrow> fr_queue r = a # b # q \<Longrightarrow>
    snd (try_read_frame r) = Ok (Some b) \<and> fr_queue (fst (try_read_frame r)) = q"
  by (simp add: try_read_frame_def fr_advance_def)

end
