(* ===== verification/Frame_Session.thy ===== *)
theory Frame_Session
  imports Frame_Reader "HOL-Library.Sublist"
begin

text \<open>
  A decoder thread together with the reader at the other end of its channel, for either of the two decoders
  (\<open>qvs-media/src/subprocess.rs\<close> and \<open>native.rs\<close>). The locale states what the reader relies on: a thread sends frames
  one behind the other, and ends. What follows for the pictures the player gets is proved once, inside it.
\<close>

section \<open>Sessions\<close>

record 'd frame_session =
  nx_thread :: 'd
  nx_reader :: frame_reader
  nx_got :: "bytes list"

text \<open>A turn of the thread; a poll of the player; closing, which waits for the end of the thread.\<close>

datatype session_event = NxTurn | NxTry | NxClose

definition thread_runs :: "('d \<Rightarrow> bytes list) \<Rightarrow> ('d \<Rightarrow> bool) \<Rightarrow> ('d \<Rightarrow> 'd) \<Rightarrow> 'd frame_session \<Rightarrow> 'd frame_session" where
  "thread_runs sent alive f x =
     (let d = nx_thread x; d1 = f d
      in x\<lparr>nx_thread := d1, nx_reader := fr_deliver (drop (length (sent d)) (sent d1)) (\<not> alive d1) (nx_reader x)\<rparr>)"

definition got_frame :: "(bytes option, qvod_error) result \<Rightarrow> bytes list" where
  "got_frame r = (case r of Ok (Some frame) \<Rightarrow> [frame] | _ \<Rightarrow> [])"

text \<open>\<open>turn r\<close>: what the thread does in a turn, \<open>r\<close> the flag that lets it run; \<open>turns\<close>: a bound on the turns it takes.\<close>

fun nx_step :: "('d \<Rightarrow> bytes list) \<Rightarrow> ('d \<Rightarrow> bool) \<Rightarrow> (bool \<Rightarrow> 'd \<Rightarrow> 'd) \<Rightarrow> ('d \<Rightarrow> nat) \<Rightarrow> session_event \<Rightarrow> 'd frame_session \<Rightarrow> 'd frame_session" where
  "nx_step sent alive turn turns NxTurn x = thread_runs sent alive (turn (fr_running (nx_reader x))) x"
| "nx_step sent alive turn turns NxTry x =
     (let (r, res) = try_read_frame (nx_reader x) in x\<lparr>nx_reader := r, nx_got := nx_got x @ got_frame res\<rparr>)"
| "nx_step sent alive turn turns NxClose x =
     thread_runs sent alive (turn False ^^ turns (nx_thread x)) (x\<lparr>nx_reader := (nx_reader x)\<lparr>fr_running := False\<rparr>\<rparr>)"

definition nx_start :: "('d \<Rightarrow> bool) \<Rightarrow> 'd \<Rightarrow> frame_reader \<Rightarrow> 'd frame_session" where
  "nx_start alive d reader = \<lparr>nx_thread = d, nx_reader = reader\<lparr>fr_queue := [], fr_sender := alive d, fr_running := True\<rparr>, nx_got = []\<rparr>"

lemma fr_advance_fields:
  "fr_queue (fr_advance r) = fr_queue r" "fr_sender (fr_advance r) = fr_sender r" "fr_running (fr_advance r) = fr_running r"
  by (simp_all add: fr_advance_def)

lemma try_read_cases:
  assumes "fr_running r"
  shows "try_read_frame r = (case fr_queue r of
      frame # q \<Rightarrow> (fr_advance (r\<lparr>fr_queue := q\<rparr>), Ok (Some frame))
    | [] \<Rightarrow> (r, if fr_sender r then Ok None else Err (Decode ''decoder disconnected'')))"
  using assms by (auto simp: try_read_frame_def split: list.split)

section \<open>What a reader relies on\<close>

text \<open>\<open>left d\<close>: the frames a thread still sends when it may run to its end.\<close>

locale frame_thread =
  fixes sent :: "'d \<Rightarrow> bytes list" and alive :: "'d \<Rightarrow> bool" and turn :: "bool \<Rightarrow> 'd \<Rightarrow> 'd" and turns :: "'d \<Rightarrow> nat"
    and left :: "'d \<Rightarrow> bytes list" and ok :: "'d \<Rightarrow> bool"
  assumes turn_ok: "ok d \<Longrightarrow> ok (turn True d)"
    and turn_frames: "ok d \<Longrightarrow> sent (turn True d) @ left (turn True d) = sent d @ left d"
    and turn_prefix: "prefix (sent d) (sent (turn r d))"
    and turns_less: "alive d \<Longrightarrow> turns (turn r d) < turns d"
    and dead_turn: "\<not> alive d \<Longrightarrow> turn r d = d"
    and dead_left: "\<not> alive d \<Longrightarrow> left d = []"
begin

lemma thread_ends: "turns d \<le> n \<Longrightarrow> \<not> alive ((turn r ^^ n) d)"
proof (induction n arbitrary: d)
  case 0
  with turns_less [of d r] show ?case by auto
next
  case (Suc n)
  show ?case
  proof (cases "alive d")
    case True
    with turns_less [OF True, of r] Suc.prems Suc.IH [of "turn r d"] show ?thesis by (simp add: funpow_swap1)
  next
    case False
    then show ?thesis by (induction n) (simp_all add: dead_turn)
  qed
qed

text \<open>While the reader is not closed: what was taken and what waits is what was sent, and with what is left it is everything.\<close>

definition session_inv :: "bytes list \<Rightarrow> 'd frame_session \<Rightarrow> bool" where
  "session_inv all x \<longleftrightarrow> ok (nx_thread x) \<and> fr_running (nx_reader x) \<and> fr_sender (nx_reader x) = alive (nx_thread x) \<and>
     sent (nx_thread x) = nx_got x @ fr_queue (nx_reader x) \<and> sent (nx_thread x) @ left (nx_thread x) = all"

lemma turn_inv:
  assumes "session_inv all x"
  shows "session_inv all (nx_step sent alive turn turns NxTurn x)"
proof -
  let ?d = "nx_thread x" and ?d1 = "turn True (nx_thread x)"
  obtain new where new: "sent ?d1 = sent ?d @ new" using turn_prefix by (metis prefixE)
  have "new = []" if "\<not> alive ?d" using new dead_turn [OF that, of True] by simp
  with assms new turn_frames [of ?d] turn_ok [of ?d] dead_turn [of ?d True] show ?thesis
    by (auto simp: session_inv_def thread_runs_def fr_deliver_def Let_def)
qed

lemma try_inv:
  assumes "session_inv all x"
  shows "session_inv all (nx_step sent alive turn turns NxTry x)"
  using assms by (auto simp: session_inv_def try_read_cases fr_advance_fields got_frame_def split: list.splits)

lemma run_inv: "session_inv all x \<Longrightarrow> NxClose \<notin> set evs \<Longrightarrow> session_inv all (fold (nx_step sent alive turn turns) evs x)"
proof (induction evs arbitrary: x)
  case (Cons ev evs)
  have "session_inv all (nx_step sent alive turn turns ev x)" using Cons.prems turn_inv try_inv by (cases ev) auto
  with Cons show ?case by simp
qed simp

lemma inv_dead: "session_inv all x \<Longrightarrow> \<not> alive (nx_thread x) \<Longrightarrow> nx_got x @ fr_queue (nx_reader x) = all"
  using dead_left by (auto simp: session_inv_def)

lemma turns_thread:
  "session_inv all x \<Longrightarrow> nx_thread (fold (nx_step sent alive turn turns) (replicate n NxTurn) x) = (turn True ^^ n) (nx_thread x)"
proof (induction n arbitrary: x)
  case (Suc n)
  from Suc.IH [OF turn_inv [OF Suc.prems]] Suc.prems show ?case
    by (simp add: thread_runs_def session_inv_def Let_def funpow_swap1)
qed simp

lemma tries_got:
  "session_inv all x \<Longrightarrow>
    nx_got (fold (nx_step sent alive turn turns) (replicate n NxTry) x) = nx_got x @ take n (fr_queue (nx_reader x))"
proof (induction n arbitrary: x)
  case (Suc n)
  from Suc.IH [OF try_inv [OF Suc.prems]] Suc.prems show ?case
    by (cases "fr_queue (nx_reader x)") (auto simp: session_inv_def try_read_cases fr_advance_fields got_frame_def)
qed simp

lemma frames_arrive:
  assumes "ok d" and "sent d = []" and "NxClose \<notin> set evs"
  shows "let x = fold (nx_step sent alive turn turns) evs (nx_start alive d reader)
    in prefix (nx_got x) (left d) \<and> (is_err (snd (try_read_frame (nx_reader x))) \<longrightarrow> nx_got x = left d) \<and>
       (\<exists>n k. nx_got (fold (nx_step sent alive turn turns) (replicate n NxTurn @ replicate k NxTry) x) = left d)"
proof -
  let ?x = "fold (nx_step sent alive turn turns) evs (nx_start alive d reader)"
  have "session_inv (left d) (nx_start alive d reader)" using assms(1,2) by (simp add: session_inv_def nx_start_def)
  from run_inv [OF this assms(3)] have inv: "session_inv (left d) ?x" .
  then have "prefix (nx_got ?x) (left d)" unfolding session_inv_def by (metis append_assoc prefixI)
  moreover have "nx_got ?x = left d" if "is_err (snd (try_read_frame (nx_reader ?x)))"
    using that inv inv_dead [OF inv] by (auto simp: session_inv_def try_read_cases split: list.splits if_splits)
  moreover have "\<exists>n k. nx_got (fold (nx_step sent alive turn turns) (replicate n NxTurn @ replicate k NxTry) ?x) = left d"
  proof -
    let ?n = "turns (nx_thread ?x)"
    let ?y = "fold (nx_step sent alive turn turns) (replicate ?n NxTurn) ?x"
    have y: "session_inv (left d) ?y" by (rule run_inv [OF inv]) auto
    have "\<not> alive (nx_thread ?y)" using turns_thread [OF inv, of ?n] thread_ends [OF le_refl] by simp
    then have all: "nx_got ?y @ fr_queue (nx_reader ?y) = left d" by (rule inv_dead [OF y])
    have "nx_got (fold (nx_step sent alive turn turns) (replicate (length (fr_queue (nx_reader ?y))) NxTry) ?y) = left d"
      using tries_got [OF y, of "length (fr_queue (nx_reader ?y))"] all by simp
    then show ?thesis unfolding fold_append comp_apply by blast
  qed
  ultimately show ?thesis by (simp add: Let_def)
qed

end

section \<open>The decoder process\<close>

text \<open>The thread with the reads its pipe still gives; behind the last one the pipe is at its end.\<close>

type_synonym pipe_thread = "decoder \<times> pipe_read list"

definition pipe_turn :: "bool \<Rightarrow> pipe_thread \<Rightarrow> pipe_thread" where
  "pipe_turn running t =
     (if \<not> dc_open (fst t) then t
      else case snd t of
        [] \<Rightarrow> (decoder_step running True (PrBytes []) (fst t), [])
      | r # rs \<Rightarrow> (decoder_step running True r (fst t), rs))"

definition pipe_turns :: "pipe_thread \<Rightarrow> nat" where
  "pipe_turns t = (if dc_open (fst t) then length (snd t) + 1 else 0)"

definition pipe_frames :: "pipe_thread \<Rightarrow> bytes list" where
  "pipe_frames t =
     (if dc_open (fst t) then chunks_exact (dc_frame_size (fst t)) (take (dc_offset (fst t)) (dc_buf (fst t)) @ read_bytes (snd t)) else [])"

definition pipe_ok :: "pipe_thread \<Rightarrow> bool" where
  "pipe_ok t \<longleftrightarrow> (dc_open (fst t) \<longrightarrow> length (dc_buf (fst t)) = dc_frame_size (fst t) \<and> dc_offset (fst t) < dc_frame_size (fst t) \<and>
     reads_ok (dc_frame_size (fst t)) (dc_offset (fst t)) (snd t))"

lemma decoder_step_read:
  assumes "dc_open d" and "pipe_ok (d, r # rs)"
  shows "dc_open (decoder_step True True r d) \<and> dc_frame_size (decoder_step True True r d) = dc_frame_size d \<and>
    pipe_ok (decoder_step True True r d, rs)"
  using assms by (cases r) (auto simp: pipe_ok_def decoder_step_def Let_def)

lemma pipe_turn_frames:
  assumes "pipe_ok t"
  shows "dc_sent (fst (pipe_turn True t)) @ pipe_frames (pipe_turn True t) = dc_sent (fst t) @ pipe_frames t"
proof -
  obtain d rs where t: "t = (d, rs)" by fastforce
  show ?thesis
  proof (cases "dc_open d")
    case False
    then show ?thesis by (simp add: t pipe_turn_def pipe_frames_def)
  next
    case True
    show ?thesis
    proof (cases rs)
      case Nil
      with True assms show ?thesis
        by (simp add: t pipe_turn_def pipe_frames_def pipe_ok_def decoder_step_def chunks_exact.simps)
    next
      case (Cons r rest)
      let ?d1 = "decoder_step True True r d"
      have s: "dc_open ?d1" "pipe_ok (?d1, rest)"
        using decoder_step_read [OF True, of r rest] assms by (simp_all add: t Cons)
      have a: "dc_sent (decoder_run (r # rest) d) = dc_sent d @ pipe_frames (d, r # rest)"
        using decoder_run_sent [OF True, of "r # rest"] assms True by (simp add: t Cons pipe_frames_def pipe_ok_def)
      have b: "dc_sent (decoder_run rest ?d1) = dc_sent ?d1 @ pipe_frames (?d1, rest)"
        using decoder_run_sent [of ?d1 rest] s by (simp add: pipe_frames_def pipe_ok_def)
      from a b True show ?thesis by (simp add: t Cons pipe_turn_def)
    qed
  qed
qed

lemma decoder_step_prefix: "prefix (dc_sent d) (dc_sent (decoder_step running receiver r d))"
  by (auto simp: decoder_step_def Let_def split: pipe_read.split)

interpretation pipe: frame_thread "\<lambda>t. dc_sent (fst t)" "\<lambda>t. dc_open (fst t)" pipe_turn pipe_turns pipe_frames pipe_ok
proof unfold_locales
  fix t :: pipe_thread and r
  show "pipe_ok t \<Longrightarrow> pipe_ok (pipe_turn True t)"
    using decoder_step_read [of "fst t"] by (cases t; cases "snd t") (auto simp: pipe_turn_def pipe_ok_def decoder_step_def)
  show "pipe_ok t \<Longrightarrow> dc_sent (fst (pipe_turn True t)) @ pipe_frames (pipe_turn True t) = dc_sent (fst t) @ pipe_frames t"
    by (rule pipe_turn_frames)
  show "prefix (dc_sent (fst t)) (dc_sent (fst (pipe_turn r t)))"
    by (auto simp: pipe_turn_def decoder_step_prefix split: list.split)
  show "dc_open (fst t) \<Longrightarrow> pipe_turns (pipe_turn r t) < pipe_turns t"
    by (auto simp: pipe_turn_def pipe_turns_def decoder_step_def split: list.split)
  show "\<not> dc_open (fst t) \<Longrightarrow> pipe_turn r t = t" by (simp add: pipe_turn_def)
  show "\<not> dc_open (fst t) \<Longrightarrow> pipe_frames t = []" by (simp add: pipe_frames_def)
qed

text \<open>So the frames cut out of the output of the decoder process reach the player, however its reads fall.\<close>

lemma pipe_frames_arrive:
  assumes "0 < fs" and "reads_ok fs 0 rs" and "NxClose \<notin> set evs"
  shows "let step = nx_step (\<lambda>t. dc_sent (fst t)) (\<lambda>t. dc_open (fst t)) pipe_turn pipe_turns;
             x = fold step evs (nx_start (\<lambda>t. dc_open (fst t)) (decoder_start fs, rs) reader);
             all = chunks_exact fs (read_bytes rs)
    in prefix (nx_got x) all \<and> (is_err (snd (try_read_frame (nx_reader x))) \<longrightarrow> nx_got x = all) \<and>
       (\<exists>n k. nx_got (fold step (replicate n NxTurn @ replicate k NxTry) x) = all)"
  using pipe.frames_arrive [of "(decoder_start fs, rs)" evs reader] assms
  by (simp add: decoder_start_def pipe_ok_def pipe_frames_def Let_def)

end
