(* ===== verification/Native_Reader.thy ===== *)
theory Native_Reader
  imports Frame_Session File_Meta
begin

text \<open>
  The frame reader of the default build (\<open>qvs-media/src/native.rs\<close>), which drives the libraries of ffmpeg in a
  thread. What these do is an argument: the streams of a container, the packets, and for every frame a decoder gives, what
  the scaler makes of it. The reader at the other end of the channel is the one of \<open>Frame_Reader\<close>; the two together are a
  session of \<open>Frame_Session\<close>, whose locale is interpreted here.
\<close>

section \<open>Probing\<close>

datatype medium = VideoStream | AudioStream | OtherStream

text \<open>A stream: the name of its codec, the size its decoder reports when it opens, its mean frame rate as a quotient.\<close>

record native_stream =
  nst_medium :: medium
  nst_codec :: string
  nst_decoder :: "(u32 \<times> u32) option"
  nst_rate :: "int \<times> int"

record container =
  ct_duration :: u64
  ct_streams :: "native_stream list"

text \<open>Microseconds as a signed number, to milliseconds: the quotient is cut towards 0, the cast keeps the bits.\<close>

definition container_ms :: "u64 \<Rightarrow> u64" where
  "container_ms d = (let x = sint d in word_of_int (if x < 0 then - ((- x) div 1000) else x div 1000))"

text \<open>A rate without a denominator is not a number; it compares as 0 does.\<close>

definition native_fps :: "int \<times> int \<Rightarrow> f64" where
  "native_fps rate = (if snd rate = 0 then 0 else f64_div (of_int (fst rate)) (of_int (snd rate)))"

definition probe_stream :: "native_stream \<Rightarrow> media_info \<Rightarrow> media_info" where
  "probe_stream s info =
     (case nst_medium s of
        VideoStream \<Rightarrow>
          (let info1 = (case nst_decoder s of
                 Some (w, h) \<Rightarrow> info\<lparr>mi_width := w, mi_height := h, mi_video_codec := map ascii_lower (nst_codec s)\<rparr>
               | None \<Rightarrow> info)
           in info1\<lparr>mi_fps := native_fps (nst_rate s)\<rparr>)
      | AudioStream \<Rightarrow> (if mi_audio_codec info = [] then info\<lparr>mi_audio_codec := map ascii_lower (nst_codec s)\<rparr> else info)
      | OtherStream \<Rightarrow> info)"

definition native_probe :: "(unit, string) result \<Rightarrow> (container, string) result \<Rightarrow> (media_info, qvod_error) result" where
  "native_probe init input =
     and_then (map_err (\<lambda>e. Decode (''ffmpeg init failed: '' @ e)) init) (\<lambda>_.
     and_then (map_err (\<lambda>e. Decode (''ffmpeg open failed: '' @ e)) input) (\<lambda>c.
     Ok (fold probe_stream (ct_streams c) (media_info_default\<lparr>mi_duration_ms := container_ms (ct_duration c)\<rparr>))))"

definition native_open :: "(media_info, qvod_error) result \<Rightarrow> (unit, string) result \<Rightarrow> (frame_reader, qvod_error) result" where
  "native_open probe spawn =
     and_then probe (\<lambda>info.
     if mi_width info = 0 \<or> mi_height info = 0 then Err (Decode ''could not determine video dimensions'')
     else let fs = frame_size (mi_width info) (mi_height info); fps = (if 0 < mi_fps info then mi_fps info else 24)
       in and_then (map_err (\<lambda>e. Decode (''decoder thread spawn: '' @ e)) spawn) (\<lambda>_.
         Ok \<lparr>fr_queue = [], fr_sender = True, fr_width = mi_width info, fr_height = mi_height info, fr_frame_size = fs,
             fr_fps = fps, fr_duration_ms = mi_duration_ms info, fr_position_ms = 0, fr_running = True\<rparr>))"

section \<open>The decoder thread\<close>

text \<open>A frame of the decoder: converted to the bytes of a picture, or refused by the scaler.\<close>

datatype scaled = Scaled bytes | ScalerFailed

text \<open>
  The packets that are left, each with its stream and the frames the decoder gives once it has it; the frames of the current
  packet; the frames the decoder still gives at the end of the input.
\<close>

record native_decoder =
  nv_stream :: nat
  nv_packets :: "(nat \<times> scaled list) list"
  nv_frames :: "scaled list"
  nv_flush :: "scaled list"
  nv_flushing :: bool
  nv_sent :: "bytes list"
  nv_open :: bool

text \<open>What has to succeed before the first packet is read.\<close>

record native_setup =
  nu_init :: "(unit, string) result"
  nu_input :: "((nat \<times> scaled list) list \<times> scaled list, string) result"
  nu_best :: "nat option"
  nu_context :: "(unit, string) result"
  nu_decoder :: "(unit, string) result"
  nu_scaler :: "(unit, string) result"

definition native_start :: "native_setup \<Rightarrow> (native_decoder, qvod_error) result" where
  "native_start u =
     and_then (map_err (\<lambda>e. Decode (''ffmpeg init: '' @ e)) (nu_init u)) (\<lambda>_.
     and_then (map_err (\<lambda>e. Decode (''open input: '' @ e)) (nu_input u)) (\<lambda>(packets, flush).
     and_then (ok_or (nu_best u) (Decode ''no video stream found'')) (\<lambda>stream.
     and_then (map_err (\<lambda>e. Decode (''create decoder context: '' @ e)) (nu_context u)) (\<lambda>_.
     and_then (map_err (\<lambda>e. Decode (''open decoder: '' @ e)) (nu_decoder u)) (\<lambda>_.
     and_then (map_err (\<lambda>e. Decode (''create scaler: '' @ e)) (nu_scaler u)) (\<lambda>_.
     Ok \<lparr>nv_stream = stream, nv_packets = packets, nv_frames = [], nv_flush = flush, nv_flushing = False, nv_sent = [], nv_open = True\<rparr>))))))"

text \<open>A thread that cannot start logs the error and gives up its end of the channel.\<close>

definition decoder_thread :: "native_setup \<Rightarrow> native_decoder" where
  "decoder_thread u =
     (case native_start u of
        Ok d \<Rightarrow> d
      | _ \<Rightarrow> \<lparr>nv_stream = 0, nv_packets = [], nv_frames = [], nv_flush = [], nv_flushing = False, nv_sent = [], nv_open = False\<rparr>)"

text \<open>
  One turn of its loops: a frame of the current packet, or the next packet. A frame the scaler refuses is left out while
  packets come, and ends the thread once they have ended.
\<close>

definition native_step :: "bool \<Rightarrow> bool \<Rightarrow> native_decoder \<Rightarrow> native_decoder" where
  "native_step running receiver d =
     (if \<not> nv_open d then d
      else case nv_frames d of
        Scaled data # fs \<Rightarrow>
          (if receiver then d\<lparr>nv_frames := fs, nv_sent := nv_sent d @ [data]\<rparr> else d\<lparr>nv_frames := fs, nv_open := False\<rparr>)
      | ScalerFailed # fs \<Rightarrow> (if nv_flushing d then d\<lparr>nv_frames := fs, nv_open := False\<rparr> else d\<lparr>nv_frames := fs\<rparr>)
      | [] \<Rightarrow>
          (if nv_flushing d then d\<lparr>nv_open := False\<rparr>
           else case nv_packets d of
             [] \<Rightarrow> d\<lparr>nv_flushing := True, nv_frames := nv_flush d\<rparr>
           | (index, fs) # ps \<Rightarrow>
               (if \<not> running then d\<lparr>nv_packets := ps, nv_open := False\<rparr>
                else if index = nv_stream d then d\<lparr>nv_packets := ps, nv_frames := fs\<rparr>
                else d\<lparr>nv_packets := ps\<rparr>)))"

text \<open>A single frame is the first one, whatever the time that was asked for.\<close>

definition native_extract_frame :: "(frame_reader, qvod_error) result \<Rightarrow> bytes option \<Rightarrow> u64 \<Rightarrow> (bytes option, qvod_error) result" where
  "native_extract_frame opened next timestamp_ms = and_then opened (\<lambda>reader. snd (read_frame next reader))"

section \<open>Every frame arrives, once and in order\<close>

fun scaled_frames :: "scaled list \<Rightarrow> bytes list" where
  "scaled_frames [] = []"
| "scaled_frames (Scaled data # fs) = data # scaled_frames fs"
| "scaled_frames (ScalerFailed # fs) = scaled_frames fs"

fun scaled_prefix :: "scaled list \<Rightarrow> bytes list" where
  "scaled_prefix (Scaled data # fs) = data # scaled_prefix fs"
| "scaled_prefix _ = []"

text \<open>The frames of the packets of one stream, then those of the flush up to the first the scaler refuses.\<close>

definition packet_frames :: "nat \<Rightarrow> (nat \<times> scaled list) list \<Rightarrow> bytes list" where
  "packet_frames stream ps = concat (map (\<lambda>(index, fs). if index = stream then scaled_frames fs else []) ps)"

definition native_frames :: "native_decoder \<Rightarrow> bytes list" where
  "native_frames d =
     (if \<not> nv_open d then []
      else if nv_flushing d then scaled_prefix (nv_frames d)
      else scaled_frames (nv_frames d) @ packet_frames (nv_stream d) (nv_packets d) @ scaled_prefix (nv_flush d))"

lemma native_step_frames:
  "nv_sent (native_step True True d) @ native_frames (native_step True True d) = nv_sent d @ native_frames d"
  by (cases "nv_frames d" rule: scaled_frames.cases; cases "nv_packets d")
    (auto simp: native_step_def native_frames_def packet_frames_def split: list.split)

lemma native_step_prefix: "prefix (nv_sent d) (nv_sent (native_step running receiver d))"
  by (auto simp: native_step_def split: list.split scaled.split prod.split)

text \<open>The turns the thread still needs.\<close>

definition native_turns :: "native_decoder \<Rightarrow> nat" where
  "native_turns d =
     (if \<not> nv_open d then 0
      else length (nv_frames d) + 1 +
        (if nv_flushing d then 0 else sum_list (map (\<lambda>(index, fs). length fs + 1) (nv_packets d)) + length (nv_flush d) + 1))"

lemma native_step_turns: "nv_open d \<Longrightarrow> native_turns (native_step running receiver d) < native_turns d"
  by (cases "nv_frames d" rule: scaled_frames.cases; cases "nv_packets d")
    (auto simp: native_step_def native_turns_def split: list.split)

lemma native_closed: "\<not> nv_open d \<Longrightarrow> native_step running receiver d = d"
  by (simp add: native_step_def)

section \<open>Thread and player\<close>

abbreviation native_turn :: "bool \<Rightarrow> native_decoder \<Rightarrow> native_decoder" where
  "native_turn running d \<equiv> native_step running True d"

interpretation native: frame_thread nv_sent nv_open native_turn native_turns native_frames "\<lambda>d. True"
proof unfold_locales
  show "nv_sent (native_turn True d) @ native_frames (native_turn True d) = nv_sent d @ native_frames d" for d by (rule native_step_frames)
  show "prefix (nv_sent d) (nv_sent (native_turn r d))" for d r by (rule native_step_prefix)
  show "nv_open d \<Longrightarrow> native_turns (native_turn r d) < native_turns d" for d r by (rule native_step_turns)
  show "\<not> nv_open d \<Longrightarrow> native_turn r d = d" for d r by (rule native_closed)
  show "\<not> nv_open d \<Longrightarrow> native_frames d = []" for d by (simp add: native_frames_def)
qed simp

definition native_session_step :: "session_event \<Rightarrow> native_decoder frame_session \<Rightarrow> native_decoder frame_session" where
  "native_session_step = nx_step nv_sent nv_open native_turn native_turns"

text \<open>
  C22: the pictures of a video reach the player, each once and in order. However the turns of the decoder thread and the
  polls of the player alternate, what the player has got is a first part of the frames of the video stream; when a
  poll reports the end, it is all of them; and turns and polls enough lead there, so neither side waits for ever. The frames
  are those the scaler yields, in the flush at the end up to the first that it refuses.
\<close>

theorem native_frames_arrive:
  assumes "nv_sent d = []" and "NxClose \<notin> set evs"
  shows "let x = fold native_session_step evs (nx_start nv_open d reader)
    in prefix (nx_got x) (native_frames d) \<and> (is_err (snd (try_read_frame (nx_reader x))) \<longrightarrow> nx_got x = native_frames d) \<and>
       (\<exists>n k. nx_got (fold native_session_step (replicate n NxTurn @ replicate k NxTry) x) = native_frames d)"
  unfolding native_session_step_def using assms by (intro native.frames_arrive) auto

definition sample_decoder :: native_decoder where
  "sample_decoder = \<lparr>nv_stream = 1, nv_packets = [(0, [Scaled [9]]), (1, [Scaled [1], ScalerFailed]), (1, [Scaled [2], Scaled [3]])],
     nv_frames = [], nv_flush = [Scaled [4], ScalerFailed, Scaled [5]], nv_flushing = False, nv_sent = [], nv_open = True\<rparr>"

definition sample_reader :: frame_reader where
  "sample_reader = \<lparr>fr_queue = [], fr_sender = True, fr_width = 1, fr_height = 1, fr_frame_size = 3, fr_fps = 25, fr_duration_ms = 0,
     fr_position_ms = 0, fr_running = True\<rparr>"

theorem native_frames_arrive_witness:
  "native_frames sample_decoder = [[1], [2], [3], [4]] \<and>
   (let x = fold native_session_step [NxTurn, NxTry, NxTurn, NxTurn, NxTry] (nx_start nv_open sample_decoder sample_reader)
    in prefix (nx_got x) [[1], [2], [3], [4]])"
proof -
  have f: "native_frames sample_decoder = [[1], [2], [3], [4]]"
    by (simp add: native_frames_def sample_decoder_def packet_frames_def)
  from native_frames_arrive [of sample_decoder "[NxTurn, NxTry, NxTurn, NxTurn, NxTry]" sample_reader] show ?thesis
    unfolding f Let_def by (simp add: sample_decoder_def del: fold_simps)
qed

section \<open>What the player does not get\<close>

text \<open>One frame the scaler refuses while the decoder is flushed: the frames behind it are lost, unlike before.\<close>

lemma flush_stops_at_failure:
  "scaled_prefix (ScalerFailed # fs) = []" "scaled_frames (ScalerFailed # fs) = scaled_frames fs"
  by simp_all

text \<open>
  Size and rate of the picture are those of the last video stream, a cover picture for instance, but the frames are those of the
  stream that ffmpeg finds best.
\<close>

lemma last_video_stream_wins:
  "native_probe (Ok ()) (Ok \<lparr>ct_duration = 10000000, ct_streams =
      [\<lparr>nst_medium = VideoStream, nst_codec = ''H264'', nst_decoder = Some (1920, 1080), nst_rate = (25, 1)\<rparr>,
       \<lparr>nst_medium = VideoStream, nst_codec = ''MJPEG'', nst_decoder = Some (300, 300), nst_rate = (0, 0)\<rparr>]\<rparr>) =
    Ok \<lparr>mi_width = 300, mi_height = 300, mi_duration_ms = 10000, mi_video_codec = ''mjpeg'', mi_audio_codec = [], mi_bitrate = 0, mi_fps = 0\<rparr>"
  by code_simp

text \<open>A container that does not know its duration has the smallest signed number, which becomes a huge unsigned one.\<close>

lemma unknown_duration_huge: "container_ms (of_int (- (2 ^ 63))) = of_int (- 9223372036854775)"
proof -
  have "sint (of_int (- (2 ^ 63)) :: u64) = - (2 ^ 63)" by (simp add: signed_of_int signed_take_bit_int_eq_self)
  then show ?thesis by (simp only: container_ms_def Let_def) simp
qed

text \<open>
  A picture is copied with the padding of its lines, but drawn as if there were none: a red dot above a green one, in lines
  of four bytes, gives a second dot that has lost its first byte.
\<close>

lemma padding_skews_picture:
  "let picture = [[255, 0, 0], [0, 255, 0]] :: bytes list; data = concat (map (\<lambda>line. line @ [7]) picture)
   in take (1 * 2 * 3) data \<noteq> concat picture"
  by (simp add: Let_def)

section \<open>Parts without a decoder\<close>

text \<open>
  The types of \<open>demuxer.rs\<close>, \<open>decoder.rs\<close>, \<open>renderer.rs\<close> and \<open>resampler.rs\<close> have no state and
  fixed answers; nothing of the player calls them.
\<close>

record stream_info =
  smi_codec :: string
  smi_resolution :: "u32 \<times> u32"
  smi_bitrate :: u64
  smi_duration_ms :: u64

record media_frame =
  mf_data :: bytes
  mf_pts_ms :: u64
  mf_keyframe :: bool

definition demuxer_open :: "string \<Rightarrow> (unit, qvod_error) result" where
  "demuxer_open path = Ok ()"

definition demuxer_read_frame :: "(media_frame, qvod_error) result" where
  "demuxer_read_frame = Err (UnsupportedFormat ''ffmpeg not available'')"

definition demuxer_seek :: "u64 \<Rightarrow> (unit, qvod_error) result" where
  "demuxer_seek timestamp_ms = Err (UnsupportedFormat ''ffmpeg not available'')"

definition demuxer_info :: stream_info where
  "demuxer_info = \<lparr>smi_codec = [], smi_resolution = (0, 0), smi_bitrate = 0, smi_duration_ms = 0\<rparr>"

definition ffmpeg_demuxer_open :: "string \<Rightarrow> (unit, qvod_error) result" where
  "ffmpeg_demuxer_open path = Err (UnsupportedFormat ''ffmpeg not available in this build'')"

definition extract_metadata :: "'a \<Rightarrow> file_meta" where
  "extract_metadata stream = \<lparr>fm_info_hash = InfoHash (replicate 20 0), fm_filename = [], fm_file_size = 0, fm_piece_length = 262144,
     fm_pieces = [], fm_keyframe_index = None, fm_duration_ms = 0, fm_video_codec = None, fm_audio_codec = None, fm_width = 0,
     fm_height = 0, fm_bitrate = 0, fm_from_cache = False\<rparr>"

record video_frame =
  vf_data :: bytes
  vf_width :: u32
  vf_height :: u32
  vf_pts_ms :: u64
  vf_keyframe :: bool

definition decode_video :: "bytes \<Rightarrow> (video_frame, qvod_error) result" where
  "decode_video packet = Err (Decode ''video decoder not available'')"

record audio_frame =
  af_samples :: "rat list"
  af_sample_rate :: u32
  af_channels :: u16
  af_pts_ms :: u64

definition decode_audio :: "bytes \<Rightarrow> (audio_frame, qvod_error) result" where
  "decode_audio packet = Err (Decode ''audio decoder not available'')"

definition render_frame :: "bytes \<Rightarrow> u32 \<Rightarrow> u32 \<Rightarrow> (unit, qvod_error) result" where
  "render_frame frame width height = Ok ()"

definition play_audio :: "rat list \<Rightarrow> (unit, qvod_error) result" where
  "play_audio samples = Ok ()"

definition resample :: "rat list \<Rightarrow> u32 \<Rightarrow> u16 \<Rightarrow> (rat list, qvod_error) result" where
  "resample input target_sample_rate target_channels = Err (UnsupportedFormat ''audio resampler not available'')"

end
