(* ===== verification/Server_Client.thy ===== *)
theory Server_Client
  imports Handlers Tracker
begin

text \<open>
  The HTTP client of the desktop player (\<open>qvs-gui/src/client.rs\<close>) and, at the other end, the routes of the local
  server (\<open>qvs-local-server/src/server.rs\<close>) with the decoding of its requests. What comes of a request is a function
  argument; the lemmas instantiate it with the server itself. The words in which \<open>serde\<close> reports a value of the
  wrong shape are a parameter \<open>de\<close>.
\<close>

section \<open>Requests and answers\<close>

datatype http_request = HttpPost string json | HttpGet string "(string \<times> string) list"

text \<open>Not sent or not answered; answered with something that is not JSON; answered with JSON. The status code is not looked at.\<close>

datatype client_reply = NotSent string | NotJson string | JsonBody json

type_synonym net = "http_request \<Rightarrow> client_reply"

record status_response =
  sr_state :: string
  sr_position_ms :: u64
  sr_duration_ms :: u64
  sr_buffered_seconds :: f64
  sr_download_progress :: f64
  sr_peer_count :: nat

text \<open>The derived deserialisers: of an object by member names, of an array by position.\<close>

definition decode_control_response :: "json \<Rightarrow> control_response option" where
  "decode_control_response j =
     (let mk = (\<lambda>s m. Option.bind (json_bool s) (\<lambda>b. map_option (\<lambda>t. \<lparr>cr_success = b, cr_message = t\<rparr>) (json_str m)))
      in case j of
           JObj _ \<Rightarrow> mk (json_get ''success'' j) (json_get ''message'' j)
         | JArr [s, m] \<Rightarrow> mk s m
         | _ \<Rightarrow> None)"

definition decode_status_response :: "json \<Rightarrow> status_response option" where
  "decode_status_response j =
     (let mk = (\<lambda>st pos dur buf prog peers.
          Option.bind (json_str st) (\<lambda>s. Option.bind (json_u64 pos) (\<lambda>p. Option.bind (json_u64 dur) (\<lambda>d.
          Option.bind (json_f64 buf) (\<lambda>b. Option.bind (json_f64 prog) (\<lambda>g. map_option (\<lambda>n.
            \<lparr>sr_state = s, sr_position_ms = p, sr_duration_ms = d, sr_buffered_seconds = b, sr_download_progress = g,
             sr_peer_count = unat n\<rparr>) (json_u64 peers)))))))
      in case j of
           JObj _ \<Rightarrow> mk (json_get ''state'' j) (json_get ''position_ms'' j) (json_get ''duration_ms'' j)
             (json_get ''buffered_seconds'' j) (json_get ''download_progress'' j) (json_get ''peer_count'' j)
         | JArr [a, b, c, d, e, f] \<Rightarrow> mk a b c d e f
         | _ \<Rightarrow> None)"

section \<open>The client\<close>

definition urlencoding :: "string \<Rightarrow> string" where
  "urlencoding s = concat (map (\<lambda>b.
     if byte CHR ''A'' \<le> b \<and> b \<le> byte CHR ''Z'' \<or> byte CHR ''a'' \<le> b \<and> b \<le> byte CHR ''z'' \<or>
        byte CHR ''0'' \<le> b \<and> b \<le> byte CHR ''9'' \<or> b \<in> {byte CHR ''-'', byte CHR ''_'', byte CHR ''.'', byte CHR ''~''}
     then [byte_char b]
     else if b = byte CHR '' '' then [CHR 0x25, CHR ''2'', CHR ''0'']
     else [CHR 0x25, upper_hex_char (unat b div 16), upper_hex_char (unat b mod 16)]) (as_bytes s))"

definition play_url :: "string \<Rightarrow> string \<Rightarrow> string" where
  "play_url base hash = base @ ''/play?hash='' @ urlencoding hash"

definition segment_url :: "string \<Rightarrow> string \<Rightarrow> u32 \<Rightarrow> string" where
  "segment_url base hash index = base @ ''/segment?hash='' @ urlencoding hash @ ''&index='' @ show_nat (unat index)"

text \<open>The calls of the client, with the body each one posts and its words for a request that failed.\<close>

datatype client_call = CcPlayUri string | CcPlay string | CcPause | CcResume | CcStop string | CcSeek string u64

fun call_body :: "client_call \<Rightarrow> (string \<times> json) list" where
  "call_body (CcPlayUri uri) = [(''action'', JStr ''play''), (''url'', JStr uri)]"
| "call_body (CcPlay hash) = [(''action'', JStr ''play''), (''hash'', JStr hash)]"
| "call_body CcPause = [(''action'', JStr ''pause'')]"
| "call_body CcResume = [(''action'', JStr ''resume'')]"
| "call_body (CcStop hash) = [(''action'', JStr ''stop''), (''hash'', JStr hash)]"
| "call_body (CcSeek hash t) = [(''action'', JStr ''seek''), (''hash'', JStr hash), (''value'', JStr (show_u64 t))]"

definition cannot_connect :: "string \<Rightarrow> string \<Rightarrow> string" where
  "cannot_connect base e = utf8_text [0xE6, 0x97, 0xA0, 0xE6, 0xB3, 0x95, 0xE8, 0xBF, 0x9E, 0xE6, 0x8E, 0xA5, 0xE5, 0x88, 0xB0, 0xE6, 0x9C, 0x8D, 0xE5, 0x8A, 0xA1, 0xE5, 0x99, 0xA8, 0x20] @ base @ '': '' @ e"

fun call_failed :: "string \<Rightarrow> client_call \<Rightarrow> string \<Rightarrow> string" where
  "call_failed base (CcPlayUri uri) e = cannot_connect base e"
| "call_failed base (CcPlay hash) e = cannot_connect base e"
| "call_failed base CcPause e = utf8_text [0xE6, 0x9A, 0x82, 0xE5, 0x81, 0x9C, 0xE5, 0xA4, 0xB1, 0xE8, 0xB4, 0xA5] @ '': '' @ e"
| "call_failed base CcResume e = utf8_text [0xE6, 0x81, 0xA2, 0xE5, 0xA4, 0x8D, 0xE6, 0x92, 0xAD, 0xE6, 0x94, 0xBE, 0xE5, 0xA4, 0xB1, 0xE8, 0xB4, 0xA5] @ '': '' @ e"
| "call_failed base (CcStop hash) e = utf8_text [0xE5, 0x81, 0x9C, 0xE6, 0xAD, 0xA2, 0xE5, 0xA4, 0xB1, 0xE8, 0xB4, 0xA5] @ '': '' @ e"
| "call_failed base (CcSeek hash t) e = utf8_text [0xE6, 0x8B, 0x96, 0xE6, 0x8B, 0xBD, 0xE5, 0xA4, 0xB1, 0xE8, 0xB4, 0xA5] @ '': '' @ e"

definition client_control :: "(json \<Rightarrow> string) \<Rightarrow> net \<Rightarrow> string \<Rightarrow> client_call \<Rightarrow> (unit, qvod_error) result" where
  "client_control de net base call =
     (case net (HttpPost (base @ ''/control'') (JObj (call_body call))) of
        NotSent e \<Rightarrow> Err (Network (call_failed base call e))
      | NotJson e \<Rightarrow> Err (Protocol e)
      | JsonBody j \<Rightarrow>
          (case decode_control_response j of
             None \<Rightarrow> Err (Protocol (de j))
           | Some ctrl \<Rightarrow> if cr_success ctrl then Ok () else Err (Protocol (cr_message ctrl))))"

definition client_get_status :: "(json \<Rightarrow> string) \<Rightarrow> net \<Rightarrow> string \<Rightarrow> string \<Rightarrow> (status_response, qvod_error) result" where
  "client_get_status de net base hash =
     (case net (HttpGet (base @ ''/status'') [(''hash'', hash)]) of
        NotSent e \<Rightarrow> Err (Network e)
      | NotJson e \<Rightarrow> Err (Protocol e)
      | JsonBody j \<Rightarrow> (case decode_status_response j of None \<Rightarrow> Err (Protocol (de j)) | Some s \<Rightarrow> Ok s))"

definition client_get_server_status :: "net \<Rightarrow> string \<Rightarrow> (json, qvod_error) result" where
  "client_get_server_status net base =
     (case net (HttpGet (base @ ''/status'') []) of
        NotSent e \<Rightarrow> Err (Network e)
      | NotJson e \<Rightarrow> Err (Protocol e)
      | JsonBody j \<Rightarrow> Ok j)"

definition client_ping :: "net \<Rightarrow> string \<Rightarrow> (unit, qvod_error) result" where
  "client_ping net base = (case net (HttpGet (base @ ''/status'') []) of NotSent e \<Rightarrow> Err (Network e) | _ \<Rightarrow> Ok ())"

section \<open>The server\<close>

text \<open>An optional member may be missing or null.\<close>

definition json_opt_str :: "json \<Rightarrow> string option option" where
  "json_opt_str j = (case j of JNull \<Rightarrow> Some None | JStr s \<Rightarrow> Some (Some s) | _ \<Rightarrow> None)"

definition decode_control_params :: "json \<Rightarrow> control_params option" where
  "decode_control_params j =
     (let mk = (\<lambda>a h v u. Option.bind (json_str a) (\<lambda>action. Option.bind (json_opt_str h) (\<lambda>hash. Option.bind (json_opt_str v) (\<lambda>val.
          map_option (\<lambda>url. \<lparr>cp_action = action, cp_hash = hash, cp_value = val, cp_url = url\<rparr>) (json_opt_str u)))))
      in case j of
           JObj _ \<Rightarrow> mk (json_get ''action'' j) (json_get ''hash'' j) (json_get ''value'' j) (json_get ''url'' j)
         | JArr [a, h, v, u] \<Rightarrow> mk a h v u
         | _ \<Rightarrow> None)"

definition encode_control_response :: "control_response \<Rightarrow> json" where
  "encode_control_response r = JObj [(''success'', JBool (cr_success r)), (''message'', JStr (cr_message r))]"

text \<open>
  The routes the client uses, behind the address \<open>base\<close>: what the server answers to a request, and the engine after
  it. A request the extractors refuse, and any other route, is answered with plain text; a handler that panics closes
  the connection. The rate limit is not part of it.
\<close>

definition route_request :: "(bytes \<Rightarrow> bytes) \<Rightarrow> surroundings \<Rightarrow> nat \<Rightarrow> string \<Rightarrow> string \<Rightarrow> http_request \<Rightarrow> engine \<Rightarrow> engine \<times> client_reply" where
  "route_request sha1 su up txt base req e =
     (case req of
        HttpPost url body \<Rightarrow>
          if url \<noteq> base @ ''/control'' then (e, NotJson txt)
          else (case decode_control_params body of
             None \<Rightarrow> (e, NotJson txt)
           | Some p \<Rightarrow>
               (case handle_control sha1 su p e of
                  (e1, Ok r) \<Rightarrow> (e1, JsonBody (encode_control_response r))
                | (e1, _) \<Rightarrow> (e1, NotSent txt)))
      | HttpGet url query \<Rightarrow>
          if url \<noteq> base @ ''/status'' then (e, NotJson txt)
          else (case map_of query ''hash'' of
             None \<Rightarrow> (e, NotJson txt)
           | Some hash \<Rightarrow>
               (case handle_status sha1 up hash e of
                  Ok j \<Rightarrow> (e, JsonBody j)
                | _ \<Rightarrow> (e, NotSent txt))))"

section \<open>Client and server agree\<close>

lemma urlencoding_url_encode: "urlencoding s = url_encode (as_bytes s)"
proof -
  have "upper_hex_char 2 = CHR ''2''" "upper_hex_char 0 = CHR ''0''" by (simp_all add: upper_hex_char_def)
  moreover have "unat (byte CHR '' '') div 16 = 2" "unat (byte CHR '' '') mod 16 = 0" by code_simp+
  ultimately show ?thesis
    unfolding urlencoding_def url_encode_def unreserved_def by (intro arg_cong [where f = concat] map_cong) auto
qed

text \<open>The parameters the server decodes from the body of a call.\<close>

fun call_params :: "client_call \<Rightarrow> control_params" where
  "call_params (CcPlayUri uri) = \<lparr>cp_action = ''play'', cp_hash = None, cp_value = None, cp_url = Some uri\<rparr>"
| "call_params (CcPlay hash) = \<lparr>cp_action = ''play'', cp_hash = Some hash, cp_value = None, cp_url = None\<rparr>"
| "call_params CcPause = \<lparr>cp_action = ''pause'', cp_hash = None, cp_value = None, cp_url = None\<rparr>"
| "call_params CcResume = \<lparr>cp_action = ''resume'', cp_hash = None, cp_value = None, cp_url = None\<rparr>"
| "call_params (CcStop hash) = \<lparr>cp_action = ''stop'', cp_hash = Some hash, cp_value = None, cp_url = None\<rparr>"
| "call_params (CcSeek hash t) = \<lparr>cp_action = ''seek'', cp_hash = Some hash, cp_value = Some (show_u64 t), cp_url = None\<rparr>"

lemma decode_call_body: "decode_control_params (JObj (call_body call)) = Some (call_params call)"
  by (cases call) (simp_all add: decode_control_params_def json_get_def json_str_def json_opt_str_def)

lemma decode_encode_control: "decode_control_response (encode_control_response r) = Some r"
  by (simp add: decode_control_response_def encode_control_response_def json_get_def json_str_def json_bool_def)

lemma decode_status_fields:
  assumes "st_peer_count st < 2 ^ 64"
  shows "decode_status_response (JObj (status_fields st)) = Some \<lparr>sr_state = debug_state (st_state st),
    sr_position_ms = st_position_ms st, sr_duration_ms = st_duration_ms st, sr_buffered_seconds = st_buffered_seconds st,
    sr_download_progress = st_download_progress st, sr_peer_count = st_peer_count st\<rparr>"
proof -
  have "int (st_peer_count st) < int (2 ^ 64)" using assms by (simp only: of_nat_less_iff)
  then have "json_u64 (JInt (int (st_peer_count st))) = Some (of_nat (st_peer_count st))" by (simp add: json_u64_def)
  moreover have "unat (of_nat (st_peer_count st) :: u64) = st_peer_count st" using assms by (simp add: unat_of_nat)
  ultimately show ?thesis
    by (simp add: decode_status_response_def status_fields_def json_get_def json_str_def json_f64_def)
qed

text \<open>The client over the server: the engine after a call, and what the call returns.\<close>

definition remote_call :: "(json \<Rightarrow> string) \<Rightarrow> (bytes \<Rightarrow> bytes) \<Rightarrow> surroundings \<Rightarrow> nat \<Rightarrow> string \<Rightarrow> string \<Rightarrow> client_call \<Rightarrow> engine \<Rightarrow>
    engine \<times> (unit, qvod_error) result" where
  "remote_call de sha1 su up txt base call e =
     (fst (route_request sha1 su up txt base (HttpPost (base @ ''/control'') (JObj (call_body call))) e),
      client_control de (\<lambda>req. snd (route_request sha1 su up txt base req e)) base call)"

text \<open>
  C6: a control call over HTTP is the call of the handler: the engine ends in the same state, the call succeeds
  exactly if the handler reports success, and otherwise fails with the message of the handler. No answer of a handler
  is misread, whatever the words of the decoder.
\<close>

theorem remote_call_refines_handler:
  assumes "handle_control sha1 su (call_params call) e = (e', Ok r)"
  shows "remote_call de sha1 su up txt base call e = (e', if cr_success r then Ok () else Err (Protocol (cr_message r)))"
  using assms by (simp add: remote_call_def client_control_def route_request_def decode_call_body decode_encode_control)

theorem remote_call_refines_handler_witness:
  "remote_call (\<lambda>_. []) (\<lambda>bs. bs) quiet_surroundings 0 [] ''http://s'' (CcSeek ''h'' 5) (engine_new engine_config_default False Map.empty) =
     (engine_new engine_config_default False Map.empty, Ok ()) \<and>
   snd (remote_call (\<lambda>_. []) (\<lambda>bs. bs) quiet_surroundings 0 [] ''http://s'' (CcStop ''h'') (engine_new engine_config_default False Map.empty)) \<noteq> Ok ()"
proof -
  let ?e = "engine_new engine_config_default False Map.empty"
  have s: "parse_u64 (show_u64 5) = Ok 5" by (simp add: parse_u64_show_u64)
  have "handle_control (\<lambda>bs. bs) quiet_surroundings (call_params (CcSeek ''h'' 5)) ?e = (?e, Ok (answer True (''seeked to '' @ show_u64 5 @ ''ms'')))"
    by (simp add: handle_control_def control_seek_def s engine_seek_def on_all_def engine_new_def)
  note a = remote_call_refines_handler [OF this, of "\<lambda>_. []" 0 "[]" "''http://s''"]
  have "is_err (stream_key (\<lambda>bs. bs) ''h'')" by code_simp
  then obtain er where "stream_key (\<lambda>bs. bs) ''h'' = Err er" by (cases "stream_key (\<lambda>bs. bs) ''h''") auto
  then have "handle_control (\<lambda>bs. bs) quiet_surroundings (call_params (CcStop ''h'')) ?e = (?e, Ok (answer False (''invalid hash: '' @ show_error er)))"
    by (simp add: handle_control_def control_stop_def)
  note b = remote_call_refines_handler [OF this, of "\<lambda>_. []" 0 "[]" "''http://s''"]
  from a b show ?thesis by (simp add: answer_def)
qed



text \<open>Without a hash the query does not decode, so the client never gets the list of streams; its ping succeeds all the same.\<close>

lemma server_status_refused:
  "client_get_server_status (\<lambda>req. snd (route_request sha1 su up txt base req e)) base = Err (Protocol txt)"
  "client_ping (\<lambda>req. snd (route_request sha1 su up txt base req e)) base = Ok ()"
  by (simp_all add: client_get_server_status_def client_ping_def route_request_def)

text \<open>A seek names a stream, but every stream is moved.\<close>

lemma seek_hash_ignored:
  "handle_control sha1 su (call_params (CcSeek h t)) e = handle_control sha1 su (call_params (CcSeek h' t)) e"
  by (simp add: handle_control_def control_seek_def)

end
