(* ===== verification/Local_Server.thy ===== *)
theory Local_Server
  imports Server_Client Media_Probe
begin

text \<open>
  The local HTTP server as a whole (\<open>qvs-local-server/src/server.rs\<close> with the layers of \<open>middleware.rs\<close>): the
  four routes with their extractors, the layers around them, the tasks that send bodies, and the life of the server from the
  choice of its port to its shutdown. Requests arrive parsed; what the library \<open>axum\<close> answers by itself has its documented
  status and a text \<open>txt\<close>. A run is a list of events, with the clock and what the network does as their arguments.
\<close>

section \<open>Requests and responses\<close>

datatype http_method = MGet | MHead | MPost | MOther

datatype request_body = BodyJson json | BodySyntax | BodyUntyped

record server_request =
  sq_method :: http_method
  sq_path :: string
  sq_query :: "(string \<times> string) list"
  sq_body :: request_body
  sq_range :: "string option"
  sq_forwarded_for :: "string option"

text \<open>A streamed body is the number of the task that sends it.\<close>

datatype response_body = NoBody | TextBody string | JsonValue json | BytesBody bytes | StreamBody nat

record server_response =
  rsp_status :: nat
  rsp_headers :: "(string \<times> string) list"
  rsp_body :: response_body

definition bare_response :: "nat \<Rightarrow> server_response" where
  "bare_response n = \<lparr>rsp_status = n, rsp_headers = [], rsp_body = NoBody\<rparr>"

definition text_response :: "nat \<Rightarrow> string \<Rightarrow> server_response" where
  "text_response n t = \<lparr>rsp_status = n, rsp_headers = [(''content-type'', ''text/plain; charset=utf-8'')], rsp_body = TextBody t\<rparr>"

definition json_response :: "json \<Rightarrow> server_response" where
  "json_response j = \<lparr>rsp_status = 200, rsp_headers = [(''content-type'', ''application/json'')], rsp_body = JsonValue j\<rparr>"

fun status_number :: "status_code \<Rightarrow> nat" where
  "status_number BadRequest = 400"
| "status_number NotFound = 404"
| "status_number InternalServerError = 500"

section \<open>Extractors\<close>

text \<open>A member of the query: given twice it is an error, left out it is \<^const>\<open>None\<close>.\<close>

definition query_field :: "string \<Rightarrow> (string \<times> string) list \<Rightarrow> string option option" where
  "query_field k q = (case filter (\<lambda>kv. fst kv = k) q of [] \<Rightarrow> Some None | [kv] \<Rightarrow> Some (Some (snd kv)) | _ \<Rightarrow> None)"

definition query_number :: "(string \<Rightarrow> 'a option) \<Rightarrow> string \<Rightarrow> (string \<times> string) list \<Rightarrow> 'a option option" where
  "query_number parse k q =
     (case query_field k q of
        None \<Rightarrow> None
      | Some None \<Rightarrow> Some None
      | Some (Some v) \<Rightarrow> map_option Some (parse v))"

definition decode_play_params :: "(string \<times> string) list \<Rightarrow> play_params option" where
  "decode_play_params q =
     Option.bind (query_field ''hash'' q) (\<lambda>h. Option.bind (query_field ''name'' q) (\<lambda>n.
     Option.bind (query_number (\<lambda>v. res_ok (parse_u64 v)) ''size'' q) (\<lambda>s.
       map_option (\<lambda>hash. \<lparr>pp_hash = hash, pp_name = n, pp_size = s\<rparr>) h)))"

definition decode_segment_params :: "(string \<times> string) list \<Rightarrow> segment_params option" where
  "decode_segment_params q =
     Option.bind (query_field ''hash'' q) (\<lambda>h. Option.bind (query_number (\<lambda>v. res_ok (parse_u64 v)) ''offset'' q) (\<lambda>off.
     Option.bind (query_number (\<lambda>v. res_ok (parse_u64 v)) ''length'' q) (\<lambda>len. Option.bind (query_number parse_u32 ''index'' q) (\<lambda>i.
       map_option (\<lambda>hash. \<lparr>sp_hash = hash, sp_offset = off, sp_length = len, sp_index = i\<rparr>) h))))"

section \<open>Routes\<close>

definition play_headers :: "play_response \<Rightarrow> (string \<times> string) list" where
  "play_headers r =
     [(''content-type'', ''video/mp4''), (''access-control-allow-origin'', ''*'')] @
     (case play_content_range r of Some v \<Rightarrow> [(''content-range'', v)] | None \<Rightarrow> [])"

definition segment_response :: "bytes \<Rightarrow> server_response" where
  "segment_response d = \<lparr>rsp_status = 200,
     rsp_headers = [(''content-type'', ''video/MP2T''), (''content-length'', show_nat (length d)), (''access-control-allow-origin'', ''*'')],
     rsp_body = BytesBody d\<rparr>"

text \<open>What a route does with the engine and the list of body tasks. A handler that panics closes the connection.\<close>

type_synonym served = "engine \<times> play_stream list"

definition route_play :: "(bytes \<Rightarrow> bytes) \<Rightarrow> surroundings \<Rightarrow> string \<Rightarrow> server_request \<Rightarrow> served \<Rightarrow> served \<times> server_response option" where
  "route_play sha1 su txt req sv =
     (case decode_play_params (sq_query req) of
        None \<Rightarrow> (sv, Some (text_response 400 txt))
      | Some p \<Rightarrow>
          (case handle_play sha1 su p (sq_range req) (fst sv) of
             (e, Ok r) \<Rightarrow> ((e, snd sv @ [pr_stream r]),
               Some \<lparr>rsp_status = (if pr_range r = None then 200 else 206), rsp_headers = play_headers r, rsp_body = StreamBody (length (snd sv))\<rparr>)
           | (e, Err s) \<Rightarrow> ((e, snd sv), Some (bare_response (status_number s)))
           | (e, Panic) \<Rightarrow> ((e, snd sv), None)))"

definition route_segment :: "string \<Rightarrow> server_request \<Rightarrow> engine \<Rightarrow> server_response option" where
  "route_segment txt req e =
     (case decode_segment_params (sq_query req) of
        None \<Rightarrow> Some (text_response 400 txt)
      | Some p \<Rightarrow>
          (case handle_segment p e of
             Ok d \<Rightarrow> Some (segment_response d)
           | Err s \<Rightarrow> Some (bare_response (status_number s))
           | Panic \<Rightarrow> None))"

definition route_status :: "(bytes \<Rightarrow> bytes) \<Rightarrow> nat \<Rightarrow> string \<Rightarrow> server_request \<Rightarrow> engine \<Rightarrow> server_response option" where
  "route_status sha1 uptime_secs txt req e =
     (case decode_play_params (sq_query req) of
        None \<Rightarrow> Some (text_response 400 txt)
      | Some p \<Rightarrow> map_option json_response (res_ok (handle_status sha1 uptime_secs (pp_hash p) e)))"

definition route_control :: "(bytes \<Rightarrow> bytes) \<Rightarrow> surroundings \<Rightarrow> string \<Rightarrow> server_request \<Rightarrow> served \<Rightarrow> served \<times> server_response option" where
  "route_control sha1 su txt req sv =
     (case sq_body req of
        BodyUntyped \<Rightarrow> (sv, Some (text_response 415 txt))
      | BodySyntax \<Rightarrow> (sv, Some (text_response 400 txt))
      | BodyJson j \<Rightarrow>
          (case decode_control_params j of
             None \<Rightarrow> (sv, Some (text_response 422 txt))
           | Some p \<Rightarrow>
               (case handle_control sha1 su p (fst sv) of
                  (e, Ok r) \<Rightarrow> ((e, snd sv), Some (json_response (encode_control_response r)))
                | (e, _) \<Rightarrow> ((e, snd sv), None))))"

text \<open>A route for GET also answers HEAD, without the body.\<close>

definition drop_body :: "server_response \<Rightarrow> server_response" where
  "drop_body r = r\<lparr>rsp_body := NoBody\<rparr>"

definition get_route :: "server_request \<Rightarrow> 's \<times> server_response option \<Rightarrow> 's \<Rightarrow> 's \<times> server_response option" where
  "get_route req answered s =
     (case sq_method req of
        MGet \<Rightarrow> answered
      | MHead \<Rightarrow> (fst answered, map_option drop_body (snd answered))
      | _ \<Rightarrow> (s, Some \<lparr>rsp_status = 405, rsp_headers = [(''allow'', ''GET,HEAD'')], rsp_body = NoBody\<rparr>))"

definition dispatch :: "(bytes \<Rightarrow> bytes) \<Rightarrow> surroundings \<Rightarrow> nat \<Rightarrow> string \<Rightarrow> server_request \<Rightarrow> served \<Rightarrow> served \<times> server_response option" where
  "dispatch sha1 su uptime_secs txt req sv =
     (if sq_path req = ''/play'' then get_route req (route_play sha1 su txt req sv) sv
      else if sq_path req = ''/status'' then get_route req (sv, route_status sha1 uptime_secs txt req (fst sv)) sv
      else if sq_path req = ''/segment'' then get_route req (sv, route_segment txt req (fst sv)) sv
      else if sq_path req = ''/control'' then
        (if sq_method req = MPost then route_control sha1 su txt req sv
         else (sv, Some \<lparr>rsp_status = 405, rsp_headers = [(''allow'', ''POST'')], rsp_body = NoBody\<rparr>))
      else (sv, Some (bare_response 404)))"

section \<open>Layers\<close>

text \<open>\<open>HeaderMap::insert\<close> replaces what the name had.\<close>

definition header_insert :: "string \<Rightarrow> string \<Rightarrow> (string \<times> string) list \<Rightarrow> (string \<times> string) list" where
  "header_insert k v hs = filter (\<lambda>kv. fst kv \<noteq> k) hs @ [(k, v)]"

definition cors_middleware :: "server_response \<Rightarrow> server_response" where
  "cors_middleware r = r\<lparr>rsp_headers :=
     header_insert ''access-control-allow-headers'' ''Content-Type''
       (header_insert ''access-control-allow-methods'' ''GET, POST, OPTIONS''
         (header_insert ''access-control-allow-origin'' ''*'' (rsp_headers r)))\<rparr>"

text \<open>The routes behind the innermost layer.\<close>

definition answer_request :: "(bytes \<Rightarrow> bytes) \<Rightarrow> surroundings \<Rightarrow> nat \<Rightarrow> string \<Rightarrow> server_request \<Rightarrow> served \<Rightarrow> served \<times> server_response option" where
  "answer_request sha1 su uptime_secs txt req sv =
     (case dispatch sha1 su uptime_secs txt req sv of (sv', r) \<Rightarrow> (sv', map_option cors_middleware r))"

text \<open>An answer of \<open>handle_options\<close>, which no route uses.\<close>

definition handle_options :: server_response where
  "handle_options = \<lparr>rsp_status = 204, rsp_headers = [(''allow'', ''GET, POST, OPTIONS'')], rsp_body = NoBody\<rparr>"

section \<open>The server\<close>

text \<open>\<open>ls_sender\<close>: the handle still holds the sender of the shutdown channel; \<open>ls_serving\<close>: connections are accepted.\<close>

record local_server =
  ls_port :: u16
  ls_sender :: bool
  ls_serving :: bool
  ls_start :: nat
  ls_limiter :: rate_limiter
  ls_engine :: engine
  ls_tasks :: "play_stream list"

definition local_server_new :: "(ip_addr \<Rightarrow> u16 \<Rightarrow> bool) \<Rightarrow> bool \<Rightarrow> nat \<Rightarrow> local_server_config \<Rightarrow> engine \<Rightarrow> (local_server, qvod_error) result" where
  "local_server_new free bound now c e =
     (case find_available_port_async free c of
        None \<Rightarrow> Err (Server ''no available port'')
      | Some port \<Rightarrow> Ok \<lparr>ls_port = port, ls_sender = True, ls_serving = bound, ls_start = now, ls_limiter = rl_new 100 1,
          ls_engine = e, ls_tasks = []\<rparr>)"

definition local_server_stop :: "local_server \<Rightarrow> local_server" where
  "local_server_stop s = (if ls_sender s then s\<lparr>ls_sender := False, ls_serving := False\<rparr> else s)"

text \<open>The limiter and, behind it, the routes.\<close>

definition local_server_request :: "(string \<Rightarrow> ip_addr option) \<Rightarrow> (bytes \<Rightarrow> bytes) \<Rightarrow> string \<Rightarrow> nat \<Rightarrow> surroundings \<Rightarrow> server_request \<Rightarrow>
    local_server \<Rightarrow> local_server \<times> server_response option" where
  "local_server_request parse_ip sha1 txt now su req s =
     (case rate_limit_middleware parse_ip now (sq_forwarded_for req) (ls_limiter s) of
        (l, False) \<Rightarrow> (s\<lparr>ls_limiter := l\<rparr>, Some (bare_response 429))
      | (l, True) \<Rightarrow>
          (case answer_request sha1 su ((now - ls_start s) div 10 ^ 9) txt req (ls_engine s, ls_tasks s) of
             ((e, ts), r) \<Rightarrow> (s\<lparr>ls_limiter := l, ls_engine := e, ls_tasks := ts\<rparr>, r)))"

text \<open>
  What happens to a server: a request, a turn of a body task, a step of a task of the engine, \<open>stop\<close>, a signal of the
  operating system, the drop of the handle.
\<close>

datatype server_event =
    SeRequest nat surroundings server_request
  | SeTurn nat bool
  | SeTask info_hash task_outcome
  | SeDetached nat task_outcome
  | SeStop
  | SeSignal
  | SeDrop

definition turn_task :: "engine \<Rightarrow> nat \<Rightarrow> bool \<Rightarrow> play_stream list \<Rightarrow> play_stream list" where
  "turn_task e k client_ok ts = (if k < length ts then ts[k := play_stream_step e client_ok (ts ! k)] else ts)"

definition detached_step :: "nat \<Rightarrow> task_outcome \<Rightarrow> engine \<Rightarrow> engine" where
  "detached_step i out e =
     (if i < length (en_detached e) then e\<lparr>en_detached := (en_detached e)[i := task_step out (en_detached e ! i)]\<rparr> else e)"

fun server_step :: "(string \<Rightarrow> ip_addr option) \<Rightarrow> (bytes \<Rightarrow> bytes) \<Rightarrow> string \<Rightarrow> server_event \<Rightarrow> local_server \<Rightarrow>
    local_server \<times> server_response option" where
  "server_step pip sha1 txt (SeRequest now su req) s =
     (if ls_serving s then local_server_request pip sha1 txt now su req s else (s, None))"
| "server_step pip sha1 txt (SeTurn k client_ok) s = (s\<lparr>ls_tasks := turn_task (ls_engine s) k client_ok (ls_tasks s)\<rparr>, None)"
| "server_step pip sha1 txt (SeTask h out) s = (s\<lparr>ls_engine := on_stream h (task_step out) (ls_engine s)\<rparr>, None)"
| "server_step pip sha1 txt (SeDetached i out) s = (s\<lparr>ls_engine := detached_step i out (ls_engine s)\<rparr>, None)"
| "server_step pip sha1 txt SeStop s = (local_server_stop s, None)"
| "server_step pip sha1 txt SeSignal s = (s\<lparr>ls_serving := False\<rparr>, None)"
| "server_step pip sha1 txt SeDrop s = (s\<lparr>ls_sender := False, ls_serving := False\<rparr>, None)"

fun server_run :: "(string \<Rightarrow> ip_addr option) \<Rightarrow> (bytes \<Rightarrow> bytes) \<Rightarrow> string \<Rightarrow> server_event list \<Rightarrow> local_server \<Rightarrow>
    local_server \<times> server_response option list" where
  "server_run pip sha1 txt [] s = (s, [])"
| "server_run pip sha1 txt (ev # evs) s =
     (let (s1, r) = server_step pip sha1 txt ev s; (s2, rs) = server_run pip sha1 txt evs s1 in (s2, r # rs))"

section \<open>Layers around the routes\<close>

lemma header_insert_lookup: "map_of (header_insert k v hs) n = (if n = k then Some v else map_of hs n)"
proof -
  have "map_of (filter (\<lambda>kv. fst kv \<noteq> k) hs) n = (if n = k then None else map_of hs n)"
    by (induction hs) (auto simp: fun_upd_def)
  then show ?thesis by (auto simp: header_insert_def map_add_def split: option.split)
qed

lemma cors_headers:
  "map_of (rsp_headers (cors_middleware r)) n =
     (if n = ''access-control-allow-headers'' then Some ''Content-Type''
      else if n = ''access-control-allow-methods'' then Some ''GET, POST, OPTIONS''
      else if n = ''access-control-allow-origin'' then Some ''*''
      else map_of (rsp_headers r) n)"
  by (simp add: cors_middleware_def header_insert_lookup)

text \<open>The question a browser asks before it posts a control is refused: the answer of \<open>handle_options\<close> is on no route.\<close>

lemma preflight_refused:
  assumes "sq_method req = MOther"
  shows "\<exists>r. snd (answer_request sha1 su up txt req sv) = Some r \<and> rsp_status r \<in> {404, 405}"
  using assms by (auto simp: answer_request_def dispatch_def get_route_def cors_middleware_def bare_response_def)

text \<open>Unless a panic is met, every request that is let through is answered, and always with the three headers.\<close>

lemma answered_with_cors:
  "snd (answer_request sha1 su up txt req sv) = Some r \<Longrightarrow> map_of (rsp_headers r) ''access-control-allow-origin'' = Some ''*''"
  by (auto simp: answer_request_def cors_headers split: prod.splits)

lemma status_reads_only: "sq_path req = ''/status'' \<or> sq_path req = ''/segment'' \<Longrightarrow> fst (answer_request sha1 su up txt req sv) = sv"
  by (auto simp: answer_request_def dispatch_def get_route_def split: prod.splits http_method.splits)

section \<open>Reachable engines\<close>

lemma handle_play_engine:
  "fst (handle_play sha1 su p rg e) = (case play_uri p of Ok uri \<Rightarrow> fst (engine_play sha1 su uri e) | _ \<Rightarrow> e)"
proof (cases "play_uri p")
  case (Ok uri)
  obtain e1 r where "engine_play sha1 su uri e = (e1, r)" by fastforce
  with Ok show ?thesis by (cases r) (simp_all add: handle_play_def Let_def)
qed (simp_all add: handle_play_def)

lemma fst_case_result:
  "fst (case p of (e1, Ok x) \<Rightarrow> (e1, f x) | (e1, Err y) \<Rightarrow> (e1, g y) | (e1, Panic) \<Rightarrow> (e1, h)) = fst p"
  by (cases p; cases "snd p") auto

lemma control_play_engine:
  "fst (control_play sha1 su p e) = e \<or> (\<exists>uri. fst (control_play sha1 su p e) = fst (engine_play sha1 su uri e))"
  unfolding control_play_def by (cases "cp_url p"; cases "cp_hash p") (simp_all only: option.case option.map fst_case_result fst_conv, blast+)

lemma control_stop_engine: "fst (control_stop sha1 p e) = e \<or> (\<exists>h. fst (control_stop sha1 p e) = engine_stop h e)"
  by (auto simp: control_stop_def split: option.split result.split)

lemma control_seek_engine: "fst (control_seek p e) = e \<or> (\<exists>t. fst (control_seek p e) = fst (engine_seek t e))"
proof (cases "cp_value p")
  case (Some v)
  then show ?thesis
    unfolding control_seek_def by (cases "parse_u64 v") (simp_all only: option.case result.case fst_case_result fst_conv, blast+)
qed (simp add: control_seek_def)

lemma handle_control_reachable:
  assumes "reachable sha1 e"
  shows "reachable sha1 (fst (handle_control sha1 su p e))"
proof -
  note r = reachable.play [OF assms] reachable.stop [OF assms] reachable.seek [OF assms]
  have "reachable sha1 (fst (control_play sha1 su p e))" "reachable sha1 (fst (control_stop sha1 p e))" "reachable sha1 (fst (control_seek p e))"
    using control_play_engine [of sha1 su p e] control_stop_engine [of sha1 p e] control_seek_engine [of p e] r assms by metis+
  then show ?thesis using reachable.pause [OF assms] reachable.resume [OF assms] assms by (simp add: handle_control_def Let_def)
qed

lemma route_play_engine:
  "fst (fst (route_play sha1 su txt req sv)) =
     (case decode_play_params (sq_query req) of None \<Rightarrow> fst sv | Some p \<Rightarrow> fst (handle_play sha1 su p (sq_range req) (fst sv)))"
proof (cases "decode_play_params (sq_query req)")
  case (Some p)
  obtain e r where "handle_play sha1 su p (sq_range req) (fst sv) = (e, r)" by fastforce
  with Some show ?thesis by (cases r) (simp_all add: route_play_def)
qed (simp add: route_play_def)

lemma route_control_engine:
  "fst (fst (route_control sha1 su txt req sv)) = fst sv \<or>
   (\<exists>p. fst (fst (route_control sha1 su txt req sv)) = fst (handle_control sha1 su p (fst sv)))"
proof -
  have "fst (fst (case handle_control sha1 su p (fst sv) of
           (e, Ok r) \<Rightarrow> ((e, snd sv), Some (json_response (encode_control_response r)))
         | (e, Err x) \<Rightarrow> ((e, snd sv), None) | (e, Panic) \<Rightarrow> ((e, snd sv), None))) = fst (handle_control sha1 su p (fst sv))" for p
    by (cases "handle_control sha1 su p (fst sv)"; cases "snd (handle_control sha1 su p (fst sv))") auto
  then show ?thesis unfolding route_control_def by (auto split: request_body.split option.split)
qed

lemma answer_request_reachable:
  assumes "reachable sha1 (fst sv)"
  shows "reachable sha1 (fst (fst (answer_request sha1 su up txt req sv)))"
proof -
  have play: "reachable sha1 (fst (fst (route_play sha1 su txt req sv)))"
    using assms by (auto simp: route_play_engine handle_play_engine intro: reachable.play split: option.split result.split)
  have ctl: "reachable sha1 (fst (fst (route_control sha1 su txt req sv)))"
    using route_control_engine [of sha1 su "txt" req sv] handle_control_reachable [OF assms] assms by metis
  show ?thesis
    using assms play ctl by (auto simp: answer_request_def dispatch_def get_route_def split: prod.splits http_method.splits)
qed

text \<open>So what holds of every engine holds of the engine of a server, however it is used.\<close>

lemma server_step_reachable:
  assumes "reachable sha1 (ls_engine s)"
  shows "reachable sha1 (ls_engine (fst (server_step pip sha1 txt ev s)))"
proof (cases ev)
  case (SeRequest now su req)
  have "reachable sha1 (fst (fst (answer_request sha1 su up txt req (ls_engine s, ls_tasks s))))" for up
    using answer_request_reachable [of sha1 "(ls_engine s, ls_tasks s)"] assms by simp
  then show ?thesis
    using assms by (simp add: SeRequest local_server_request_def split_beta split: bool.split)
next
  case (SeDetached i out)
  with assms show ?thesis by (simp add: detached_step_def reachable.detached)
qed (use assms in \<open>simp_all add: reachable.step local_server_stop_def\<close>)

section \<open>The server with an exact window\<close>

text \<open>
  What the server promises: per client a hundred requests in any second, and otherwise what the routes do. This server
  keeps every request it has let through, and looks back at all of them.
\<close>

fun window_step :: "(string \<Rightarrow> ip_addr option) \<Rightarrow> (bytes \<Rightarrow> bytes) \<Rightarrow> string \<Rightarrow> server_event \<Rightarrow> (nat \<times> ip_addr) list \<times> local_server \<Rightarrow>
    ((nat \<times> ip_addr) list \<times> local_server) \<times> server_response option" where
  "window_step pip sha1 txt (SeRequest now su req) (acc, s) =
     (let ip = client_ip pip (sq_forwarded_for req)
      in if \<not> ls_serving s then ((acc, s), None)
         else if recent (10 ^ 9) now (times_of ip acc) < 100 then
           (case answer_request sha1 su ((now - ls_start s) div 10 ^ 9) txt req (ls_engine s, ls_tasks s) of
              ((e, ts), r) \<Rightarrow> ((acc @ [(now, ip)], s\<lparr>ls_engine := e, ls_tasks := ts\<rparr>), r))
         else ((acc, s), Some (bare_response 429)))"
| "window_step pip sha1 txt ev (acc, s) = (let (s', r) = server_step pip sha1 txt ev s in ((acc, s'), r))"

fun window_run :: "(string \<Rightarrow> ip_addr option) \<Rightarrow> (bytes \<Rightarrow> bytes) \<Rightarrow> string \<Rightarrow> server_event list \<Rightarrow> (nat \<times> ip_addr) list \<times> local_server \<Rightarrow>
    ((nat \<times> ip_addr) list \<times> local_server) \<times> server_response option list" where
  "window_run pip sha1 txt [] w = (w, [])"
| "window_run pip sha1 txt (ev # evs) w =
     (let (w1, r) = window_step pip sha1 txt ev w; (w2, rs) = window_run pip sha1 txt evs w1 in (w2, r # rs))"

fun event_time :: "server_event \<Rightarrow> nat list" where
  "event_time (SeRequest now su req) = [now]"
| "event_time _ = []"

definition same_server :: "local_server \<Rightarrow> local_server \<Rightarrow> bool" where
  "same_server s w \<longleftrightarrow> s = w\<lparr>ls_limiter := ls_limiter s\<rparr>"

definition simulates :: "nat \<Rightarrow> (nat \<times> ip_addr) list \<times> local_server \<Rightarrow> local_server \<Rightarrow> bool" where
  "simulates now w s \<longleftrightarrow> same_server s (snd w) \<and> rl_inv 100 (10 ^ 9) now (ls_limiter s, fst w)"

lemma same_serverD:
  "same_server s w \<Longrightarrow> ls_serving s = ls_serving w \<and> ls_start s = ls_start w \<and> ls_engine s = ls_engine w \<and> ls_tasks s = ls_tasks w \<and>
     ls_sender s = ls_sender w \<and> ls_port s = ls_port w"
  unfolding same_server_def by (metis local_server.select_convs local_server.surjective local_server.update_convs(5))

lemma rl_inv_mono: "rl_inv n w t st \<Longrightarrow> t \<le> t' \<Longrightarrow> rl_inv n w t' st"
  unfolding rl_inv_def by (meson le_trans)

lemma simulation_request:
  assumes sim: "simulates t0 (acc, w) s" and le: "t0 \<le> now"
  shows "snd (server_step pip sha1 txt (SeRequest now su req) s) = snd (window_step pip sha1 txt (SeRequest now su req) (acc, w)) \<and>
    simulates now (fst (window_step pip sha1 txt (SeRequest now su req) (acc, w))) (fst (server_step pip sha1 txt (SeRequest now su req) s))"
proof -
  let ?ip = "client_ip pip (sq_forwarded_for req)"
  have same: "same_server s w" and inv: "rl_inv 100 (10 ^ 9) t0 (ls_limiter s, acc)" using sim by (simp_all add: simulates_def)
  obtain l ok where l: "rl_check now ?ip (ls_limiter s) = (l, ok)" by fastforce
  have ok: "ok \<longleftrightarrow> recent (10 ^ 9) now (times_of ?ip acc) < 100" using rl_check_recent(2) [OF inv le, of ?ip] by (simp add: l)
  have inv': "rl_inv 100 (10 ^ 9) now (l, if ok then acc @ [(now, ?ip)] else acc)"
    using rl_step_inv [OF inv le, of ?ip] by (cases ok) (simp_all add: rl_step_def l)
  obtain e ts r where a: "answer_request sha1 su ((now - ls_start w) div 10 ^ 9) txt req (ls_engine w, ls_tasks w) = ((e, ts), r)"
    by (metis surj_pair)
  have s: "s = w\<lparr>ls_limiter := ls_limiter s\<rparr>" using same by (simp add: same_server_def)
  consider "\<not> ls_serving w" | "ls_serving w" "ok" | "ls_serving w" "\<not> ok" by blast
  then show ?thesis
  proof cases
    case 1
    with rl_inv_mono [OF inv le] same_serverD [OF same] same show ?thesis by (simp add: simulates_def)
  next
    case 2
    have "same_server (s\<lparr>ls_limiter := l, ls_engine := e, ls_tasks := ts\<rparr>) (w\<lparr>ls_engine := e, ls_tasks := ts\<rparr>)"
      unfolding same_server_def by (subst s) simp
    with 2 ok same_serverD [OF same] inv' show ?thesis
      by (simp add: local_server_request_def rate_limit_middleware_def l a [simplified] simulates_def)
  next
    case 3
    have "same_server (s\<lparr>ls_limiter := l\<rparr>) w" unfolding same_server_def by (subst s) simp
    with 3 ok same_serverD [OF same] inv' show ?thesis
      by (simp add: local_server_request_def rate_limit_middleware_def l simulates_def)
  qed
qed

lemma simulation_other:
  assumes "simulates t0 (acc, w) s" and "event_time ev = []"
  shows "snd (server_step pip sha1 txt ev s) = snd (window_step pip sha1 txt ev (acc, w)) \<and>
    simulates t0 (fst (window_step pip sha1 txt ev (acc, w))) (fst (server_step pip sha1 txt ev s))"
proof -
  have same: "same_server s w" and inv: "rl_inv 100 (10 ^ 9) t0 (ls_limiter s, acc)" using assms(1) by (simp_all add: simulates_def)
  have w: "window_step pip sha1 txt ev (acc, w) = ((acc, fst (server_step pip sha1 txt ev w)), snd (server_step pip sha1 txt ev w))"
    using assms(2) by (cases ev) (simp_all add: split_beta Let_def)
  have s: "s = w\<lparr>ls_limiter := ls_limiter s\<rparr>" using same by (simp add: same_server_def)
  have "same_server (fst (server_step pip sha1 txt ev s)) (fst (server_step pip sha1 txt ev w))"
    using assms(2) by (subst s) (cases ev; simp add: same_server_def local_server_stop_def)
  moreover have "ls_limiter (fst (server_step pip sha1 txt ev s)) = ls_limiter s"
    "snd (server_step pip sha1 txt ev s) = None" "snd (server_step pip sha1 txt ev w) = None"
    using assms(2) by (cases ev; simp add: local_server_stop_def)+
  ultimately show ?thesis using inv by (simp add: w simulates_def)
qed

lemma simulation_run:
  assumes "simulates t0 w s" and "sorted (concat (map event_time evs))" and "\<forall>t \<in> set (concat (map event_time evs)). t0 \<le> t"
  shows "snd (server_run pip sha1 txt evs s) = snd (window_run pip sha1 txt evs w) \<and>
    (\<exists>t. simulates t (fst (window_run pip sha1 txt evs w)) (fst (server_run pip sha1 txt evs s)))"
  using assms
proof (induction evs arbitrary: t0 w s)
  case (Cons ev evs)
  obtain acc v where w: "w = (acc, v)" by fastforce
  let ?s1 = "fst (server_step pip sha1 txt ev s)" and ?w1 = "fst (window_step pip sha1 txt ev w)"
  have "snd (server_step pip sha1 txt ev s) = snd (window_step pip sha1 txt ev w) \<and>
    (\<exists>t1. simulates t1 ?w1 ?s1 \<and> (\<forall>t \<in> set (concat (map event_time evs)). t1 \<le> t))"
  proof (cases "event_time ev = []")
    case True
    with simulation_other [of t0 acc v s ev pip sha1 "txt"] Cons.prems show ?thesis by (auto simp: w)
  next
    case False
    then obtain now su req where ev: "ev = SeRequest now su req" by (cases ev) auto
    with simulation_request [of t0 acc v s now pip sha1 "txt" su req] Cons.prems show ?thesis
      by (auto simp: w simp del: server_step.simps window_step.simps)
  qed
  then obtain t1 where r: "snd (server_step pip sha1 txt ev s) = snd (window_step pip sha1 txt ev w)"
    "simulates t1 ?w1 ?s1" "\<forall>t \<in> set (concat (map event_time evs)). t1 \<le> t" by blast
  from Cons.IH [OF r(2) _ r(3)] Cons.prems(2) r(1) show ?case by (auto simp: split_beta Let_def sorted_append)
qed auto

lemma server_run_reachable:
  "reachable sha1 (ls_engine s) \<Longrightarrow> reachable sha1 (ls_engine (fst (server_run pip sha1 txt evs s)))"
  by (induction evs arbitrary: s) (simp_all add: split_beta Let_def server_step_reachable)

text \<open>
  C18: a server that was started answers every run of events exactly as the server that looks back at all requests it has
  let through: a request reaches a route if and only if its client had fewer than a hundred requests let through in
  the last second, and a refused one changes neither the engine nor a body. In no second are there more than a hundred for a
  client, and the engine stays one that its own operations reach, so what is proved of every engine holds behind the server.
\<close>

theorem local_server_refines_window:
  assumes "local_server_new free bound now0 c e = Ok s" and "sorted (concat (map event_time evs))" and "reachable sha1 e"
  shows "let (s', rs) = server_run pip sha1 txt evs s; ((acc, w), rs') = window_run pip sha1 txt evs ([], s)
    in rs = rs' \<and> ls_engine s' = ls_engine w \<and> ls_tasks s' = ls_tasks w \<and> reachable sha1 (ls_engine s') \<and>
       (\<forall>ip t. recent (10 ^ 9) t (times_of ip acc) \<le> 100)"
proof -
  have s: "ls_limiter s = rl_new 100 1" "ls_engine s = e" using assms(1) by (auto simp: local_server_new_def split: option.splits)
  have "simulates 0 ([], s) s"
    using rl_run_inv [of "[]" 100 1] by (simp add: simulates_def same_server_def s rl_run_def)
  from simulation_run [OF this assms(2), of pip sha1 "txt"] obtain t where
    r: "snd (server_run pip sha1 txt evs s) = snd (window_run pip sha1 txt evs ([], s))"
    "simulates t (fst (window_run pip sha1 txt evs ([], s))) (fst (server_run pip sha1 txt evs s))" by auto
  from r(2) same_serverD have "ls_engine (fst (server_run pip sha1 txt evs s)) = ls_engine (snd (fst (window_run pip sha1 txt evs ([], s))))"
    "ls_tasks (fst (server_run pip sha1 txt evs s)) = ls_tasks (snd (fst (window_run pip sha1 txt evs ([], s))))"
    "\<forall>ip t'. recent (10 ^ 9) t' (times_of ip (fst (fst (window_run pip sha1 txt evs ([], s))))) \<le> 100"
    by (auto simp: simulates_def rl_inv_def)
  with r(1) server_run_reachable [of sha1 s pip "txt" evs] assms(3) s(2) show ?thesis by (simp add: split_beta Let_def)
qed

theorem local_server_refines_window_witness:
  "\<exists>s. local_server_new (\<lambda>_ _. True) True 0 (local_server_config_new 8621) (engine_new engine_config_default False Map.empty) = Ok s \<and>
     (let evs = [SeRequest 5 quiet_surroundings \<lparr>sq_method = MPost, sq_path = ''/play'', sq_query = [], sq_body = BodyUntyped,
                  sq_range = None, sq_forwarded_for = None\<rparr>, SeStop]
      in snd (server_run (\<lambda>_. None) (\<lambda>bs. bs) [] evs s) = snd (window_run (\<lambda>_. None) (\<lambda>bs. bs) [] evs ([], s)))"
proof -
  let ?e = "engine_new engine_config_default False Map.empty"
  obtain s where s: "local_server_new (\<lambda>_ _. True) True 0 (local_server_config_new 8621) ?e = Ok s"
    by (simp add: local_server_new_def find_available_port_async_def local_server_config_new_def upt_conv_Cons Let_def)
  let ?evs = "[SeRequest 5 quiet_surroundings \<lparr>sq_method = MPost, sq_path = ''/play'', sq_query = [], sq_body = BodyUntyped,
                  sq_range = None, sq_forwarded_for = None\<rparr>, SeStop]"
  from local_server_refines_window [OF s, of ?evs "\<lambda>bs. bs" "\<lambda>_. None" "[]"] s show ?thesis
    by (simp add: reachable.start split_beta Let_def del: server_run.simps window_run.simps)
qed

section \<open>What the player sees\<close>

text \<open>The requests of the player as the server gets them, and an answer as the player reads it.\<close>

definition request_of :: "string \<Rightarrow> http_request \<Rightarrow> server_request option" where
  "request_of base req =
     (case req of
        HttpPost url j \<Rightarrow> map_option (\<lambda>p. \<lparr>sq_method = MPost, sq_path = p, sq_query = [], sq_body = BodyJson j, sq_range = None,
          sq_forwarded_for = None\<rparr>) (strip_prefix base url)
      | HttpGet url q \<Rightarrow> map_option (\<lambda>p. \<lparr>sq_method = MGet, sq_path = p, sq_query = q, sq_body = BodyUntyped, sq_range = None,
          sq_forwarded_for = None\<rparr>) (strip_prefix base url))"

definition reply_of :: "string \<Rightarrow> server_response option \<Rightarrow> client_reply" where
  "reply_of txt r =
     (case r of
        None \<Rightarrow> NotSent txt
      | Some a \<Rightarrow> (case rsp_body a of JsonValue j \<Rightarrow> JsonBody j | _ \<Rightarrow> NotJson txt))"

text \<open>For the calls of the player the routes are those of \<^const>\<open>route_request\<close>.\<close>

lemma control_route:
  assumes "request_of base (HttpPost (base @ ''/control'') j) = Some req"
  shows "let (sv', r) = answer_request sha1 su up txt req (e, ts)
    in (fst sv', reply_of txt r) = route_request sha1 su up txt base (HttpPost (base @ ''/control'') j) e"
proof -
  have req: "sq_path req = ''/control''" "sq_method req = MPost" "sq_body req = BodyJson j"
    using assms by (auto simp: request_of_def strip_prefix_append)
  have a: "answer_request sha1 su up txt req (e, ts) = (case route_control sha1 su txt req (e, ts) of (sv', r) \<Rightarrow> (sv', map_option cors_middleware r))"
    by (simp add: answer_request_def dispatch_def req(1,2))
  have b: "reply_of txt (Some (cors_middleware (json_response k))) = JsonBody k"
    "reply_of txt (Some (cors_middleware (text_response n txt))) = NotJson txt" "reply_of txt None = NotSent txt" for k n
    by (simp_all add: reply_of_def cors_middleware_def json_response_def text_response_def)
  show ?thesis
  proof (cases "decode_control_params j")
    case None
    then show ?thesis by (simp add: a b route_control_def req(3) route_request_def)
  next
    case (Some p)
    obtain e1 r where h: "handle_control sha1 su p e = (e1, r)" by fastforce
    show ?thesis by (cases r) (simp_all add: a b route_control_def req(3) route_request_def Some h)
  qed
qed

lemma status_route:
  assumes "request_of base (HttpGet (base @ ''/status'') [(''hash'', hash)]) = Some req"
  shows "let (sv', r) = answer_request sha1 su up txt req (e, ts)
    in (fst sv', reply_of txt r) = route_request sha1 su up txt base (HttpGet (base @ ''/status'') [(''hash'', hash)]) e"
proof -
  have req: "sq_path req = ''/status''" "sq_method req = MGet" "sq_query req = [(''hash'', hash)]"
    using assms by (auto simp: request_of_def strip_prefix_append)
  have p: "decode_play_params [(''hash'', hash)] = Some \<lparr>pp_hash = hash, pp_name = None, pp_size = None\<rparr>"
    by (simp add: decode_play_params_def query_field_def query_number_def)
  have a: "answer_request sha1 su up txt req (e, ts) =
      ((e, ts), map_option cors_middleware (map_option json_response (res_ok (handle_status sha1 up hash e))))"
    by (simp add: answer_request_def dispatch_def get_route_def req(1,2) route_status_def req(3) p)
  have b: "reply_of txt (Some (cors_middleware (json_response k))) = JsonBody k" "reply_of txt None = NotSent txt" for k
    by (simp_all add: reply_of_def cors_middleware_def json_response_def)
  show ?thesis by (cases "handle_status sha1 up hash e") (simp_all add: a b route_request_def)
qed

section \<open>The life of a server\<close>

text \<open>When the port is gone by the time the listener binds it, the server is made all the same, and no request is ever answered.\<close>

lemma bind_failure_unnoticed:
  assumes "local_server_new free False now c e = Ok s"
  shows "snd (server_step pip sha1 txt (SeRequest t su req) s) = None"
  using assms by (auto simp: local_server_new_def split: option.splits)

text \<open>After \<open>stop\<close> or the drop of the handle no request is let in; a second \<open>stop\<close> changes nothing.\<close>

lemma stopped_server_silent:
  "ls_sender s \<Longrightarrow> snd (server_step pip sha1 txt (SeRequest t su req) (local_server_stop s)) = None"
  "local_server_stop (local_server_stop s) = local_server_stop s"
  by (simp_all add: local_server_stop_def)

text \<open>
  A refused request has no header at all: a page of another origin cannot even read that it was refused. The player reads it as
  an answer that is not JSON.
\<close>

lemma refused_without_headers:
  assumes "\<not> snd (rate_limit_middleware pip now (sq_forwarded_for req) (ls_limiter s))"
  shows "snd (local_server_request pip sha1 txt now su req s) = Some (bare_response 429)"
    and "reply_of t (Some (bare_response 429)) = NotJson t"
  using assms by (simp_all add: local_server_request_def split_beta bare_response_def reply_of_def split: bool.split)

end
