(* ===== verification/Float32.thy ===== *)
theory Float32
  imports Float64
begin

text \<open>
  \<open>f32\<close>, in the same way as \<open>f64\<close>: a finite value is its rational, an operation rounds the exact result to the
  24 bits of the significand.
\<close>

type_synonym f32 = rat

definition f32_round :: "rat \<Rightarrow> f32" where
  "f32_round q = round_float 23 (- 149) q"

definition f32_add :: "f32 \<Rightarrow> f32 \<Rightarrow> f32" where "f32_add x y = f32_round (x + y)"
definition f32_sub :: "f32 \<Rightarrow> f32 \<Rightarrow> f32" where "f32_sub x y = f32_round (x - y)"
definition f32_mul :: "f32 \<Rightarrow> f32 \<Rightarrow> f32" where "f32_mul x y = f32_round (x * y)"

text \<open>Division by a value other than 0.\<close>

definition f32_div :: "f32 \<Rightarrow> f32 \<Rightarrow> f32" where "f32_div x y = f32_round (x / y)"

definition f32_of_nat :: "nat \<Rightarrow> f32" where "f32_of_nat n = f32_round (of_nat n)"

definition f32_of_f64 :: "f64 \<Rightarrow> f32" where "f32_of_f64 x = f32_round x"

text \<open>The cast \<open>as u64\<close> truncates and saturates, as for \<open>f64\<close>; \<open>clamp\<close>.\<close>

definition f32_to_u64 :: "f32 \<Rightarrow> u64" where "f32_to_u64 x = f64_to_u64 x"

definition clamp :: "'a::linorder \<Rightarrow> 'a \<Rightarrow> 'a \<Rightarrow> 'a" where
  "clamp lo hi x = (if x < lo then lo else if hi < x then hi else x)"

lemma clamp_bounds: "lo \<le> hi \<Longrightarrow> lo \<le> clamp lo hi x \<and> clamp lo hi x \<le> hi"
  by (auto simp: clamp_def)

lemma clamp_id: "lo \<le> x \<Longrightarrow> x \<le> hi \<Longrightarrow> clamp lo hi x = x"
  by (auto simp: clamp_def)

lemma f32_round_mono: "x \<le> y \<Longrightarrow> f32_round x \<le> f32_round y"
  unfolding f32_round_def by (rule round_float_mono)

lemma f32_round_int: "\<bar>n\<bar> \<le> 2 ^ 24 \<Longrightarrow> f32_round (of_int n) = of_int n"
  using round_float_int [of n 23] by (simp add: f32_round_def)

lemma f32_round_0 [simp]: "f32_round 0 = 0"
  using f32_round_int [of 0] by simp

lemma f32_round_1 [simp]: "f32_round 1 = 1"
  using f32_round_int [of 1] by simp

lemma f32_round_nonneg: "0 \<le> x \<Longrightarrow> 0 \<le> f32_round x"
  using f32_round_mono [of 0 x] by simp

lemma f32_of_nat_mono: "m \<le> n \<Longrightarrow> f32_of_nat m \<le> f32_of_nat n"
  unfolding f32_of_nat_def by (intro f32_round_mono) simp

lemma f32_of_nat_pos: "0 < n \<Longrightarrow> 1 \<le> f32_of_nat n"
  using f32_of_nat_mono [of 1 n] by (simp add: f32_of_nat_def)

lemma f32_tenth: "f32_round (1 / 10) = 13421773 / 2 ^ 27"
  using round_float_eval [of "- 4" "1 / 10" "- 149" 23 13421773]
  by (simp add: f32_round_def power_int_def power_divide)

lemma f32_tenth_exact: "f32_round (f32_round (1 / 10)) = f32_round (1 / 10)"
  unfolding f32_tenth using round_float_eval [of "- 4" "13421773 / 2 ^ 27" "- 149" 23 13421773]
  by (simp add: f32_round_def power_int_def power_divide)

text \<open>A quotient of numbers in order is between 0 and 1, however they round.\<close>

lemma f32_ratio_bounds:
  assumes "m \<le> n" and "0 < n"
  shows "0 \<le> f32_div (f32_of_nat m) (f32_of_nat n) \<and> f32_div (f32_of_nat m) (f32_of_nat n) \<le> 1"
proof -
  have le: "0 \<le> f32_of_nat m" "f32_of_nat m \<le> f32_of_nat n" "0 < f32_of_nat n"
    using f32_of_nat_mono [of 0 m] f32_of_nat_mono [OF assms(1)] f32_of_nat_pos [OF assms(2)] by (simp_all add: f32_of_nat_def)
  then have "0 \<le> f32_of_nat m / f32_of_nat n" "f32_of_nat m / f32_of_nat n \<le> 1" by simp_all
  then show ?thesis
    unfolding f32_div_def using f32_round_nonneg f32_round_mono [of _ 1] by force
qed

end
