(* ===== verification/Playlist.thy ===== *)
theory Playlist
  imports Float32 Rust_Std
begin

text \<open>
  The task list of the desktop player (\<open>qvs-gui/src/playlist.rs\<close>, with the entries of \<open>skin/mod.rs\<close>). What the
  user did in a frame is an argument of the frame; the answers of the skin are those of \<open>Qvod6Skin\<close>
  (\<open>skin/qvod6.rs\<close>), drawing is left out. Indices are natural numbers: they index a list.
\<close>

section \<open>Entries and actions\<close>

datatype task_status = TsDownloading | TsPaused | TsCompleted | TsError string

record task_entry =
  te_title :: string
  te_uri :: string
  te_status :: task_status
  te_progress :: f64
  te_downloaded :: u64
  te_total :: u64
  te_speed_down :: f64
  te_speed_up :: f64

definition task_entry_default :: task_entry where
  "task_entry_default = \<lparr>te_title = [], te_uri = [], te_status = TsDownloading, te_progress = 0, te_downloaded = 0,
     te_total = 0, te_speed_down = 0, te_speed_up = 0\<rparr>"

datatype task_action = TaNone | TaSelect nat | TaPlay nat | TaRemove nat | TaContextMenu nat

datatype context_menu_action =
    CmPlay | CmPause | CmStop | CmRestart | CmRemove | CmProperties | CmToggleFullscreen | CmAspectRatio4x3
  | CmAspectRatio16x9 | CmAspectRatioOriginal | CmOpenSettings | CmAbout | CmPriorityHigh | CmPriorityNormal | CmPriorityLow

type_synonym pos2 = "f32 \<times> f32"

record playlist =
  pl_entries :: "task_entry list"
  pl_selected :: "nat option"
  pl_tab_active :: nat
  pl_history :: "string list"
  pl_menu :: "(nat \<times> pos2) option"

definition playlist_new :: playlist where
  "playlist_new = \<lparr>pl_entries = [], pl_selected = None, pl_tab_active = 0, pl_history = [], pl_menu = None\<rparr>"

section \<open>Operations\<close>

definition pl_add :: "task_entry \<Rightarrow> playlist \<Rightarrow> playlist" where
  "pl_add entry p = p\<lparr>pl_entries := pl_entries p @ [entry]\<rparr>"

definition remove_at :: "nat \<Rightarrow> 'a list \<Rightarrow> 'a list" where
  "remove_at i xs = take i xs @ drop (i + 1) xs"

definition pl_remove :: "nat \<Rightarrow> playlist \<Rightarrow> playlist" where
  "pl_remove index p =
     (if index < length (pl_entries p) then
        p\<lparr>pl_entries := remove_at index (pl_entries p),
          pl_selected := (case pl_selected p of
             None \<Rightarrow> None
           | Some selected \<Rightarrow> if index < selected then Some (selected - 1) else if index = selected then None else Some selected)\<rparr>
      else p)"

definition pl_clear :: "playlist \<Rightarrow> playlist" where
  "pl_clear p = p\<lparr>pl_entries := [], pl_selected := None\<rparr>"

definition pl_play :: "nat \<Rightarrow> playlist \<Rightarrow> playlist \<times> task_entry option" where
  "pl_play index p =
     (if index < length (pl_entries p) then
        let entry = pl_entries p ! index; h = pl_history p @ [te_uri entry]
        in (p\<lparr>pl_selected := Some index, pl_history := (if 100 < length h then remove_at 0 h else h)\<rparr>, Some entry)
      else (p, None))"

definition pl_current :: "playlist \<Rightarrow> (task_entry option, unit) result" where
  "pl_current p =
     (case pl_selected p of
        None \<Rightarrow> Ok None
      | Some i \<Rightarrow> if i < length (pl_entries p) then Ok (Some (pl_entries p ! i)) else Panic)"

definition swap :: "nat \<Rightarrow> nat \<Rightarrow> 'a list \<Rightarrow> 'a list" where
  "swap i j xs = xs[i := xs ! j, j := xs ! i]"

definition pl_move_up :: "nat \<Rightarrow> playlist \<Rightarrow> playlist" where
  "pl_move_up index p =
     (if 0 < index \<and> index < length (pl_entries p) then
        p\<lparr>pl_entries := swap index (index - 1) (pl_entries p),
          pl_selected := (case pl_selected p of
             None \<Rightarrow> None
           | Some selected \<Rightarrow> if selected = index then Some (index - 1) else if selected = index - 1 then Some index else Some selected)\<rparr>
      else p)"

definition pl_move_down :: "nat \<Rightarrow> playlist \<Rightarrow> playlist" where
  "pl_move_down index p =
     (if index + 1 < length (pl_entries p) then
        p\<lparr>pl_entries := swap index (index + 1) (pl_entries p),
          pl_selected := (case pl_selected p of
             None \<Rightarrow> None
           | Some selected \<Rightarrow> if selected = index then Some (index + 1) else if selected = index + 1 then Some index else Some selected)\<rparr>
      else p)"

definition pl_set_history :: "string list \<Rightarrow> playlist \<Rightarrow> playlist" where
  "pl_set_history h p = p\<lparr>pl_history := h\<rparr>"

section \<open>A frame\<close>

text \<open>
  What the user did: the tab clicked, the entries clicked, whether the secondary button was clicked anywhere, the
  position of the pointer, the item chosen from the context menu, whether any button was clicked.
\<close>

record playlist_input =
  pu_tab :: "nat option"
  pu_clicked :: "nat list"
  pu_secondary :: bool
  pu_pointer :: "pos2 option"
  pu_item :: "context_menu_action option"
  pu_any_click :: bool

definition draw_tab_bar :: "nat \<Rightarrow> nat option \<Rightarrow> nat \<Rightarrow> nat" where
  "draw_tab_bar tabs clicked active = (case clicked of Some i \<Rightarrow> if i < tabs then i else active | None \<Rightarrow> active)"

definition draw_task_entry :: "playlist_input \<Rightarrow> nat \<Rightarrow> bool \<Rightarrow> task_action" where
  "draw_task_entry u index selected =
     (if selected \<and> pu_secondary u then TaContextMenu index
      else if index \<in> set (pu_clicked u) then TaSelect index else TaNone)"

text \<open>The action of the last entry that has one counts.\<close>

definition entries_action :: "playlist_input \<Rightarrow> playlist \<Rightarrow> task_action" where
  "entries_action u p =
     fold (\<lambda>i act. let r = draw_task_entry u i (pl_selected p = Some i) in if r = TaNone then act else r)
       [0..<length (pl_entries p)] TaNone"

definition entries_ui :: "playlist_input \<Rightarrow> playlist \<Rightarrow> playlist" where
  "entries_ui u p =
     (case entries_action u p of
        TaSelect i \<Rightarrow> p\<lparr>pl_selected := Some i\<rparr>
      | TaContextMenu i \<Rightarrow> p\<lparr>pl_menu := Some (i, case pu_pointer u of Some c \<Rightarrow> c | None \<Rightarrow> (0, 0))\<rparr>
      | _ \<Rightarrow> p)"

definition menu_ui :: "playlist_input \<Rightarrow> playlist \<Rightarrow> (playlist, unit) result" where
  "menu_ui u p =
     (case pl_menu p of
        None \<Rightarrow> Ok p
      | Some (i, _) \<Rightarrow>
          (case pu_item u of
             Some CmRemove \<Rightarrow>
               if i < length (pl_entries p)
               then Ok (p\<lparr>pl_menu := None, pl_entries := remove_at i (pl_entries p), pl_selected := None\<rparr>) else Panic
           | Some _ \<Rightarrow> Ok (p\<lparr>pl_menu := None\<rparr>)
           | None \<Rightarrow> Ok (if pu_any_click u then p\<lparr>pl_menu := None\<rparr> else p)))"

definition playlist_ui :: "playlist_input \<Rightarrow> playlist \<Rightarrow> (playlist, unit) result" where
  "playlist_ui u p = menu_ui u (entries_ui u (p\<lparr>pl_tab_active := draw_tab_bar 2 (pu_tab u) (pl_tab_active p)\<rparr>))"

section \<open>Indices stay valid\<close>

definition pl_wf :: "playlist \<Rightarrow> bool" where
  "pl_wf p \<longleftrightarrow> (\<forall>i. pl_selected p = Some i \<longrightarrow> i < length (pl_entries p)) \<and> length (pl_history p) \<le> 100"

lemma length_remove_at [simp]: "i < length xs \<Longrightarrow> length (remove_at i xs) = length xs - 1"
  by (simp add: remove_at_def)

lemma nth_remove_at: "i < length xs \<Longrightarrow> j < length xs - 1 \<Longrightarrow> remove_at i xs ! j = (if j < i then xs ! j else xs ! (j + 1))"
  by (auto simp: remove_at_def nth_append min_def)

lemma length_swap [simp]: "length (swap i j xs) = length xs"
  by (simp add: swap_def)

lemma nth_swap: "i < length xs \<Longrightarrow> j < length xs \<Longrightarrow> k < length xs \<Longrightarrow>
    swap i j xs ! k = (if k = j then xs ! i else if k = i then xs ! j else xs ! k)"
  by (auto simp: swap_def nth_list_update)

lemma pl_ops_wf:
  assumes "pl_wf p"
  shows "pl_wf (pl_add e p)" "pl_wf (pl_remove k p)" "pl_wf (pl_clear p)" "pl_wf (fst (pl_play k p))"
    "pl_wf (pl_move_up k p)" "pl_wf (pl_move_down k p)"
  using assms by (auto simp: pl_wf_def pl_add_def pl_remove_def pl_clear_def pl_play_def pl_move_up_def pl_move_down_def
      Let_def remove_at_def split: option.splits)

lemma entries_action_cases:
  "entries_action u p = TaNone \<or>
   (\<exists>i < length (pl_entries p). entries_action u p = draw_task_entry u i (pl_selected p = Some i))"
proof -
  have "fold (\<lambda>i act. let r = f i in if r = TaNone then act else r) [0..<n] TaNone = TaNone \<or>
      (\<exists>i < n. fold (\<lambda>i act. let r = f i in if r = TaNone then act else r) [0..<n] TaNone = f i)" for f n
    by (induction n) (auto simp: Let_def less_Suc_eq)
  then show ?thesis unfolding entries_action_def by simp
qed

lemma entries_action_index:
  "entries_action u p = TaSelect i \<or> entries_action u p = TaContextMenu i \<Longrightarrow> i < length (pl_entries p)"
  using entries_action_cases [of u p] by (auto simp: draw_task_entry_def split: if_splits)

lemma entries_action_menu: "entries_action u p = TaContextMenu i \<Longrightarrow> pu_secondary u"
  using entries_action_cases [of u p] by (auto simp: draw_task_entry_def split: if_splits)

lemma entries_ui_wf: "pl_wf p \<Longrightarrow> pl_wf (entries_ui u p)"
  using entries_action_index [of u p] by (auto simp: entries_ui_def pl_wf_def split: task_action.split)

lemma entries_ui_entries [simp]: "pl_entries (entries_ui u p) = pl_entries p"
  by (simp add: entries_ui_def split: task_action.split)

lemma playlist_ui_wf: "pl_wf p \<Longrightarrow> playlist_ui u p = Ok p' \<Longrightarrow> pl_wf p'"
proof -
  assume p: "pl_wf p" and ui: "playlist_ui u p = Ok p'"
  let ?q = "entries_ui u (p\<lparr>pl_tab_active := draw_tab_bar 2 (pu_tab u) (pl_tab_active p)\<rparr>)"
  from p have "pl_wf ?q" by (intro entries_ui_wf) (simp add: pl_wf_def)
  with ui show "pl_wf p'"
    by (auto simp: playlist_ui_def menu_ui_def pl_wf_def split: option.splits prod.splits context_menu_action.splits if_splits)
qed

text \<open>
  C35: moving entries up or down and removing others never changes which entry is the current one: its index follows
  it. Removing the current entry leaves none current, and reading the current entry never panics.
\<close>

theorem selection_follows_entry:
  assumes "pl_wf p" and "pl_selected p = Some i"
  shows "pl_current (pl_move_up k p) = pl_current p \<and> pl_current (pl_move_down k p) = pl_current p \<and>
    pl_current (pl_add e p) = pl_current p \<and> pl_current p = Ok (Some (pl_entries p ! i)) \<and>
    pl_current (pl_remove k p) = (if k = i then Ok None else pl_current p)"
proof (intro conjI)
  from assms have i: "i < length (pl_entries p)" by (simp add: pl_wf_def)
  with assms(2) show c: "pl_current p = Ok (Some (pl_entries p ! i))" by (simp add: pl_current_def)
  show "pl_current (pl_move_up k p) = pl_current p"
    unfolding c using i assms(2) by (auto simp: pl_current_def pl_move_up_def nth_swap)
  show "pl_current (pl_move_down k p) = pl_current p"
    unfolding c using i assms(2) by (auto simp: pl_current_def pl_move_down_def nth_swap)
  show "pl_current (pl_add e p) = pl_current p"
    unfolding c using i assms(2) by (simp add: pl_current_def pl_add_def nth_append)
  show "pl_current (pl_remove k p) = (if k = i then Ok None else pl_current p)"
    unfolding c using i assms(2) by (auto simp: pl_current_def pl_remove_def nth_remove_at)
qed

theorem selection_follows_entry_witness:
  "let e = (\<lambda>u. task_entry_default\<lparr>te_uri := u\<rparr>);
       p = fst (pl_play 1 (pl_add (e ''c'') (pl_add (e ''b'') (pl_add (e ''a'') playlist_new))))
   in pl_current (pl_move_up 1 p) = Ok (Some (e ''b'')) \<and> pl_current (pl_remove 0 p) = Ok (Some (e ''b''))"
proof -
  define e :: "string \<Rightarrow> task_entry" where "e = (\<lambda>u. task_entry_default\<lparr>te_uri := u\<rparr>)"
  define p where "p = fst (pl_play 1 (pl_add (e ''c'') (pl_add (e ''b'') (pl_add (e ''a'') playlist_new))))"
  have p: "pl_entries p = [e ''a'', e ''b'', e ''c'']" "pl_selected p = Some 1" "pl_wf p"
    by (simp_all add: p_def pl_play_def pl_add_def playlist_new_def Let_def pl_wf_def)
  from selection_follows_entry [OF p(3,2), of 1] selection_follows_entry [OF p(3,2), of 0] p(1)
  show ?thesis unfolding Let_def e_def [symmetric] p_def [symmetric] by simp
qed

section \<open>The context menu\<close>

text \<open>
  What the user interface library guarantees of the input: a click of the secondary button is a click, and an item
  can be chosen only from a menu an earlier frame has drawn.
\<close>

definition input_ok :: "playlist_input \<Rightarrow> playlist \<Rightarrow> bool" where
  "input_ok u p \<longleftrightarrow> (pu_secondary u \<longrightarrow> pu_any_click u) \<and> (pu_item u \<noteq> None \<longrightarrow> pl_menu p \<noteq> None)"

text \<open>A session of the application: it adds entries and draws frames.\<close>

inductive playlist_session :: "playlist \<Rightarrow> task_entry list \<Rightarrow> bool" where
  session_new: "playlist_session playlist_new []"
| session_add: "playlist_session p es \<Longrightarrow> playlist_session (pl_add e p) (es @ [e])"
| session_frame: "playlist_session p es \<Longrightarrow> input_ok u p \<Longrightarrow> playlist_ui u p = Ok p' \<Longrightarrow> playlist_session p' es"

lemma playlist_ui_closed:
  assumes "input_ok u p" and "pl_menu p = None"
  shows "\<exists>p'. playlist_ui u p = Ok p' \<and> pl_menu p' = None \<and> pl_entries p' = pl_entries p"
proof -
  let ?q = "p\<lparr>pl_tab_active := draw_tab_bar 2 (pu_tab u) (pl_tab_active p)\<rparr>"
  from assms have item: "pu_item u = None" by (simp add: input_ok_def)
  with assms have "pl_menu (entries_ui u ?q) = None \<or> pu_any_click u"
    using entries_action_menu [of u ?q] by (auto simp: entries_ui_def input_ok_def split: task_action.split)
  then show ?thesis
    by (auto simp: playlist_ui_def menu_ui_def item split: option.split)
qed

lemma session_menu: "playlist_session p es \<Longrightarrow> pl_menu p = None \<and> pl_entries p = es"
proof (induction rule: playlist_session.induct)
  case (session_frame p es u p')
  then show ?case using playlist_ui_closed [of u p] by auto
qed (auto simp: playlist_new_def pl_add_def)

text \<open>
  The context menu of the task list never opens: the click that opens it closes it again within the frame. So
  through the interface no entry can be removed: in every session the list is what was added, in order, and no frame
  panics.
\<close>

theorem context_menu_never_opens:
  assumes "playlist_session p es" and "input_ok u p"
  shows "\<exists>p'. playlist_ui u p = Ok p' \<and> pl_menu p' = None \<and> pl_entries p' = es"
  using session_menu [OF assms(1)] playlist_ui_closed [OF assms(2)] by auto

theorem context_menu_never_opens_witness:
  "let p = pl_add task_entry_default playlist_new;
       u = \<lparr>pu_tab = None, pu_clicked = [0], pu_secondary = True, pu_pointer = Some (3, 4), pu_item = None, pu_any_click = True\<rparr>
   in \<exists>p' p''. playlist_ui u p = Ok p' \<and> playlist_ui u p' = Ok p'' \<and> pl_selected p' = Some 0 \<and> pl_menu p'' = None \<and> pl_entries p'' = [task_entry_default]"
proof -
  define p where "p = pl_add task_entry_default playlist_new"
  define u where "u = \<lparr>pu_tab = None, pu_clicked = [0], pu_secondary = True, pu_pointer = Some (3, 4), pu_item = None, pu_any_click = True\<rparr>"
  have s: "playlist_session p [task_entry_default]"
    using session_add [OF session_new, of task_entry_default] by (simp add: p_def)
  have ok: "input_ok u q" for q by (simp add: u_def input_ok_def)
  obtain p' where p': "playlist_ui u p = Ok p'" using context_menu_never_opens [OF s ok] by blast
  then have "pl_selected p' = Some 0"
    by (auto simp: p_def u_def playlist_ui_def menu_ui_def entries_ui_def entries_action_def pl_add_def playlist_new_def
        draw_task_entry_def draw_tab_bar_def)
  moreover obtain p'' where "playlist_ui u p' = Ok p''" "pl_menu p'' = None" "pl_entries p'' = [task_entry_default]"
    using context_menu_never_opens [OF session_frame [OF s ok p'] ok] by blast
  ultimately show ?thesis using p' unfolding Let_def p_def [symmetric] u_def [symmetric] by blast
qed

text \<open>Clearing the list leaves an open menu behind, whose item then panics.\<close>

lemma clear_keeps_menu:
  "pl_menu p = Some (i, c) \<Longrightarrow> pu_item u = Some CmRemove \<Longrightarrow> playlist_ui u (pl_clear p) = Panic"
  by (auto simp: pl_clear_def playlist_ui_def entries_ui_def entries_action_def menu_ui_def)

end
