(* ===== verification/Controls.thy ===== *)
theory Controls
  imports Float32
begin

text \<open>
  The playback controls (\<open>qvs-gui/src/controls.rs\<close>) and the video panel (\<open>player.rs\<close>) of the desktop player: the
  state and every operation, in \<open>f32\<close> arithmetic. What the skin reports of a frame is an argument; drawing is left out.
\<close>

section \<open>Controls\<close>

datatype playback_action = PaPlay | PaPause | PaToggle | PaSeekForward | PaSeekBackward | PaVolumeUp | PaVolumeDown | PaMute | PaStop

record player_controls =
  pc_playing :: bool
  pc_volume :: f32
  pc_muted :: bool
  pc_position_ms :: u64
  pc_duration_ms :: u64
  pc_buffered_seconds :: f64
  pc_fullscreen :: bool
  pc_stop_pressed :: bool

definition controls_new :: "u64 \<Rightarrow> player_controls" where
  "controls_new duration_ms = \<lparr>pc_playing = False, pc_volume = f32_round (4 / 5), pc_muted = False, pc_position_ms = 0,
     pc_duration_ms = duration_ms, pc_buffered_seconds = 0, pc_fullscreen = False, pc_stop_pressed = False\<rparr>"

definition toggle_play :: "player_controls \<Rightarrow> player_controls" where
  "toggle_play c = c\<lparr>pc_playing := \<not> pc_playing c\<rparr>"

definition seek_to :: "u64 \<Rightarrow> player_controls \<Rightarrow> player_controls" where
  "seek_to position_ms c = c\<lparr>pc_position_ms := min position_ms (pc_duration_ms c)\<rparr>"

definition set_volume :: "f32 \<Rightarrow> player_controls \<Rightarrow> player_controls" where
  "set_volume volume c = c\<lparr>pc_volume := clamp 0 1 volume\<rparr>"

definition toggle_mute :: "player_controls \<Rightarrow> player_controls" where
  "toggle_mute c = c\<lparr>pc_muted := \<not> pc_muted c\<rparr>"

text \<open>The addition wraps in a release build.\<close>

definition seek_forward :: "u64 \<Rightarrow> player_controls \<Rightarrow> player_controls" where
  "seek_forward amount_ms c = c\<lparr>pc_position_ms := min (pc_position_ms c + amount_ms) (pc_duration_ms c)\<rparr>"

definition seek_backward :: "u64 \<Rightarrow> player_controls \<Rightarrow> player_controls" where
  "seek_backward amount_ms c =
     c\<lparr>pc_position_ms := (if pc_position_ms c < amount_ms then 0 else pc_position_ms c - amount_ms)\<rparr>"

definition effective_volume :: "player_controls \<Rightarrow> f32" where
  "effective_volume c = (if pc_muted c then 0 else pc_volume c)"

definition progress :: "player_controls \<Rightarrow> f32" where
  "progress c =
     (if pc_duration_ms c = 0 then 0 else f32_div (f32_of_nat (unat (pc_position_ms c))) (f32_of_nat (unat (pc_duration_ms c))))"

definition buffered_progress :: "player_controls \<Rightarrow> f32" where
  "buffered_progress c =
     (if pc_duration_ms c = 0 then 0
      else f32_div (f32_of_f64 (pc_buffered_seconds c)) (f32_div (f32_of_nat (unat (pc_duration_ms c))) 1000))"

definition controls_reset :: "player_controls \<Rightarrow> player_controls" where
  "controls_reset c = c\<lparr>pc_playing := False, pc_position_ms := 0, pc_buffered_seconds := 0, pc_stop_pressed := False\<rparr>"

text \<open>
  What the skin reports: the buttons clicked, the place of the pointer on the progress bar (a value it clamps to 0..1),
  a click of the speaker and the place of the pointer on the volume slider.
\<close>

record controls_input =
  ci_play :: bool
  ci_stop :: bool
  ci_progress :: "f32 option"
  ci_mute :: bool
  ci_slider :: "f32 option"
  ci_fullscreen :: bool

definition draw_progress_bar :: "f32 option \<Rightarrow> f32 option" where
  "draw_progress_bar rel_x = map_option (clamp 0 1) rel_x"

definition draw_volume_control :: "controls_input \<Rightarrow> player_controls \<Rightarrow> player_controls" where
  "draw_volume_control u c =
     (let c1 = (if ci_mute u then c\<lparr>pc_muted := \<not> pc_muted c\<rparr> else c)
      in case ci_slider u of Some rel \<Rightarrow> c1\<lparr>pc_volume := clamp 0 1 rel, pc_muted := False\<rparr> | None \<Rightarrow> c1)"

definition controls_ui :: "controls_input \<Rightarrow> player_controls \<Rightarrow> player_controls" where
  "controls_ui u c =
     (let c1 = (if ci_play u then toggle_play c else c);
          c2 = (if ci_stop u then controls_reset (c1\<lparr>pc_stop_pressed := True\<rparr>) else c1);
          c3 = (case draw_progress_bar (ci_progress u) of
                  Some new_progress \<Rightarrow> seek_to (f32_to_u64 (f32_mul new_progress (f32_of_nat (unat (pc_duration_ms c2))))) c2
                | None \<Rightarrow> c2);
          c4 = draw_volume_control u c3
      in if ci_fullscreen u then c4\<lparr>pc_fullscreen := \<not> pc_fullscreen c4\<rparr> else c4)"

section \<open>The video panel\<close>

datatype aspect_ratio = Free | V4x3 | V16x9 | Original

definition ar_variants :: "aspect_ratio list" where "ar_variants = [Original, V16x9, V4x3, Free]"

datatype zoom_mode = FitToWindow | OriginalSize | CustomZoom f32

type_synonym vec2 = "f32 \<times> f32"

record rect =
  rt_min :: vec2
  rt_max :: vec2

record player_panel =
  pnl_controls :: player_controls
  pnl_video_texture :: bool
  pnl_buffer_progress :: f32
  pnl_aspect_ratio :: aspect_ratio
  pnl_zoom_mode :: zoom_mode
  pnl_video_width :: u32
  pnl_video_height :: u32
  pnl_pan_offset :: vec2

definition panel_new :: player_panel where
  "panel_new = \<lparr>pnl_controls = controls_new 0, pnl_video_texture = False, pnl_buffer_progress = 0, pnl_aspect_ratio = Original,
     pnl_zoom_mode = FitToWindow, pnl_video_width = 0, pnl_video_height = 0, pnl_pan_offset = (0, 0)\<rparr>"

definition set_video_texture :: "player_panel \<Rightarrow> player_panel" where "set_video_texture p = p\<lparr>pnl_video_texture := True\<rparr>"

definition clear_video :: "player_panel \<Rightarrow> player_panel" where "clear_video p = p\<lparr>pnl_video_texture := False\<rparr>"

definition set_video_dimensions :: "u32 \<Rightarrow> u32 \<Rightarrow> player_panel \<Rightarrow> player_panel" where
  "set_video_dimensions w h p = p\<lparr>pnl_video_width := w, pnl_video_height := h\<rparr>"

definition zoom_in :: "player_panel \<Rightarrow> player_panel" where
  "zoom_in p =
     (case pnl_zoom_mode p of
        FitToWindow \<Rightarrow> p\<lparr>pnl_zoom_mode := CustomZoom (3 / 2)\<rparr>
      | OriginalSize \<Rightarrow> p\<lparr>pnl_zoom_mode := CustomZoom (3 / 2)\<rparr>
      | CustomZoom z \<Rightarrow> p\<lparr>pnl_zoom_mode := CustomZoom (min (f32_mul z (5 / 4)) 10)\<rparr>)"

definition zoom_out :: "player_panel \<Rightarrow> player_panel" where
  "zoom_out p =
     (case pnl_zoom_mode p of
        FitToWindow \<Rightarrow> p\<lparr>pnl_zoom_mode := CustomZoom (3 / 4)\<rparr>
      | OriginalSize \<Rightarrow> p\<lparr>pnl_zoom_mode := CustomZoom (3 / 4)\<rparr>
      | CustomZoom z \<Rightarrow>
          (let new_z = max (f32_div z (5 / 4)) (f32_round (1 / 10))
           in if \<bar>f32_sub new_z 1\<bar> < f32_round (1 / 20) then p\<lparr>pnl_zoom_mode := FitToWindow, pnl_pan_offset := (0, 0)\<rparr>
              else p\<lparr>pnl_zoom_mode := CustomZoom new_z\<rparr>))"

definition reset_zoom :: "player_panel \<Rightarrow> player_panel" where
  "reset_zoom p = p\<lparr>pnl_zoom_mode := FitToWindow, pnl_pan_offset := (0, 0)\<rparr>"

definition panel_reset :: "u64 \<Rightarrow> player_panel \<Rightarrow> player_panel" where
  "panel_reset duration_ms p = panel_new\<lparr>pnl_controls := controls_new duration_ms\<rparr>"

section \<open>Where the picture is drawn\<close>

text \<open>What the code uses of the rectangles of \<open>egui\<close> is a parameter; its vectors are pairs.\<close>

record geometry =
  geo_size :: "rect \<Rightarrow> vec2"
  geo_center :: "rect \<Rightarrow> vec2"
  geo_from_center_size :: "vec2 \<Rightarrow> vec2 \<Rightarrow> rect"

definition is_zoomed_in :: "vec2 \<Rightarrow> vec2 \<Rightarrow> bool" where
  "is_zoomed_in display viewport \<longleftrightarrow> f32_add (fst viewport) 1 < fst display \<or> f32_add (snd viewport) 1 < snd display"

definition effective_aspect_ratio :: "player_panel \<Rightarrow> f32" where
  "effective_aspect_ratio p =
     (case pnl_aspect_ratio p of
        Free \<Rightarrow> 1
      | V4x3 \<Rightarrow> f32_div 4 3
      | V16x9 \<Rightarrow> f32_div 16 9
      | Original \<Rightarrow>
          if 0 < pnl_video_width p \<and> 0 < pnl_video_height p
          then f32_div (f32_of_nat (unat (pnl_video_width p))) (f32_of_nat (unat (pnl_video_height p)))
          else f32_div 16 9)"

text \<open>The size of the letterbox; the viewport is not empty.\<close>

definition letterbox_size :: "f32 \<Rightarrow> vec2 \<Rightarrow> vec2" where
  "letterbox_size ar avail =
     (if ar < f32_div (fst avail) (snd avail) then (f32_mul (snd avail) ar, snd avail) else (fst avail, f32_div (fst avail) ar))"

definition letterbox_rect :: "geometry \<Rightarrow> player_panel \<Rightarrow> rect \<Rightarrow> rect" where
  "letterbox_rect g p available =
     geo_from_center_size g (geo_center g available) (letterbox_size (effective_aspect_ratio p) (geo_size g available))"

definition max_pan :: "vec2 \<Rightarrow> vec2 \<Rightarrow> vec2" where
  "max_pan display viewport =
     (max (f32_div (f32_sub (fst display) (fst viewport)) 2) 0, max (f32_div (f32_sub (snd display) (snd viewport)) 2) 0)"

definition clamp_pan :: "vec2 \<Rightarrow> vec2 \<Rightarrow> vec2" where
  "clamp_pan m v = (clamp (- fst m) (fst m) (fst v), clamp (- snd m) (snd m) (snd v))"

definition zoom_scale :: "player_panel \<Rightarrow> vec2 \<Rightarrow> f32" where
  "zoom_scale p lb_size =
     (case pnl_zoom_mode p of
        FitToWindow \<Rightarrow> 1
      | OriginalSize \<Rightarrow>
          if 0 < pnl_video_width p \<and> 0 < fst lb_size
          then max (f32_div (f32_of_nat (unat (pnl_video_width p))) (fst lb_size)) (f32_round (1 / 10)) else 1
      | CustomZoom z \<Rightarrow> max z (f32_round (1 / 10)))"

definition display_rect :: "geometry \<Rightarrow> player_panel \<Rightarrow> rect \<Rightarrow> rect" where
  "display_rect g p available =
     (if pnl_aspect_ratio p = Free then available
      else let lb_size = geo_size g (letterbox_rect g p available);
               scale = zoom_scale p lb_size;
               display_size = (f32_mul (fst lb_size) scale, f32_mul (snd lb_size) scale);
               clamped = clamp_pan (max_pan display_size (geo_size g available)) (pnl_pan_offset p);
               center = geo_center g available
           in geo_from_center_size g (f32_add (fst center) (fst clamped), f32_add (snd center) (snd clamped)) display_size)"

text \<open>
  What the pointer did over the panel in a frame. The result is the early return of an error state, which skips the
  rest of the frame, or the panel after wheel, drag and double click.
\<close>

record panel_input =
  pni_hovered :: bool
  pni_scroll_y :: f32
  pni_drag :: vec2
  pni_double_click :: bool

definition f32_epsilon :: f32 where "f32_epsilon = 1 / 2 ^ 23"

definition panel_ui :: "geometry \<Rightarrow> panel_input \<Rightarrow> rect \<Rightarrow> bool \<Rightarrow> player_panel \<Rightarrow> player_panel" where
  "panel_ui g u rect error p =
     (let dsize = geo_size g (display_rect g p rect)
      in if \<not> pnl_video_texture p \<and> error then p
         else
           let p1 = (if pni_hovered u \<and> f32_epsilon < \<bar>pni_scroll_y u\<bar>
                     then if 0 < pni_scroll_y u then zoom_in p else zoom_out p else p);
               p2 = (if is_zoomed_in dsize (geo_size g rect) \<and> pni_drag u \<noteq> (0, 0)
                     then p1\<lparr>pnl_pan_offset := clamp_pan (max_pan dsize (geo_size g rect))
                       (f32_add (fst (pnl_pan_offset p1)) (fst (pni_drag u)), f32_add (snd (pnl_pan_offset p1)) (snd (pni_drag u)))\<rparr>
                     else p1)
           in if pni_double_click u then reset_zoom p2 else p2)"

section \<open>Bounds of the controls\<close>

definition controls_ok :: "player_controls \<Rightarrow> bool" where
  "controls_ok c \<longleftrightarrow> pc_position_ms c \<le> pc_duration_ms c \<and> 0 \<le> pc_volume c \<and> pc_volume c \<le> 1"

lemma controls_new_ok: "controls_ok (controls_new d)"
  using f32_round_mono [of 0 "4 / 5"] f32_round_mono [of "4 / 5" 1] by (simp add: controls_ok_def controls_new_def)

lemma controls_ops_ok:
  assumes "controls_ok c"
  shows "controls_ok (toggle_play c)" "controls_ok (seek_to t c)" "controls_ok (set_volume v c)" "controls_ok (toggle_mute c)"
    "controls_ok (seek_forward n c)" "controls_ok (seek_backward n c)" "controls_ok (controls_reset c)"
    "controls_ok (draw_volume_control u c)"
proof -
  have "n \<le> pc_position_ms c \<Longrightarrow> pc_position_ms c - n \<le> pc_position_ms c" by (simp add: word_sub_le)
  with assms show "controls_ok (seek_backward n c)"
    by (auto simp: controls_ok_def seek_backward_def not_less)
qed (use assms in \<open>auto simp: controls_ok_def toggle_play_def seek_to_def set_volume_def toggle_mute_def seek_forward_def
      controls_reset_def draw_volume_control_def clamp_bounds Let_def split: option.split\<close>)

lemma controls_ui_ok: "controls_ok c \<Longrightarrow> controls_ok (controls_ui u c)"
proof -
  have f: "controls_ok c \<Longrightarrow> controls_ok (c\<lparr>pc_fullscreen := b\<rparr>)" for c b
    by (simp add: controls_ok_def)
  have s: "controls_ok c \<Longrightarrow> controls_ok (c\<lparr>pc_stop_pressed := b\<rparr>)" for c b
    by (simp add: controls_ok_def)
  show "controls_ok c \<Longrightarrow> controls_ok (controls_ui u c)"
    by (auto simp: controls_ui_def Let_def intro!: f s controls_ops_ok split: option.split)
qed

text \<open>
  C36: however the user clicks and drags, a frame of the controls keeps the position within the file and the volume
  between 0 and 1; the progress drawn, computed in single precision, is then between 0 and 1 as well.
\<close>

theorem controls_frame_bounds:
  assumes "pc_position_ms c \<le> pc_duration_ms c" and "0 \<le> pc_volume c" and "pc_volume c \<le> 1" and "c' = controls_ui u c"
  shows "pc_position_ms c' \<le> pc_duration_ms c' \<and> 0 \<le> pc_volume c' \<and> pc_volume c' \<le> 1 \<and> 0 \<le> progress c' \<and> progress c' \<le> 1"
proof -
  from assms(1-3) have "controls_ok c" by (simp add: controls_ok_def)
  then have ok: "controls_ok c'" unfolding assms(4) by (rule controls_ui_ok)
  have "0 \<le> progress c' \<and> progress c' \<le> 1"
  proof (cases "pc_duration_ms c' = 0")
    case False
    then have "0 < unat (pc_duration_ms c')" by (simp add: unat_gt_0)
    with ok f32_ratio_bounds [of "unat (pc_position_ms c')" "unat (pc_duration_ms c')"] False show ?thesis
      by (simp add: progress_def controls_ok_def word_le_nat_alt)
  qed (simp add: progress_def)
  with ok show ?thesis by (simp add: controls_ok_def)
qed

theorem controls_frame_bounds_witness:
  "let c = (controls_new 10000)\<lparr>pc_position_ms := 4000\<rparr>;
       u = \<lparr>ci_play = True, ci_stop = False, ci_progress = Some (5 / 4), ci_mute = False, ci_slider = Some (- 1), ci_fullscreen = False\<rparr>;
       c' = controls_ui u c
   in pc_position_ms c' = 10000 \<and> pc_volume c' = 0 \<and> pc_playing c' \<and> progress c' \<le> 1"
proof -
  let ?c = "(controls_new 10000)\<lparr>pc_position_ms := 4000\<rparr>"
  let ?u = "\<lparr>ci_play = True, ci_stop = False, ci_progress = Some (5 / 4), ci_mute = False, ci_slider = Some (- 1), ci_fullscreen = False\<rparr>"
  have n: "f32_of_nat 10000 = 10000" using f32_round_int [of 10000] by (simp add: f32_of_nat_def)
  have "f32_mul 1 (f32_of_nat 10000) = 10000" using f32_round_int [of 10000] by (simp add: f32_mul_def n)
  then have "pc_position_ms (controls_ui ?u ?c) = 10000" "pc_volume (controls_ui ?u ?c) = 0" "pc_playing (controls_ui ?u ?c)"
    by (simp_all add: controls_ui_def Let_def toggle_play_def controls_new_def draw_progress_bar_def clamp_def seek_to_def
        draw_volume_control_def f32_to_u64_def f64_to_u64_def)
  moreover have "(4000 :: u64) \<le> 10000" by simp
  then have "progress (controls_ui ?u ?c) \<le> 1"
    using controls_frame_bounds [of ?c "controls_ui ?u ?c" ?u] controls_new_ok [of 10000] by (simp add: controls_ok_def controls_new_def)
  ultimately show ?thesis by (simp only: Let_def simp_thms)
qed

text \<open>The stop button resets the flag that reports it, so nothing after the frame sees it.\<close>

lemma stop_pressed_lost: "\<not> pc_stop_pressed c \<Longrightarrow> \<not> pc_stop_pressed (controls_ui u c)"
  by (auto simp: controls_ui_def Let_def controls_reset_def toggle_play_def seek_to_def draw_volume_control_def split: option.split)

text \<open>A forward seek near the end of the 64 bits wraps to the start.\<close>

lemma seek_forward_wraps:
  "pc_position_ms (seek_forward 10000 ((controls_new (- 1))\<lparr>pc_position_ms := - 1\<rparr>)) = 9999"
  by code_simp

section \<open>Bounds of the zoom\<close>

definition zoom_ok :: "player_panel \<Rightarrow> bool" where
  "zoom_ok p \<longleftrightarrow> (\<forall>z. pnl_zoom_mode p = CustomZoom z \<longrightarrow> f32_round (1 / 10) \<le> z \<and> z \<le> 10)"

lemma zoom_ops_ok:
  assumes "zoom_ok p"
  shows "zoom_ok (zoom_in p)" "zoom_ok (zoom_out p)" "zoom_ok (reset_zoom p)"
proof -
  have up: "f32_round (1 / 10) \<le> f32_mul z (5 / 4)" if z: "f32_round (1 / 10) \<le> z" for z
  proof -
    from z have "f32_round (1 / 10) \<le> z * (5 / 4)" by (simp add: f32_tenth)
    then show ?thesis using f32_round_mono f32_tenth_exact by (metis f32_mul_def)
  qed
  have ten: "f32_round (1 / 10) \<le> 10" "f32_round (1 / 10) \<le> 3 / 2" by (simp_all add: f32_tenth)
  show "zoom_ok (zoom_in p)" 
    using assms up ten by (auto simp: zoom_ok_def zoom_in_def split: zoom_mode.splits)
  have down: "f32_div z (5 / 4) \<le> 10" if "z \<le> 10" for z
    using f32_round_mono [of "z / (5 / 4)" "of_int 10"] f32_round_int [of 10] that by (simp add: f32_div_def)
  show "zoom_ok (zoom_out p)"
    using assms down by (auto simp: zoom_ok_def zoom_out_def Let_def f32_tenth split: zoom_mode.splits)
qed (use assms in \<open>simp_all add: zoom_ok_def reset_zoom_def\<close>)


text \<open>A frame of the panel and its start keep the zoom between a tenth and ten.\<close>

lemma panel_ui_zoom:
  assumes "zoom_ok p"
  shows "zoom_ok (panel_ui g u rect error p)"
proof -
  have pan: "zoom_ok p \<Longrightarrow> zoom_ok (p\<lparr>pnl_pan_offset := v\<rparr>)" for p v by (simp add: zoom_ok_def)
  show ?thesis using assms by (auto simp: panel_ui_def Let_def intro!: zoom_ops_ok pan)
qed

lemma panel_new_zoom: "zoom_ok panel_new" "zoom_ok (panel_reset d p)"
  by (simp_all add: zoom_ok_def panel_new_def panel_reset_def)

text \<open>After a drag the offset leaves no gap between the picture and the edge of the panel.\<close>

lemma clamp_pan_bounds:
  "let m = max_pan d v; o' = clamp_pan m off in \<bar>fst o'\<bar> \<le> fst m \<and> \<bar>snd o'\<bar> \<le> snd m"
proof -
  have "0 \<le> fst (max_pan d v)" "0 \<le> snd (max_pan d v)" by (simp_all add: max_pan_def)
  then show ?thesis
    using clamp_bounds [of "- fst (max_pan d v)" "fst (max_pan d v)" "fst off"]
      clamp_bounds [of "- snd (max_pan d v)" "snd (max_pan d v)" "snd off"]
    by (auto simp: clamp_pan_def Let_def abs_le_iff)
qed

end
