(* ===== verification/Gui_State.thy ===== *)
theory Gui_State
  imports Float64 Rust_Std
begin

text \<open>
  The settings of the desktop player (\<open>qvs-gui/src/settings.rs\<close>) and its network status (\<open>status.rs\<close>). The TOML text
  of the settings and the directories of the platform are parameters; the page on which they are edited is
  \<open>Settings_Page\<close>.
\<close>

section \<open>Settings\<close>

record app_settings =
  se_cache_dir :: string
  se_cache_size_gb :: "32 word"
  se_local_server_port :: u16
  se_server_url :: "string option"
  se_max_connections :: "32 word"
  se_http_fallback :: bool
  se_tracker_urls :: "string list"
  se_dht_seed_nodes :: "string list"
  se_language :: string
  se_theme :: string
  se_playlist_history :: "string list"

text \<open>\<open>baked\<close> is the address given when the program was built, \<open>cache_dir\<close> the directory of the platform; neither ends with a slash.\<close>

definition settings_default :: "string option \<Rightarrow> string option \<Rightarrow> app_settings" where
  "settings_default baked cache_dir =
     \<lparr>se_cache_dir = (case cache_dir of Some d \<Rightarrow> d | None \<Rightarrow> ''/tmp'') @ ''/qvs'', se_cache_size_gb = 10, se_local_server_port = 8621,
      se_server_url = baked, se_max_connections = 50, se_http_fallback = True,
      se_tracker_urls = [''http://tracker.qvod.com:8621/announce''], se_dht_seed_nodes = [''router.bittorrent.com:6881''],
      se_language = ''zh-CN'', se_theme = ''dark'', se_playlist_history = []\<rparr>"

definition with_cli_server_url :: "string option \<Rightarrow> app_settings \<Rightarrow> app_settings" where
  "with_cli_server_url cli s = (case cli of Some url \<Rightarrow> s\<lparr>se_server_url := Some url\<rparr> | None \<Rightarrow> s)"

definition config_path :: "string option \<Rightarrow> string" where
  "config_path config_dir = (case config_dir of Some d \<Rightarrow> d | None \<Rightarrow> ''.'') @ ''/qvs/settings.toml''"

text \<open>The settings file is its text, if there is one; \<open>writable\<close> tells whether it can be written, with the error.\<close>

definition settings_save :: "(app_settings \<Rightarrow> (string, string) result) \<Rightarrow> (unit, string) result \<Rightarrow> app_settings \<Rightarrow> string option \<Rightarrow>
    string option \<times> (unit, string) result" where
  "settings_save enc writable s file =
     (case enc s of
        Ok data \<Rightarrow> (case writable of Ok _ \<Rightarrow> (Some data, Ok ()) | Err e \<Rightarrow> (file, Err e) | Panic \<Rightarrow> (file, Panic))
      | Err e \<Rightarrow> (file, Err e)
      | Panic \<Rightarrow> (file, Panic))"

definition settings_load :: "(string \<Rightarrow> app_settings option) \<Rightarrow> (app_settings \<Rightarrow> (string, string) result) \<Rightarrow> (unit, string) result \<Rightarrow>
    app_settings \<Rightarrow> string option \<Rightarrow> app_settings \<times> string option" where
  "settings_load dec enc writable dflt file =
     (case Option.bind file dec of
        Some s \<Rightarrow> (s, file)
      | None \<Rightarrow> (dflt, fst (settings_save enc writable dflt file)))"

definition cache_size_bytes :: "app_settings \<Rightarrow> u64" where
  "cache_size_bytes s = ucast (se_cache_size_gb s) * 1024 * 1024 * 1024"

text \<open>With a text format that can be read back, what was saved is loaded; the file stays as it is.\<close>

lemma settings_roundtrip:
  assumes "\<And>s data. enc s = Ok data \<Longrightarrow> dec data = Some s" and "settings_save enc writable s file = (file', Ok ())"
  shows "settings_load dec enc w d file' = (s, file')"
  using assms by (auto simp: settings_save_def settings_load_def split: result.splits)

text \<open>A file that cannot be decoded, of an older version say, is overwritten with the defaults.\<close>

lemma settings_lost:
  assumes "dec text = None" and "enc dflt = Ok data"
  shows "settings_load dec enc (Ok ()) dflt (Some text) = (dflt, Some data)"
  using assms by (simp add: settings_load_def settings_save_def)

section \<open>Network status\<close>

record peer_connection_info =
  pci_peer_id :: string
  pci_addr :: string
  pci_speed_down :: f64
  pci_speed_up :: f64
  pci_rtt :: nat

record network_status =
  ns_download_speed :: f64
  ns_upload_speed :: f64
  ns_connected_peers :: nat
  ns_buffer_progress :: f64
  ns_download_progress :: f64
  ns_dht_table_size :: nat
  ns_active_connections :: "peer_connection_info list"
  ns_server_url :: "string option"
  ns_server_connected :: bool

definition network_status_default :: network_status where
  "network_status_default = \<lparr>ns_download_speed = 0, ns_upload_speed = 0, ns_connected_peers = 0, ns_buffer_progress = 0,
     ns_download_progress = 0, ns_dht_table_size = 0, ns_active_connections = [], ns_server_url = None, ns_server_connected = False\<rparr>"

text \<open>Times in nanoseconds.\<close>

record status_panel =
  stp_status :: network_status
  stp_last_update :: nat
  stp_update_interval :: nat

definition status_panel_new :: "nat \<Rightarrow> status_panel" where
  "status_panel_new now = \<lparr>stp_status = network_status_default, stp_last_update = now, stp_update_interval = 10 ^ 9\<rparr>"

definition status_update :: "nat \<Rightarrow> network_status \<Rightarrow> status_panel \<Rightarrow> status_panel" where
  "status_update now n p = p\<lparr>stp_status := n, stp_last_update := now\<rparr>"

definition needs_update :: "nat \<Rightarrow> status_panel \<Rightarrow> bool" where
  "needs_update now p \<longleftrightarrow> stp_update_interval p \<le> now - stp_last_update p"

definition status_reset :: "nat \<Rightarrow> status_panel \<Rightarrow> status_panel" where
  "status_reset now p = p\<lparr>stp_status := network_status_default, stp_last_update := now\<rparr>"

end
