(* ===== verification/Settings_Page.thy ===== *)
theory Settings_Page
  imports Gui_State Media_Probe
begin

text \<open>
  The page of the desktop player on which the settings are edited (\<open>AppSettings::ui\<close> in \<open>qvs-gui/src/settings.rs\<close>). What
  the user did to its fields in a frame is an input; whether a path exists is asked of the parameter \<open>canon\<close>.
\<close>

section \<open>The fields\<close>

datatype qvod_theme = ThemeDark | ThemeLight | ThemeSystem

text \<open>A text field gives its text if the user has edited it, a slider its new value, the check box whether it was clicked.\<close>

record settings_input =
  si_cache_dir :: "string option"
  si_cache_size_gb :: "32 word option"
  si_local_server_port :: "u16 option"
  si_server_url :: "string option"
  si_max_connections :: "32 word option"
  si_http_fallback :: bool
  si_tracker_urls :: "string option"
  si_dht_seed_nodes :: "string option"
  si_language :: "string option"
  si_theme :: "qvod_theme option"
  si_save :: bool

definition settings_untouched :: settings_input where
  "settings_untouched = \<lparr>si_cache_dir = None, si_cache_size_gb = None, si_local_server_port = None, si_server_url = None,
     si_max_connections = None, si_http_fallback = False, si_tracker_urls = None, si_dht_seed_nodes = None, si_language = None,
     si_theme = None, si_save = False\<rparr>"

text \<open>The directory is made canonical in every frame, and a text that names no existing path is dropped.\<close>

definition edit_cache_dir :: "(string \<Rightarrow> string option) \<Rightarrow> string option \<Rightarrow> string \<Rightarrow> string" where
  "edit_cache_dir canon edited dir = unwrap_or dir (canon (unwrap_or dir edited))"

definition edit_server_url :: "string option \<Rightarrow> string option \<Rightarrow> string option" where
  "edit_server_url edited url = (case edited of Some t \<Rightarrow> if t = [] then None else Some t | None \<Rightarrow> url)"

text \<open>The field is filled from the list, and the list read back from it, in every frame.\<close>

definition edit_lines :: "string option \<Rightarrow> string list \<Rightarrow> string list" where
  "edit_lines edited us = str_lines (unwrap_or (join [CHR 0x0A] us) edited)"

definition settings_ui :: "(string \<Rightarrow> string option) \<Rightarrow> settings_input \<Rightarrow> app_settings \<times> qvod_theme \<Rightarrow> app_settings \<times> qvod_theme" where
  "settings_ui canon u st =
     (let (s, theme) = st
      in (s\<lparr>se_cache_dir := edit_cache_dir canon (si_cache_dir u) (se_cache_dir s),
            se_cache_size_gb := unwrap_or (se_cache_size_gb s) (si_cache_size_gb u),
            se_local_server_port := unwrap_or (se_local_server_port s) (si_local_server_port u),
            se_server_url := edit_server_url (si_server_url u) (se_server_url s),
            se_max_connections := unwrap_or (se_max_connections s) (si_max_connections u),
            se_http_fallback := (se_http_fallback s \<noteq> si_http_fallback u),
            se_tracker_urls := edit_lines (si_tracker_urls u) (se_tracker_urls s),
            se_dht_seed_nodes := edit_lines (si_dht_seed_nodes u) (se_dht_seed_nodes s),
            se_language := unwrap_or (se_language s) (si_language u)\<rparr>,
          unwrap_or theme (si_theme u)))"

text \<open>The button under the fields writes the settings; an error is dropped.\<close>

definition settings_page_save :: "(app_settings \<Rightarrow> (string, string) result) \<Rightarrow> (unit, string) result \<Rightarrow> settings_input \<Rightarrow> app_settings \<Rightarrow>
    string option \<Rightarrow> string option" where
  "settings_page_save enc writable u s file = (if si_save u then fst (settings_save enc writable s file) else file)"

section \<open>Lines\<close>

lemma length_split_on: "length (split_on c s) = Suc (count_list s c)"
  by (induction c s rule: split_on.induct) (auto split: list.splits)

lemma split_on_single: "split_on c s = [[]] \<longleftrightarrow> s = []"
  by (cases s) (auto split: list.splits)

lemma last_split_on: "last (split_on c s) = [] \<longleftrightarrow> s = [] \<or> last s = c"
  by (induction c s rule: split_on.induct) (auto simp: split_on_single split: list.splits)

lemma length_str_lines:
  "length (str_lines s) = count_list s (CHR 0x0A) + (if s = [] \<or> last s = CHR 0x0A then 0 else 1)"
  by (simp add: str_lines_def Let_def last_split_on length_split_on)

lemma split_on_pieces: "p \<in> set (split_on c s) \<Longrightarrow> c \<notin> set p"
  by (induction c s arbitrary: p rule: split_on.induct) (auto split: list.splits if_splits)

lemma strip_suffix_subset: "strip_suffix p s = Some t \<Longrightarrow> set t \<subseteq> set s"
  by (auto simp: strip_suffix_def split: if_splits dest: in_set_takeD)

lemma str_lines_no_break: "u \<in> set (str_lines s) \<Longrightarrow> CHR 0x0A \<notin> set u"
proof -
  assume "u \<in> set (str_lines s)"
  then obtain l where l: "l \<in> set (split_on (CHR 0x0A) s)" "u = (case strip_suffix [CHR 0x0D] l of Some l' \<Rightarrow> l' | None \<Rightarrow> l)"
    by (auto simp: str_lines_def Let_def dest: in_set_butlastD split: if_splits)
  with split_on_pieces [OF l(1)] strip_suffix_subset [of "[CHR 0x0D]" l] show ?thesis by (auto split: option.splits)
qed

definition one_line :: "string list \<Rightarrow> bool" where
  "one_line us \<longleftrightarrow> (\<forall>u \<in> set us. CHR 0x0A \<notin> set u)"

lemma edit_lines_one_line: "one_line (edit_lines edited us)"
  by (auto simp: one_line_def edit_lines_def dest: str_lines_no_break)

lemma count_join: "one_line us \<Longrightarrow> count_list (join [CHR 0x0A] us) (CHR 0x0A) = length us - 1"
proof (induction "[CHR 0x0A]" us rule: join.induct)
  case (2 x)
  then show ?case by (simp add: one_line_def count_notin)
next
  case (3 x y ys)
  then show ?case by (simp add: one_line_def count_notin)
qed simp

lemma split_on_join:
  "us \<noteq> [] \<Longrightarrow> \<forall>u \<in> set us. c \<notin> set u \<Longrightarrow> split_on c (join [c] us) = us"
proof (induction "[c]" us rule: join.induct)
  case (3 x y ys)
  then show ?case by (simp add: split_on_append)
qed (auto intro: split_on_none)

text \<open>A list of lines that are not empty and have no carriage return at their end survives a frame.\<close>

lemma untouched_lines:
  assumes "one_line us" and "\<forall>u \<in> set us. u \<noteq> [] \<and> last u \<noteq> CHR 0x0D"
  shows "edit_lines None us = us"
proof (cases us)
  case Nil
  then show ?thesis by (simp add: edit_lines_def unwrap_or_def str_lines_def)
next
  case (Cons a as)
  then have s: "split_on (CHR 0x0A) (join [CHR 0x0A] us) = us" using assms(1) by (intro split_on_join) (auto simp: one_line_def)
  have "strip_suffix [CHR 0x0D] u = None" if "u \<in> set us" for u
    using assms(2) that by (cases u rule: rev_cases) (auto simp: strip_suffix_def ends_with_def starts_with_def)
  moreover have "last us \<noteq> []" using assms(2) Cons last_in_set [of us] by blast
  ultimately show ?thesis
    by (simp add: edit_lines_def unwrap_or_def str_lines_def s Let_def) (simp add: map_idI)
qed

section \<open>Typing\<close>

text \<open>A character typed at the end of the field of the trackers.\<close>

definition type_tracker :: "(string \<Rightarrow> string option) \<Rightarrow> char \<Rightarrow> app_settings \<times> qvod_theme \<Rightarrow> app_settings \<times> qvod_theme" where
  "type_tracker canon c st =
     settings_ui canon (settings_untouched\<lparr>si_tracker_urls := Some (join [CHR 0x0A] (se_tracker_urls (fst st)) @ [c])\<rparr>) st"

lemma type_tracker_lines:
  assumes "one_line (se_tracker_urls (fst st))"
  shows "one_line (se_tracker_urls (fst (type_tracker canon c st))) \<and>
    length (se_tracker_urls (fst (type_tracker canon c st))) \<le> max 1 (length (se_tracker_urls (fst st)))"
proof -
  obtain s theme where st: "st = (s, theme)" by fastforce
  have e: "se_tracker_urls (fst (type_tracker canon c st)) =
      edit_lines (Some (join [CHR 0x0A] (se_tracker_urls s) @ [c])) (se_tracker_urls s)"
    by (simp add: type_tracker_def settings_ui_def st)
  show ?thesis
    using assms unfolding e by (simp add: edit_lines_one_line st) (simp add: edit_lines_def unwrap_or_def length_str_lines count_join)
qed

text \<open>
  No tracker can be added by typing at the end of the field: a new line there is dropped in the same frame, because
  the list is read back from the text line by line, so whatever is typed the list never has more entries than at first
  (a single one when it was empty).
\<close>

theorem tracker_lines_never_added:
  assumes "one_line (se_tracker_urls s)"
  shows "length (se_tracker_urls (fst (fold (type_tracker canon) cs (s, theme)))) \<le> max 1 (length (se_tracker_urls s))"
proof -
  have "one_line (se_tracker_urls (fst (fold (type_tracker canon) cs st))) \<and>
      length (se_tracker_urls (fst (fold (type_tracker canon) cs st))) \<le> max 1 (length (se_tracker_urls (fst st)))"
    if "one_line (se_tracker_urls (fst st))" for st
    using that
  proof (induction cs arbitrary: st)
    case (Cons c cs)
    show ?case using Cons.IH [of "type_tracker canon c st"] type_tracker_lines [OF Cons.prems, of canon c] by auto
  qed simp
  from this [of "(s, theme)"] assms show ?thesis by simp
qed

theorem tracker_lines_never_added_witness:
  "length (se_tracker_urls (fst (fold (type_tracker (\<lambda>_. None)) (CHR 0x0A # ''http://b'') (settings_default None None, ThemeDark)))) \<le> 1"
  using tracker_lines_never_added [of "settings_default None None" "\<lambda>_. None" "CHR 0x0A # ''http://b''" ThemeDark]
  by (simp add: one_line_def settings_default_def)

end
