(* ===== verification/App.thy ===== *)
theory App
  imports Server_Client Playlist Controls Frame_Reader Settings_Page
begin

text \<open>
  The desktop player (\<open>qvs-gui/src/app.rs\<close>): its state, the choice between local decoding and the server, and the
  function \<open>update\<close> that is run for every frame. A frame takes what the user did, what has arrived from the background
  tasks and what the decoder has sent; it returns the new state and the calls it has started in the background. The
  build is that for Unix; drawing, the commands to the window and the log are left out.
\<close>

section \<open>The state\<close>

datatype app_page = PagePlayer | PageSettings | PageStatus

datatype player_state = PsStopped | PsPlaying | PsPaused | PsBuffering | PsError string | PsEnded

text \<open>The client of the server is its address; \<open>qa_video_texture\<close>: a picture has been uploaded.\<close>

record app =
  qa_settings :: app_settings
  qa_player :: player_panel
  qa_playlist :: playlist
  qa_status :: status_panel
  qa_theme :: qvod_theme
  qa_server_client :: "string option"
  qa_page :: app_page
  qa_player_state :: player_state
  qa_current_hash :: "string option"
  qa_pending_play_hash :: "string option"
  qa_pending_play_url :: "string option"
  qa_show_url_dialog :: bool
  qa_url_input :: string
  qa_frame_reader :: "frame_reader option"
  qa_current_file_path :: "string option"
  qa_video_texture :: bool

text \<open>A call started in the background.\<close>

datatype app_command = ServerCall client_call | PollStatus string

definition on_controls :: "(player_controls \<Rightarrow> player_controls) \<Rightarrow> app \<Rightarrow> app" where
  "on_controls f a = a\<lparr>qa_player := (qa_player a)\<lparr>pnl_controls := f (pnl_controls (qa_player a))\<rparr>\<rparr>"

definition on_player :: "(player_panel \<Rightarrow> player_panel) \<Rightarrow> app \<Rightarrow> app" where
  "on_player f a = a\<lparr>qa_player := f (qa_player a)\<rparr>"

definition set_playing :: "bool \<Rightarrow> app \<Rightarrow> app" where
  "set_playing b = on_controls (\<lambda>c. c\<lparr>pc_playing := b\<rparr>)"

definition app_controls :: "app \<Rightarrow> player_controls" where
  "app_controls a = pnl_controls (qa_player a)"

section \<open>Playing an address\<close>

definition is_local_file_path :: "string \<Rightarrow> bool" where
  "is_local_file_path s \<longleftrightarrow>
     \<not> (starts_with ''http://'' s \<or> starts_with ''https://'' s \<or> starts_with ''qvod://'' s \<or> starts_with ''qvod:'' s \<or> starts_with ''file://'' s) \<and>
     (starts_with ''/'' s \<or> starts_with [CHR 0x5C, CHR 0x5C] s \<or>
      (case s of a # b # c # _ \<Rightarrow> is_ascii_alphabetic a \<and> b = CHR '':'' \<and> (c = CHR 0x5C \<or> c = CHR ''/'') | _ \<Rightarrow> False))"

definition extract_hash :: "string \<Rightarrow> string option" where
  "extract_hash uri =
     (if starts_with ''http://'' uri \<or> starts_with ''https://'' uri then Some uri
      else Option.bind (strip_prefix ''qvod://'' uri) (\<lambda>s. let h = hd (split_on CHR ''|'' s) in if h = [] then None else Some h))"

definition decode_failed :: string where
  "decode_failed = utf8_text [0xE6, 0x97, 0xA0, 0xE6, 0xB3, 0x95, 0xE6, 0x92, 0xAD, 0xE6, 0x94, 0xBE, 0xE6, 0x9C, 0xAC, 0xE5, 0x9C, 0xB0, 0xE6, 0x96, 0x87, 0xE4, 0xBB, 0xB6, 0xEF, 0xBC, 0x9A, 0xE8, 0xA7, 0xA3, 0xE7, 0xA0, 0x81, 0xE5, 0xA4, 0xB1, 0xE8, 0xB4, 0xA5, 0xE3, 0x80, 0x82]"

text \<open>\<open>dec\<close>: whether a decoder could be started for an address, and the reader of its frames.\<close>

definition start_decoder :: "(string \<Rightarrow> (frame_reader, qvod_error) result) \<Rightarrow> string \<Rightarrow> app \<Rightarrow> app" where
  "start_decoder dec source a =
     (case dec source of
        Ok reader \<Rightarrow> a\<lparr>qa_player := set_video_dimensions (fr_width reader) (fr_height reader) (qa_player a),
                       qa_current_file_path := Some source, qa_frame_reader := Some reader\<rparr>
      | _ \<Rightarrow> a)"

definition app_play_uri :: "(string \<Rightarrow> (frame_reader, qvod_error) result) \<Rightarrow> string \<Rightarrow> string \<Rightarrow> app \<Rightarrow> app" where
  "app_play_uri dec uri title a =
     (let is_file = is_local_file_path uri;
          is_url = starts_with ''http://'' uri \<or> starts_with ''https://'' uri \<or> starts_with ''qvod://'' uri;
          file_address = (if is_file then ''file://'' @ uri else uri);
          a1 = a\<lparr>qa_frame_reader := None, qa_player := clear_video (qa_player a), qa_current_file_path := None\<rparr>;
          a2 = (if is_file \<or> is_url then start_decoder dec uri a1 else a1);
          hash = (if is_file then Some file_address else extract_hash uri);
          a3 = a2\<lparr>qa_current_hash := hash,
                 qa_playlist := pl_add (task_entry_default\<lparr>te_uri := file_address, te_title := title\<rparr>) (qa_playlist a2),
                 qa_player_state := PsBuffering\<rparr>
      in if qa_server_client a3 = None then a3
         else
           let a4 = set_playing True a3; is_remote = (se_server_url (qa_settings a4) \<noteq> None)
           in if is_remote \<and> qa_frame_reader a4 \<noteq> None then a4\<lparr>qa_player_state := PsPlaying\<rparr>
              else if is_remote \<and> is_file then set_playing False (a4\<lparr>qa_player_state := PsError decode_failed\<rparr>)
              else if is_file then a4\<lparr>qa_pending_play_url := Some file_address\<rparr>
              else a4\<lparr>qa_pending_play_hash := qa_current_hash a4\<rparr>)"

section \<open>Starting\<close>

text \<open>The local server is tried at the port of the settings, then at any port; then there is no client for it.\<close>

definition start_local_server :: "(ip_addr \<Rightarrow> u16 \<Rightarrow> bool) \<Rightarrow> app_settings \<Rightarrow> (string option, unit) result" where
  "start_local_server free s =
     (let local = V4 [127, 0, 0, 1];
          attempt = (\<lambda>port. find_available_port_async free (with_bind_address local (local_server_config_new port)))
      in case attempt (se_local_server_port s) of
           Some port \<Rightarrow> Ok (Some (''http://127.0.0.1:'' @ show_nat (unat port)))
         | None \<Rightarrow> (case attempt 0 of Some _ \<Rightarrow> Ok None | None \<Rightarrow> Panic))"

definition second_field :: "string \<Rightarrow> string" where
  "second_field uri = (case split_on CHR ''|'' uri of _ # name # _ \<Rightarrow> name | _ \<Rightarrow> uri)"

definition app_init :: "app_settings \<Rightarrow> string option \<Rightarrow> nat \<Rightarrow> app" where
  "app_init settings client now =
     \<lparr>qa_settings = settings, qa_player = panel_new, qa_playlist = playlist_new, qa_status = status_panel_new now, qa_theme = ThemeDark,
      qa_server_client = client, qa_page = PagePlayer, qa_player_state = PsStopped, qa_current_hash = None,
      qa_pending_play_hash = None, qa_pending_play_url = None, qa_show_url_dialog = False, qa_url_input = [],
      qa_frame_reader = None, qa_current_file_path = None, qa_video_texture = False\<rparr>"

definition app_new :: "(ip_addr \<Rightarrow> u16 \<Rightarrow> bool) \<Rightarrow> (string \<Rightarrow> (frame_reader, qvod_error) result) \<Rightarrow> app_settings \<Rightarrow> string option \<Rightarrow>
    string option \<Rightarrow> nat \<Rightarrow> (app, unit) result" where
  "app_new free dec loaded startup_uri cli now =
     (let settings = with_cli_server_url cli loaded
      in and_then (case se_server_url settings of Some url \<Rightarrow> Ok (Some url) | None \<Rightarrow> start_local_server free settings) (\<lambda>client.
         let a = app_init settings client now
         in Ok (case startup_uri of Some uri \<Rightarrow> app_play_uri dec uri (second_field uri) a | None \<Rightarrow> a)))"

section \<open>Keys and menus\<close>

datatype key = KeySpace | KeyLeft | KeyRight | KeyEscape | KeyOther

definition on_keypress :: "key \<Rightarrow> app \<Rightarrow> app" where
  "on_keypress k a =
     (case k of
        KeySpace \<Rightarrow>
          (let a1 = on_controls toggle_play a
           in a1\<lparr>qa_player_state := (if pc_playing (app_controls a1) then PsPlaying else PsPaused)\<rparr>)
      | KeyLeft \<Rightarrow> on_controls (seek_backward 10000) a
      | KeyRight \<Rightarrow> on_controls (seek_forward 10000) a
      | KeyEscape \<Rightarrow> on_controls (\<lambda>c. controls_reset (c\<lparr>pc_stop_pressed := True\<rparr>)) (a\<lparr>qa_player_state := PsStopped\<rparr>)
      | KeyOther \<Rightarrow> a)"

text \<open>The edge of the window the pointer is near; corners win. It starts a resize by the system.\<close>

datatype resize_direction = North | South | East | West | NorthEast | NorthWest | SouthEast | SouthWest

definition resize_dir :: "bool \<Rightarrow> bool \<Rightarrow> bool \<Rightarrow> bool \<Rightarrow> resize_direction option" where
  "resize_dir near_left near_right near_top near_bottom =
     (if near_left \<and> near_top then Some NorthWest else if near_left \<and> near_bottom then Some SouthWest
      else if near_right \<and> near_top then Some NorthEast else if near_right \<and> near_bottom then Some SouthEast
      else if near_left then Some West else if near_right then Some East
      else if near_top then Some North else if near_bottom then Some South else None)"

text \<open>The items of the menu bar that do something; a file comes with the title made of its name.\<close>

datatype menu_item = MiOpenFile string string | MiOpenUrl | MiFullscreen | MiAspect aspect_ratio | MiZoomIn | MiZoomOut | MiZoomFit | MiSettings | MiOther

definition toggle_fullscreen :: "app \<Rightarrow> app" where
  "toggle_fullscreen = on_controls (\<lambda>c. c\<lparr>pc_fullscreen := \<not> pc_fullscreen c\<rparr>)"

definition menu_bar :: "(string \<Rightarrow> (frame_reader, qvod_error) result) \<Rightarrow> menu_item \<Rightarrow> app \<Rightarrow> app" where
  "menu_bar dec m a =
     (case m of
        MiOpenFile path name \<Rightarrow> app_play_uri dec path name a
      | MiOpenUrl \<Rightarrow> a\<lparr>qa_show_url_dialog := True, qa_url_input := []\<rparr>
      | MiFullscreen \<Rightarrow> toggle_fullscreen a
      | MiAspect ar \<Rightarrow> a\<lparr>qa_player := (qa_player a)\<lparr>pnl_aspect_ratio := ar\<rparr>\<rparr>
      | MiZoomIn \<Rightarrow> on_player zoom_in a
      | MiZoomOut \<Rightarrow> on_player zoom_out a
      | MiZoomFit \<Rightarrow> on_player reset_zoom a
      | MiSettings \<Rightarrow> a\<lparr>qa_page := PageSettings\<rparr>
      | MiOther \<Rightarrow> a)"

text \<open>The dialog for an address: the text after the edits of the frame, whether it was submitted or cancelled.\<close>

record dialog_input =
  di_text :: "string option"
  di_submitted :: bool
  di_closed :: bool

definition url_dialog :: "(string \<Rightarrow> (frame_reader, qvod_error) result) \<Rightarrow> dialog_input \<Rightarrow> app \<Rightarrow> app" where
  "url_dialog dec d a =
     (if \<not> qa_show_url_dialog a then a
      else
        let a1 = (case di_text d of Some t \<Rightarrow> a\<lparr>qa_url_input := t\<rparr> | None \<Rightarrow> a);
            a2 = (if di_submitted d then
                    let trimmed = trim (qa_url_input a1)
                    in (if trimmed \<noteq> [] then app_play_uri dec trimmed (second_field trimmed) a1 else a1)\<lparr>qa_show_url_dialog := False\<rparr>
                  else a1)
        in if di_closed d then a2\<lparr>qa_show_url_dialog := False\<rparr> else a2)"

end
