(* ===== verification/App_Frame.thy ===== *)
theory App_Frame
  imports App
begin

text \<open>
  One frame of the desktop player: \<open>QvodApp::update\<close> (\<open>qvs-gui/src/app.rs\<close>) as the composition of its parts in the
  order of the code, and the calls in the background it starts.
\<close>

section \<open>What a frame meets\<close>

record frame_input =
  fi_space :: bool
  fi_right :: bool
  fi_left :: bool
  fi_escape :: bool
  fi_zoom_in :: bool
  fi_zoom_out :: bool
  fi_zoom_reset :: bool
  fi_f11 :: bool
  fi_menu :: "menu_item list"
  fi_dialog :: dialog_input
  fi_page :: "app_page option"
  fi_playlist :: playlist_input
  fi_panel :: panel_input
  fi_rect :: rect
  fi_settings :: settings_input
  fi_controls :: controls_input
  fi_errors :: "string list"
  fi_statuses :: "status_response option list"
  fi_now :: nat
  fi_frames :: "bytes list"
  fi_decoder_done :: bool

text \<open>What lies outside: the decoder, the geometry of the user interface library, the paths that exist.\<close>

record outside =
  os_decoder :: "string \<Rightarrow> (frame_reader, qvod_error) result"
  os_geometry :: geometry
  os_canonicalize :: "string \<Rightarrow> string option"

section \<open>Calls to the server\<close>

definition send_pending :: "app \<Rightarrow> app \<times> app_command list" where
  "send_pending a =
     (let client = qa_server_client a \<noteq> None
      in (a\<lparr>qa_pending_play_hash := None, qa_pending_play_url := None\<rparr>,
          (case qa_pending_play_hash a of Some h \<Rightarrow> if client then [ServerCall (CcPlay h)] else [] | None \<Rightarrow> []) @
          (case qa_pending_play_url a of Some u \<Rightarrow> if client then [ServerCall (CcPlayUri u)] else [] | None \<Rightarrow> [])))"

text \<open>The controls as they were before the user touched them are arguments.\<close>

definition sync_controls :: "bool \<Rightarrow> u64 \<Rightarrow> app \<Rightarrow> app \<times> app_command list" where
  "sync_controls pre_playing pre_position a =
     (let hash = (case qa_current_hash a of Some h \<Rightarrow> h | None \<Rightarrow> []); c = app_controls a
      in if qa_server_client a = None \<or> hash = [] then (a, [])
         else if pc_stop_pressed c then (on_controls (\<lambda>c. c\<lparr>pc_stop_pressed := False\<rparr>) a, [ServerCall (CcStop hash)])
         else (a,
           (if pre_playing \<and> \<not> pc_playing c then [ServerCall CcPause]
            else if \<not> pre_playing \<and> pc_playing c then [ServerCall CcResume] else []) @
           (if pc_position_ms c \<noteq> pre_position then [ServerCall (CcSeek hash (pc_position_ms c))] else [])))"

definition poll_status :: "nat \<Rightarrow> app \<Rightarrow> app_command list" where
  "poll_status now a =
     (case qa_current_hash a of
        Some h \<Rightarrow> if qa_server_client a \<noteq> None \<and> needs_update now (qa_status a) then [PollStatus h] else []
      | None \<Rightarrow> [])"

text \<open>The error a call in the background sends back.\<close>

fun call_error :: "client_call \<Rightarrow> qvod_error \<Rightarrow> string" where
  "call_error (CcPlayUri _) e = utf8_text [0xE6, 0x92, 0xAD, 0xE6, 0x94, 0xBE, 0xE5, 0xA4, 0xB1, 0xE8, 0xB4, 0xA5, 0x3A, 0x20] @ show_error e"
| "call_error (CcPlay _) e = utf8_text [0xE6, 0x92, 0xAD, 0xE6, 0x94, 0xBE, 0xE5, 0xA4, 0xB1, 0xE8, 0xB4, 0xA5, 0x3A, 0x20] @ show_error e"
| "call_error CcPause e = utf8_text [0xE6, 0x9A, 0x82, 0xE5, 0x81, 0x9C, 0xE5, 0xA4, 0xB1, 0xE8, 0xB4, 0xA5, 0x3A, 0x20] @ show_error e"
| "call_error CcResume e = utf8_text [0xE6, 0x81, 0xA2, 0xE5, 0xA4, 0x8D, 0xE6, 0x92, 0xAD, 0xE6, 0x94, 0xBE, 0xE5, 0xA4, 0xB1, 0xE8, 0xB4, 0xA5, 0x3A, 0x20] @ show_error e"
| "call_error (CcStop _) e = utf8_text [0xE5, 0x81, 0x9C, 0xE6, 0xAD, 0xA2, 0xE5, 0xA4, 0xB1, 0xE8, 0xB4, 0xA5, 0x3A, 0x20] @ show_error e"
| "call_error (CcSeek _ _) e = utf8_text [0xE6, 0x8B, 0x96, 0xE6, 0x8B, 0xBD, 0xE5, 0xA4, 0xB1, 0xE8, 0xB4, 0xA5, 0x3A, 0x20] @ show_error e"

text \<open>What a command sends to the channels of the application: an error, or the answer to a poll.\<close>

definition run_command :: "(json \<Rightarrow> string) \<Rightarrow> net \<Rightarrow> string \<Rightarrow> app_command \<Rightarrow> string list \<times> status_response option list" where
  "run_command de net base cmd =
     (case cmd of
        ServerCall call \<Rightarrow> (case client_control de net base call of Err e \<Rightarrow> ([call_error call e], []) | _ \<Rightarrow> ([], []))
      | PollStatus h \<Rightarrow> (case client_get_status de net base h of Ok s \<Rightarrow> ([], [Some s]) | _ \<Rightarrow> ([], [None])))"

section \<open>What has arrived\<close>

definition receive_error :: "string \<Rightarrow> app \<Rightarrow> app" where
  "receive_error msg a = set_playing False (a\<lparr>qa_player_state := PsError msg\<rparr>)"

definition stream_error :: string where
  "stream_error = utf8_text [0xE6, 0x9C, 0x8D, 0xE5, 0x8A, 0xA1, 0xE5, 0x99, 0xA8, 0xE6, 0xB5, 0x81, 0xE9, 0x94, 0x99, 0xE8, 0xAF, 0xAF]"

text \<open>The states of the stream at the server that change the state of the player.\<close>

definition follow_state :: "string \<Rightarrow> app \<Rightarrow> app" where
  "follow_state s a =
     (if s = ''Playing'' then
        (if qa_player_state a = PsBuffering then set_playing True (a\<lparr>qa_player_state := PsPlaying\<rparr>) else a)
      else if s = ''Ended'' then
        (if qa_player_state a \<noteq> PsStopped then set_playing False (a\<lparr>qa_player_state := PsEnded\<rparr>) else a)
      else if s = ''Paused'' then
        (if qa_player_state a = PsPlaying then set_playing False (a\<lparr>qa_player_state := PsPaused\<rparr>) else a)
      else if s = ''Error'' then
        (if qa_player_state a \<noteq> PsStopped then set_playing False (a\<lparr>qa_player_state := PsError stream_error\<rparr>) else a)
      else a)"

definition buffer_share :: "status_response \<Rightarrow> f64" where
  "buffer_share s =
     (if 0 < sr_duration_ms s
      then min (f64_div (sr_buffered_seconds s) (f64_div (f64_of_nat (unat (sr_duration_ms s))) 1000)) 1
      else sr_download_progress s)"

definition receive_status :: "nat \<Rightarrow> status_response option \<Rightarrow> app \<Rightarrow> app" where
  "receive_status now r a =
     (case r of
        Some s \<Rightarrow>
          (let a1 = on_controls (\<lambda>c. c\<lparr>pc_position_ms := sr_position_ms s, pc_duration_ms := sr_duration_ms s,
                 pc_buffered_seconds := sr_buffered_seconds s\<rparr>) a;
               a2 = follow_state (sr_state s) a1
           in a2\<lparr>qa_status := status_update now (network_status_default\<lparr>ns_buffer_progress := buffer_share s,
                ns_download_progress := sr_download_progress s, ns_connected_peers := sr_peer_count s,
                ns_server_url := se_server_url (qa_settings a2), ns_server_connected := True\<rparr>) (qa_status a2)\<rparr>)
      | None \<Rightarrow> a\<lparr>qa_status := status_update now (network_status_default\<lparr>ns_server_url := se_server_url (qa_settings a),
           ns_server_connected := False\<rparr>) (qa_status a)\<rparr>)"

definition reconcile :: "app \<Rightarrow> app" where
  "reconcile a =
     (let a1 = (if pc_playing (app_controls a) \<and> qa_player_state a = PsPaused then a\<lparr>qa_player_state := PsPlaying\<rparr> else a)
      in if \<not> pc_playing (app_controls a1) \<and> qa_player_state a1 = PsPlaying then a1\<lparr>qa_player_state := PsPaused\<rparr> else a1)"

text \<open>A picture is shown when it is complete.\<close>

definition drop_decoder :: "app \<Rightarrow> app" where
  "drop_decoder a = a\<lparr>qa_frame_reader := None, qa_video_texture := False, qa_player := clear_video (qa_player a)\<rparr>"

definition render_video :: "app \<Rightarrow> app" where
  "render_video a =
     (case qa_frame_reader a of
        None \<Rightarrow> a
      | Some reader \<Rightarrow>
          (case qa_player_state a of
             PsPlaying \<Rightarrow>
               (case try_read_frame reader of
                  (r1, Ok (Some data)) \<Rightarrow>
                    (let w = unat (fr_width r1); h = unat (fr_height r1); a1 = a\<lparr>qa_frame_reader := Some r1\<rparr>
                     in if 0 < w \<and> 0 < h \<and> w * h * 3 \<le> length data
                        then a1\<lparr>qa_player := set_video_texture (qa_player a1), qa_video_texture := True\<rparr> else a1)
                | (r1, Ok None) \<Rightarrow> a\<lparr>qa_frame_reader := Some r1\<rparr>
                | (r1, _) \<Rightarrow>
                    (let a1 = drop_decoder a
                     in if qa_player_state a1 = PsPlaying then set_playing False (a1\<lparr>qa_player_state := PsEnded\<rparr>) else a1))
           | PsPaused \<Rightarrow> a
           | PsBuffering \<Rightarrow> a
           | _ \<Rightarrow> drop_decoder a))"

section \<open>The frame\<close>

definition keys :: "frame_input \<Rightarrow> app \<Rightarrow> app" where
  "keys i a =
     (let on = (\<lambda>b f a. if b then f a else a);
          a1 = on (fi_space i) (on_keypress KeySpace) a;
          a2 = on (fi_right i) (on_keypress KeyRight) a1;
          a3 = on (fi_left i) (on_keypress KeyLeft) a2;
          a4 = on (fi_escape i) (on_keypress KeyEscape) a3;
          a5 = on (fi_zoom_in i) (on_player zoom_in) a4;
          a6 = on (fi_zoom_out i) (on_player zoom_out) a5;
          a7 = on (fi_zoom_reset i) (on_player reset_zoom) a6
      in on (fi_f11 i) toggle_fullscreen a7)"

definition page_ui :: "outside \<Rightarrow> frame_input \<Rightarrow> app \<Rightarrow> app" where
  "page_ui os i a =
     (case qa_page a of
        PagePlayer \<Rightarrow> a\<lparr>qa_player := panel_ui (os_geometry os) (fi_panel i) (fi_rect i)
          (case qa_player_state a of PsError _ \<Rightarrow> True | _ \<Rightarrow> False) (qa_player a)\<rparr>
      | PageSettings \<Rightarrow>
          (let (s, t) = settings_ui (os_canonicalize os) (fi_settings i) (qa_settings a, qa_theme a)
           in a\<lparr>qa_settings := s, qa_theme := t\<rparr>)
      | PageStatus \<Rightarrow> a)"

text \<open>The part of the frame in which the user acts.\<close>

definition user_part :: "outside \<Rightarrow> frame_input \<Rightarrow> app \<Rightarrow> (app, unit) result" where
  "user_part os i a =
     (let a1 = keys i a;
          a2 = fold (menu_bar (os_decoder os)) (fi_menu i) a1;
          a3 = url_dialog (os_decoder os) (fi_dialog i) a2;
          a4 = (case fi_page i of Some p \<Rightarrow> a3\<lparr>qa_page := p\<rparr> | None \<Rightarrow> a3)
      in and_then (playlist_ui (fi_playlist i) (qa_playlist a4)) (\<lambda>pl.
         Ok (on_controls (controls_ui (fi_controls i)) (page_ui os i (a4\<lparr>qa_playlist := pl\<rparr>)))))"

text \<open>The part in which it takes what has arrived; the decoder thread sends its frames meanwhile.\<close>

definition arrivals :: "frame_input \<Rightarrow> app \<Rightarrow> app" where
  "arrivals i a = fold (receive_status (fi_now i)) (fi_statuses i) (fold receive_error (fi_errors i) a)"

definition deliver_frames :: "frame_input \<Rightarrow> app \<Rightarrow> app" where
  "deliver_frames i a = a\<lparr>qa_frame_reader := map_option (fr_deliver (fi_frames i) (fi_decoder_done i)) (qa_frame_reader a)\<rparr>"

definition frame :: "outside \<Rightarrow> frame_input \<Rightarrow> app \<Rightarrow> (app \<times> app_command list, unit) result" where
  "frame os i a =
     (let (a1, play_calls) = send_pending a;
          pre_playing = pc_playing (app_controls a1); pre_position = pc_position_ms (app_controls a1)
      in and_then (user_part os i a1) (\<lambda>a2.
         let (a3, calls) = sync_controls pre_playing pre_position a2;
             a4 = arrivals i a3;
             polls = poll_status (fi_now i) a4
         in Ok (render_video (deliver_frames i (reconcile a4)), play_calls @ calls @ polls)))"

end
