(* ===== verification/App_Session.thy ===== *)
theory App_Session
  imports App_Frame
begin

text \<open>
  Sessions of the desktop player: runs of frames. The lemmas say what each part of a frame leaves alone; the
  properties are that no session tells the server to stop a stream, and that after every frame the state of the
  player and its controls agree.
\<close>

section \<open>What the parts of a frame leave alone\<close>

lemma app_controls_upd [simp]:
  "app_controls (on_controls f a) = f (app_controls a)"
  "app_controls (a\<lparr>qa_player_state := ps\<rparr>) = app_controls a"
  "app_controls (a\<lparr>qa_playlist := pl\<rparr>) = app_controls a"
  "app_controls (a\<lparr>qa_status := st\<rparr>) = app_controls a"
  "app_controls (a\<lparr>qa_page := pg\<rparr>) = app_controls a"
  "app_controls (a\<lparr>qa_settings := se\<rparr>) = app_controls a"
  "app_controls (a\<lparr>qa_theme := th\<rparr>) = app_controls a"
  "app_controls (a\<lparr>qa_current_hash := h\<rparr>) = app_controls a"
  "app_controls (a\<lparr>qa_pending_play_hash := h\<rparr>) = app_controls a"
  "app_controls (a\<lparr>qa_pending_play_url := h\<rparr>) = app_controls a"
  "app_controls (a\<lparr>qa_show_url_dialog := b\<rparr>) = app_controls a"
  "app_controls (a\<lparr>qa_url_input := t\<rparr>) = app_controls a"
  "app_controls (a\<lparr>qa_frame_reader := r\<rparr>) = app_controls a"
  "app_controls (a\<lparr>qa_current_file_path := h\<rparr>) = app_controls a"
  "app_controls (a\<lparr>qa_video_texture := b\<rparr>) = app_controls a"
  by (simp_all add: app_controls_def on_controls_def)

lemma on_controls_fields [simp]:
  "qa_settings (on_controls f a) = qa_settings a" "qa_playlist (on_controls f a) = qa_playlist a"
  "qa_status (on_controls f a) = qa_status a" "qa_server_client (on_controls f a) = qa_server_client a"
  "qa_page (on_controls f a) = qa_page a" "qa_player_state (on_controls f a) = qa_player_state a"
  "qa_current_hash (on_controls f a) = qa_current_hash a" "qa_pending_play_hash (on_controls f a) = qa_pending_play_hash a"
  "qa_pending_play_url (on_controls f a) = qa_pending_play_url a" "qa_show_url_dialog (on_controls f a) = qa_show_url_dialog a"
  "qa_url_input (on_controls f a) = qa_url_input a" "qa_frame_reader (on_controls f a) = qa_frame_reader a"
  "qa_current_file_path (on_controls f a) = qa_current_file_path a" "qa_video_texture (on_controls f a) = qa_video_texture a"
  by (simp_all add: on_controls_def)

lemma on_player_fields [simp]:
  "qa_playlist (on_player f a) = qa_playlist a" "qa_server_client (on_player f a) = qa_server_client a"
  "qa_player_state (on_player f a) = qa_player_state a"
  by (simp_all add: on_player_def)

lemma panel_controls [simp]:
  "pnl_controls (clear_video p) = pnl_controls p" "pnl_controls (set_video_texture p) = pnl_controls p"
  "pnl_controls (set_video_dimensions w h p) = pnl_controls p" "pnl_controls (reset_zoom p) = pnl_controls p"
  by (simp_all add: clear_video_def set_video_texture_def set_video_dimensions_def reset_zoom_def)

lemma zoom_controls [simp]: "pnl_controls (zoom_in p) = pnl_controls p" "pnl_controls (zoom_out p) = pnl_controls p"
  by (simp_all add: zoom_in_def zoom_out_def Let_def split: zoom_mode.split)

lemma panel_ui_controls [simp]: "pnl_controls (panel_ui g u r e p) = pnl_controls p"
  by (simp add: panel_ui_def Let_def)

lemma app_controls_panel:
  "pnl_controls (f (qa_player a)) = pnl_controls (qa_player a) \<Longrightarrow> app_controls (a\<lparr>qa_player := f (qa_player a)\<rparr>) = app_controls a"
  "pnl_controls (f (qa_player a)) = pnl_controls (qa_player a) \<Longrightarrow> app_controls (on_player f a) = app_controls a"
  by (simp_all add: app_controls_def on_player_def)

lemma start_decoder_controls [simp]:
  "app_controls (start_decoder dec src a) = app_controls a" "qa_server_client (start_decoder dec src a) = qa_server_client a"
  "qa_settings (start_decoder dec src a) = qa_settings a"
  by (simp_all add: start_decoder_def app_controls_def split: result.split)

text \<open>Playing an address changes only the flag of the controls that says whether it plays.\<close>

lemma app_play_uri_controls: "\<exists>b. app_controls (app_play_uri dec uri t a) = (app_controls a)\<lparr>pc_playing := b\<rparr>"
proof -
  have "app_controls (a\<lparr>qa_frame_reader := None, qa_player := clear_video (qa_player a), qa_current_file_path := None\<rparr>) = app_controls a"
    by (simp add: app_controls_def)
  moreover have "c = c\<lparr>pc_playing := pc_playing c\<rparr>" for c :: player_controls by simp
  ultimately show ?thesis
    by (auto simp: app_play_uri_def Let_def set_playing_def intro: exI [of _ "pc_playing (app_controls a)"])
qed

section \<open>Stopping\<close>

definition stop_clear :: "app \<Rightarrow> bool" where
  "stop_clear a \<longleftrightarrow> \<not> pc_stop_pressed (app_controls a)"

lemma app_play_uri_stop: "stop_clear a \<Longrightarrow> stop_clear (app_play_uri dec uri t a)"
  using app_play_uri_controls [of dec uri t a] by (auto simp: stop_clear_def)

lemma on_controls_stop:
  "(\<And>c. \<not> pc_stop_pressed c \<Longrightarrow> \<not> pc_stop_pressed (f c)) \<Longrightarrow> stop_clear a \<Longrightarrow> stop_clear (on_controls f a)"
  by (simp add: stop_clear_def)

lemma keypress_stop: "stop_clear a \<Longrightarrow> stop_clear (on_keypress k a)"
  by (auto simp: stop_clear_def on_keypress_def Let_def toggle_play_def seek_backward_def seek_forward_def controls_reset_def split: key.split)

lemma on_player_stop:
  "stop_clear a \<Longrightarrow> stop_clear (on_player zoom_in a)" "stop_clear a \<Longrightarrow> stop_clear (on_player zoom_out a)"
  "stop_clear a \<Longrightarrow> stop_clear (on_player reset_zoom a)"
  by (simp_all add: stop_clear_def app_controls_panel)

lemma fullscreen_stop: "stop_clear a \<Longrightarrow> stop_clear (toggle_fullscreen a)"
  by (simp add: stop_clear_def toggle_fullscreen_def)

lemma menu_bar_stop: "stop_clear a \<Longrightarrow> stop_clear (menu_bar dec m a)"
  by (cases m) (simp_all add: menu_bar_def app_play_uri_stop on_player_stop fullscreen_stop, simp_all add: stop_clear_def app_controls_def)

lemma fold_invariant: "(\<And>x a. P a \<Longrightarrow> P (f x a)) \<Longrightarrow> P a \<Longrightarrow> P (fold f xs a)"
  by (induction xs arbitrary: a) auto

lemma fold_field: "(\<And>x a. g (f x a) = g a) \<Longrightarrow> g (fold f xs a) = g a"
  by (induction xs arbitrary: a) auto

lemma url_dialog_stop: "stop_clear a \<Longrightarrow> stop_clear (url_dialog dec d a)"
proof -
  have upd: "stop_clear (b\<lparr>qa_show_url_dialog := x\<rparr>) = stop_clear b" "stop_clear (b\<lparr>qa_url_input := t\<rparr>) = stop_clear b" for b x t
    by (simp_all add: stop_clear_def)
  show "stop_clear a \<Longrightarrow> stop_clear (url_dialog dec d a)"
    by (auto simp: url_dialog_def Let_def upd intro!: app_play_uri_stop split: option.split)
qed

lemma keys_stop: "stop_clear a \<Longrightarrow> stop_clear (keys i a)"
  by (simp add: keys_def Let_def keypress_stop on_player_stop fullscreen_stop)

lemma page_ui_stop: "stop_clear a \<Longrightarrow> stop_clear (page_ui os i a)"
  by (auto simp: stop_clear_def page_ui_def Let_def app_controls_panel split: app_page.split prod.split)

lemma user_part_stop: "stop_clear a \<Longrightarrow> user_part os i a = Ok a' \<Longrightarrow> stop_clear a'"
proof -
  assume a: "stop_clear a" and u: "user_part os i a = Ok a'"
  let ?a3 = "url_dialog (os_decoder os) (fi_dialog i) (fold (menu_bar (os_decoder os)) (fi_menu i) (keys i a))"
  have a3: "stop_clear ?a3"
    by (intro url_dialog_stop fold_invariant [of stop_clear] menu_bar_stop keys_stop a)
  have "stop_clear (case fi_page i of Some p \<Rightarrow> ?a3\<lparr>qa_page := p\<rparr> | None \<Rightarrow> ?a3)"
    using a3 by (simp add: stop_clear_def split: option.split)
  then show ?thesis
    using u by (auto simp: user_part_def Let_def and_then_Ok_iff intro!: on_controls_stop stop_pressed_lost page_ui_stop) (simp add: stop_clear_def)
qed

lemma arrivals_stop: "stop_clear a \<Longrightarrow> stop_clear (arrivals i a)"
proof -
  have f: "stop_clear a \<Longrightarrow> stop_clear (follow_state s a)" for s a
    by (simp add: follow_state_def set_playing_def stop_clear_def)
  have e: "stop_clear a \<Longrightarrow> stop_clear (receive_error m a)" for m a
    by (simp add: receive_error_def set_playing_def stop_clear_def)
  have s: "stop_clear a \<Longrightarrow> stop_clear (receive_status n r a)" for n r a
  proof (cases r)
    case (Some s)
    assume "stop_clear a"
    then have "stop_clear (follow_state (sr_state s) (on_controls (\<lambda>c. c\<lparr>pc_position_ms := sr_position_ms s, pc_duration_ms := sr_duration_ms s,
                 pc_buffered_seconds := sr_buffered_seconds s\<rparr>) a))"
      by (intro f on_controls_stop) auto
    then show ?thesis by (simp add: receive_status_def Some Let_def stop_clear_def)
  qed (simp add: receive_status_def stop_clear_def)
  show "stop_clear a \<Longrightarrow> stop_clear (arrivals i a)"
    unfolding arrivals_def by (intro fold_invariant [of stop_clear] e s)
qed

lemma render_controls: "\<exists>b. app_controls (render_video a) = (app_controls a)\<lparr>pc_playing := b\<rparr>"
proof -
  have id: "\<exists>b. app_controls a = (app_controls a)\<lparr>pc_playing := b\<rparr>" for a
    by (rule exI [of _ "pc_playing (app_controls a)"]) simp
  have d: "app_controls (drop_decoder a) = app_controls a" for a by (simp add: drop_decoder_def app_controls_def)
  have t: "app_controls (a\<lparr>qa_player := set_video_texture (qa_player a)\<rparr>) = app_controls a" for a
    by (rule app_controls_panel) simp
  have r: "app_controls (a\<lparr>qa_frame_reader := r, qa_player := set_video_texture (qa_player a)\<rparr>) = app_controls a" for a r
    by (simp add: app_controls_def)
  show ?thesis
    by (auto simp: render_video_def Let_def d t r set_playing_def id app_controls_panel split: option.split player_state.split prod.split result.split)
qed

lemma frame_stop:
  assumes "stop_clear a" and "frame os i a = Ok (a', cmds)"
  shows "stop_clear a' \<and> (\<forall>h. ServerCall (CcStop h) \<notin> set cmds)"
proof -
  obtain a1 play_calls where p: "send_pending a = (a1, play_calls)" by fastforce
  then have a1: "stop_clear a1" "\<forall>h. ServerCall (CcStop h) \<notin> set play_calls"
    using assms(1) by (auto simp: send_pending_def Let_def stop_clear_def split: option.splits)
  from assms(2) p obtain a2 where a2: "user_part os i a1 = Ok a2"
    and f: "frame os i a = (let (a3, calls) = sync_controls (pc_playing (app_controls a1)) (pc_position_ms (app_controls a1)) a2;
             a4 = arrivals i a3; polls = poll_status (fi_now i) a4
         in Ok (render_video (deliver_frames i (reconcile a4)), play_calls @ calls @ polls))"
    by (auto simp: frame_def Let_def and_then_Ok_iff)
  have s2: "stop_clear a2" using user_part_stop [OF a1(1) a2] .
  obtain a3 calls where s: "sync_controls (pc_playing (app_controls a1)) (pc_position_ms (app_controls a1)) a2 = (a3, calls)" by fastforce
  with s2 have "a3 = a2" "\<forall>h. ServerCall (CcStop h) \<notin> set calls"
    by (auto simp: sync_controls_def Let_def stop_clear_def split: option.splits if_splits)
  moreover have "stop_clear (render_video (deliver_frames i (reconcile (arrivals i a2))))"
  proof -
    have "stop_clear (deliver_frames i (reconcile (arrivals i a2)))"
      using arrivals_stop [OF s2, of i] by (simp add: deliver_frames_def reconcile_def Let_def stop_clear_def)
    then show ?thesis using render_controls [of "deliver_frames i (reconcile (arrivals i a2))"] by (auto simp: stop_clear_def)
  qed
  moreover have "ServerCall c \<notin> set (poll_status n a4)" for c n a4
    by (simp add: poll_status_def split: option.split)
  ultimately show ?thesis using assms(2) a1(2) unfolding f by (auto simp: s Let_def)
qed

text \<open>A session: the frames of the application and the calls they start.\<close>

fun app_run :: "outside \<Rightarrow> frame_input list \<Rightarrow> app \<Rightarrow> (app \<times> app_command list, unit) result" where
  "app_run os [] a = Ok (a, [])"
| "app_run os (i # is) a =
     and_then (frame os i a) (\<lambda>(a1, cmds). and_then (app_run os is a1) (\<lambda>(a2, cmds2). Ok (a2, cmds @ cmds2)))"

lemma app_run_stop:
  "stop_clear a \<Longrightarrow> app_run os is a = Ok (a', cmds) \<Longrightarrow> ServerCall (CcStop h) \<notin> set cmds"
proof (induction "is" arbitrary: a cmds)
  case (Cons i "is")
  from Cons.prems(2) obtain a1 c1 c2 where f: "frame os i a = Ok (a1, c1)" "app_run os is a1 = Ok (a', c2)" "cmds = c1 @ c2"
    by (auto simp: and_then_Ok_iff)
  with Cons.IH [of a1 c2] frame_stop [OF Cons.prems(1) f(1)] show ?case by simp
qed simp

lemma app_new_stop: "app_new free dec loaded uri cli now = Ok a \<Longrightarrow> stop_clear a"
proof -
  have init: "stop_clear (app_init s c n)" for s c n
    by (simp add: app_init_def panel_new_def controls_new_def stop_clear_def app_controls_def)
  then show "app_new free dec loaded uri cli now = Ok a \<Longrightarrow> stop_clear a"
    using app_play_uri_stop [OF init] init by (auto simp: app_new_def Let_def and_then_Ok_iff split: option.splits)
qed


lemma menu_unchanged:
  "pl_menu (qa_playlist (app_play_uri dec uri t a)) = pl_menu (qa_playlist a)"
  "qa_playlist (on_keypress k a) = qa_playlist a" "qa_playlist (toggle_fullscreen a) = qa_playlist a"
  "qa_playlist (page_ui os i a) = qa_playlist a"
  by (simp_all add: app_play_uri_def start_decoder_def Let_def set_playing_def pl_add_def on_keypress_def toggle_fullscreen_def
      page_ui_def split: result.split key.split option.split app_page.split prod.split)

text \<open>A frame in which nothing happens.\<close>

definition idle_input :: frame_input where
  "idle_input = \<lparr>fi_space = False, fi_right = False, fi_left = False, fi_escape = False, fi_zoom_in = False, fi_zoom_out = False,
     fi_zoom_reset = False, fi_f11 = False, fi_menu = [], fi_dialog = \<lparr>di_text = None, di_submitted = False, di_closed = False\<rparr>,
     fi_page = None, fi_playlist = \<lparr>pu_tab = None, pu_clicked = [], pu_secondary = False, pu_pointer = None, pu_item = None, pu_any_click = False\<rparr>,
     fi_panel = \<lparr>pni_hovered = False, pni_scroll_y = 0, pni_drag = (0, 0), pni_double_click = False\<rparr>,
     fi_rect = \<lparr>rt_min = (0, 0), rt_max = (800, 600)\<rparr>, fi_settings = settings_untouched,
     fi_controls = \<lparr>ci_play = False, ci_stop = False, ci_progress = None, ci_mute = False, ci_slider = None, ci_fullscreen = False\<rparr>,
     fi_errors = [], fi_statuses = [], fi_now = 0, fi_frames = [], fi_decoder_done = False\<rparr>"

definition bare_outside :: outside where
  "bare_outside = \<lparr>os_decoder = (\<lambda>_. Err Cancelled), os_geometry = \<lparr>geo_size = rt_max, geo_center = rt_min, geo_from_center_size = (\<lambda>c s. \<lparr>rt_min = c, rt_max = s\<rparr>)\<rparr>,
     os_canonicalize = (\<lambda>_. None)\<rparr>"

lemma panel_ui_idle [simp]: "panel_ui g (fi_panel idle_input) r e p = p"
  by (simp add: panel_ui_def idle_input_def Let_def)

lemma controls_ui_idle [simp]: "controls_ui (fi_controls idle_input) c = c"
  by (simp add: controls_ui_def idle_input_def draw_progress_bar_def draw_volume_control_def)

lemma playlist_ui_idle: "pl_menu p = None \<Longrightarrow> playlist_ui (fi_playlist idle_input) p = Ok p"
proof -
  have "draw_task_entry (fi_playlist idle_input) i b = TaNone" for i b by (simp add: draw_task_entry_def idle_input_def)
  then have "entries_action (fi_playlist idle_input) q = TaNone" for q
    using entries_action_cases [of "fi_playlist idle_input" q] by auto
  then show "pl_menu p = None \<Longrightarrow> ?thesis"
    by (simp add: playlist_ui_def entries_ui_def menu_ui_def draw_tab_bar_def idle_input_def)
qed

text \<open>
  C37: no session of the player ever tells the server to stop a stream: the stop button and the escape key reset the
  controls, and with them the flag by which the frame would see that stop was pressed.
\<close>

theorem stop_never_reaches_server:
  assumes "app_new free dec loaded uri cli now = Ok a" and "app_run os is a = Ok (a', cmds)"
  shows "ServerCall (CcStop h) \<notin> set cmds"
  using app_run_stop [OF app_new_stop [OF assms(1)] assms(2)] .

theorem stop_never_reaches_server_witness:
  "\<exists>a a'. app_new (\<lambda>_ _. True) (\<lambda>_. Err Cancelled) (settings_default None None) (Some ''http://x'') (Some ''http://s'') 0 = Ok a \<and>
     app_run bare_outside [idle_input\<lparr>fi_escape := True\<rparr>] a = Ok (a', [ServerCall (CcPlay ''http://x''), ServerCall CcPause]) \<and>
     qa_player_state a' = PsStopped \<and> ServerCall (CcStop ''http://x'') \<notin> set [ServerCall (CcPlay ''http://x''), ServerCall CcPause]"
proof -
  have x: "starts_with ''http://'' ''http://x''" "\<not> is_local_file_path ''http://x''" "extract_hash ''http://x'' = Some ''http://x''"
    by (simp_all add: starts_with_def is_local_file_path_def extract_hash_def)
  obtain a where a: "app_new (\<lambda>_ _. True) (\<lambda>_. Err Cancelled) (settings_default None None) (Some ''http://x'') (Some ''http://s'') 0 = Ok a"
    "qa_server_client a = Some ''http://s''" "qa_current_hash a = Some ''http://x''" "qa_pending_play_hash a = Some ''http://x''"
    "qa_pending_play_url a = None" "pc_playing (app_controls a)" "pc_position_ms (app_controls a) = 0" "pl_menu (qa_playlist a) = None"
    "qa_page a = PagePlayer" "\<not> qa_show_url_dialog a" "qa_frame_reader a = None" "stp_last_update (qa_status a) = 0"
    "stp_update_interval (qa_status a) = 10 ^ 9"
    by (simp add: app_new_def with_cli_server_url_def app_play_uri_def x start_decoder_def Let_def app_init_def set_playing_def on_controls_def
        app_controls_def panel_new_def controls_new_def playlist_new_def pl_add_def clear_video_def status_panel_new_def)
  let ?i = "idle_input\<lparr>fi_escape := True\<rparr>"
  obtain a1 where send: "send_pending a = (a1, [ServerCall (CcPlay ''http://x'')])" "app_controls a1 = app_controls a"
    "qa_server_client a1 = Some ''http://s''" "qa_current_hash a1 = Some ''http://x''" "pl_menu (qa_playlist a1) = None"
    "qa_page a1 = PagePlayer" "\<not> qa_show_url_dialog a1" "qa_frame_reader a1 = None" "qa_status a1 = qa_status a"
    using a by (simp add: send_pending_def)
  obtain a2 where user: "user_part bare_outside ?i a1 = Ok a2" "qa_player_state a2 = PsStopped" "\<not> pc_playing (app_controls a2)"
    "pc_position_ms (app_controls a2) = 0" "\<not> pc_stop_pressed (app_controls a2)" "qa_server_client a2 = Some ''http://s''"
    "qa_current_hash a2 = Some ''http://x''" "qa_frame_reader a2 = None" "qa_status a2 = qa_status a"
  proof -
    let ?k = "on_keypress KeyEscape a1"
    have k: "keys ?i a1 = ?k" by (simp add: keys_def idle_input_def)
    have d: "url_dialog (os_decoder bare_outside) (fi_dialog ?i) (fold (menu_bar (os_decoder bare_outside)) (fi_menu ?i) ?k) = ?k"
      using send by (simp add: url_dialog_def on_keypress_def idle_input_def)
    have p: "playlist_ui (fi_playlist ?i) (qa_playlist ?k) = Ok (qa_playlist ?k)"
      using send by (simp add: playlist_ui_idle menu_unchanged)
    have u: "user_part bare_outside ?i a1 = Ok (on_controls (controls_ui (fi_controls ?i)) (page_ui bare_outside ?i ?k))"
    proof -
      have "fi_page ?i = None" by (simp add: idle_input_def)
      with p show ?thesis by (simp only: user_part_def k d Let_def option.case and_then.simps) simp
    qed
    have g: "page_ui bare_outside ?i ?k = ?k"
      using send by (simp add: page_ui_def on_keypress_def)
    have "controls_ui (fi_controls idle_input) = (\<lambda>c. c)" by (rule ext) simp
    with u g have "user_part bare_outside ?i a1 = Ok (on_controls (\<lambda>c. c) ?k)" by simp
    then show ?thesis
      using send by (intro that [of "on_controls (\<lambda>c. c) ?k"]) (simp_all add: on_keypress_def controls_reset_def)
  qed
  have "frame bare_outside ?i a = Ok (render_video (deliver_frames ?i (reconcile a2)), [ServerCall (CcPlay ''http://x''), ServerCall CcPause])"
    using a user by (simp add: frame_def send sync_controls_def Let_def poll_status_def arrivals_def needs_update_def idle_input_def)
  moreover have "qa_player_state (render_video (deliver_frames ?i (reconcile a2))) = PsStopped"
    using user by (simp add: reconcile_def deliver_frames_def render_video_def Let_def)
  ultimately show ?thesis
    using a(1) stop_never_reaches_server [OF a(1), of bare_outside "[?i]" _ _ "''http://x''"] by auto
qed

section \<open>The state of the player and its controls agree\<close>

lemma keys_playlist: "qa_playlist (keys i a) = qa_playlist a"
  by (simp add: keys_def Let_def menu_unchanged)

lemma menu_bar_menu: "pl_menu (qa_playlist (menu_bar dec m a)) = pl_menu (qa_playlist a)"
  by (cases m) (simp_all add: menu_bar_def menu_unchanged)

lemma url_dialog_menu: "pl_menu (qa_playlist (url_dialog dec d a)) = pl_menu (qa_playlist a)"
  by (simp add: url_dialog_def Let_def menu_unchanged split: option.split)

lemma user_part_ready:
  assumes "pl_menu (qa_playlist a) = None" and "input_ok (fi_playlist i) (qa_playlist a)"
  shows "\<exists>a'. user_part os i a = Ok a' \<and> pl_menu (qa_playlist a') = None"
proof -
  let ?a3 = "url_dialog (os_decoder os) (fi_dialog i) (fold (menu_bar (os_decoder os)) (fi_menu i) (keys i a))"
  have "pl_menu (qa_playlist (fold (menu_bar (os_decoder os)) (fi_menu i) (keys i a))) = None"
    by (rule fold_invariant) (simp_all add: menu_bar_menu keys_playlist assms(1))
  then have m: "pl_menu (qa_playlist ?a3) = None" by (simp add: url_dialog_menu)
  with assms have ok: "input_ok (fi_playlist i) (qa_playlist ?a3)" by (simp add: input_ok_def)
  have page: "qa_playlist (case fi_page i of None \<Rightarrow> ?a3 | Some p \<Rightarrow> ?a3\<lparr>qa_page := p\<rparr>) = qa_playlist ?a3"
    by (simp split: option.split)
  obtain pl where "playlist_ui (fi_playlist i) (qa_playlist ?a3) = Ok pl" "pl_menu pl = None"
    using playlist_ui_closed [OF ok m] by blast
  then show ?thesis by (simp add: user_part_def Let_def page menu_unchanged)
qed

lemma arrivals_playlist [simp]: "qa_playlist (arrivals i a) = qa_playlist a"
proof -
  have f: "qa_playlist (follow_state s a) = qa_playlist a" "qa_playlist (receive_error m a) = qa_playlist a" for s m a
    by (simp_all add: follow_state_def receive_error_def set_playing_def)
  then have r: "qa_playlist (receive_status n r a) = qa_playlist a" for n r a
    by (simp add: receive_status_def Let_def split: option.split)
  show ?thesis
    unfolding arrivals_def by (simp add: fold_field [of qa_playlist] f r)
qed

lemma render_playlist [simp]: "qa_playlist (render_video a) = qa_playlist a"
  by (simp add: render_video_def drop_decoder_def set_playing_def Let_def split: option.split player_state.split prod.split result.split)

lemma reconcile_agrees:
  "qa_player_state (reconcile a) = PsPlaying \<Longrightarrow> pc_playing (app_controls (reconcile a))"
  "qa_player_state (reconcile a) = PsPaused \<Longrightarrow> \<not> pc_playing (app_controls (reconcile a))"
  by (auto simp: reconcile_def Let_def split: if_splits)

lemma render_agrees:
  assumes "qa_player_state a = PsPlaying \<longrightarrow> pc_playing (app_controls a)" and "qa_player_state a = PsPaused \<longrightarrow> \<not> pc_playing (app_controls a)"
  shows "(qa_player_state (render_video a) = PsPlaying \<longrightarrow> pc_playing (app_controls (render_video a))) \<and>
    (qa_player_state (render_video a) = PsPaused \<longrightarrow> \<not> pc_playing (app_controls (render_video a)))"
proof -
  have d: "app_controls (drop_decoder a) = app_controls a" "qa_player_state (drop_decoder a) = qa_player_state a" for a
    by (simp_all add: drop_decoder_def app_controls_def)
  have t: "app_controls (a\<lparr>qa_frame_reader := r, qa_player := set_video_texture (qa_player a)\<rparr>) = app_controls a" for a r
    by (simp add: app_controls_def)
  show ?thesis using assms
    by (auto simp: render_video_def Let_def d t set_playing_def split: option.split player_state.split prod.split result.split)
qed

text \<open>
  C9: after every frame, whatever the user did and whatever arrived, a player shown as playing has its controls on
  playing and one shown as paused has them on paused; and as long as the task list meets the input the user interface
  library guarantees, the frame does not panic.
\<close>

theorem frame_state_agrees:
  assumes "pl_menu (qa_playlist a) = None" and "input_ok (fi_playlist i) (qa_playlist a)"
  shows "\<exists>a' cmds. frame os i a = Ok (a', cmds) \<and> pl_menu (qa_playlist a') = None \<and>
    (qa_player_state a' = PsPlaying \<longrightarrow> pc_playing (app_controls a')) \<and> (qa_player_state a' = PsPaused \<longrightarrow> \<not> pc_playing (app_controls a'))"
proof -
  obtain a1 play_calls where p: "send_pending a = (a1, play_calls)" by fastforce
  then have "qa_playlist a1 = qa_playlist a" by (auto simp: send_pending_def Let_def)
  with assms obtain a2 where a2: "user_part os i a1 = Ok a2" "pl_menu (qa_playlist a2) = None"
    using user_part_ready [of a1 i os] by auto
  obtain a3 calls where s: "sync_controls (pc_playing (app_controls a1)) (pc_position_ms (app_controls a1)) a2 = (a3, calls)" by fastforce
  then have a3: "qa_playlist a3 = qa_playlist a2" by (auto simp: sync_controls_def Let_def split: option.splits if_splits)
  let ?a5 = "deliver_frames i (reconcile (arrivals i a3))"
  have "app_controls ?a5 = app_controls (reconcile (arrivals i a3))" "qa_player_state ?a5 = qa_player_state (reconcile (arrivals i a3))"
    "qa_playlist ?a5 = qa_playlist a3"
    by (simp_all add: deliver_frames_def reconcile_def Let_def)
  with render_agrees [of ?a5] reconcile_agrees [of "arrivals i a3"] a2 a3 show ?thesis
    by (simp add: frame_def p s Let_def)
qed

theorem frame_state_agrees_witness:
  "let a = app_init (settings_default None None) (Some ''http://s'') 0; i = idle_input\<lparr>fi_space := True, fi_errors := [''e'']\<rparr>
   in \<exists>a' cmds. frame bare_outside i a = Ok (a', cmds) \<and> pl_menu (qa_playlist a') = None \<and>
     \<not> (qa_player_state a' = PsPlaying \<and> \<not> pc_playing (app_controls a')) \<and> \<not> (qa_player_state a' = PsPaused \<and> pc_playing (app_controls a'))"
  using frame_state_agrees [of "app_init (settings_default None None) (Some ''http://s'') 0" "idle_input\<lparr>fi_space := True, fi_errors := [''e'']\<rparr>" bare_outside]
  by (fastforce simp: app_init_def playlist_new_def input_ok_def idle_input_def)

end
