(* ===== verification/App_Playback.thy ===== *)
theory App_Playback
  imports App_Session
begin

text \<open>
  The player over its server: what becomes of an address the user enters, through the application, its client, the
  routes of the server and the engine, up to the state the player shows.
\<close>

section \<open>Entering an address\<close>

lemma entered_address:
  assumes "qa_server_client a = Some base" and "se_server_url (qa_settings a) = None \<or> \<not> is_ok (dec uri)" and "\<not> is_local_file_path uri"
  shows "qa_pending_play_hash (app_play_uri dec uri title a) = extract_hash uri"
    and "qa_current_hash (app_play_uri dec uri title a) = extract_hash uri"
    and "qa_player_state (app_play_uri dec uri title a) = PsBuffering"
    and "qa_server_client (app_play_uri dec uri title a) = Some base"
    and "qa_status (app_play_uri dec uri title a) = qa_status a"
  using assms by (auto simp: app_play_uri_def start_decoder_def Let_def set_playing_def on_controls_def split: result.split)

lemma remote_prefix:
  assumes "starts_with ''http://'' uri \<or> starts_with ''https://'' uri \<or> starts_with ''qvod://'' uri"
  shows "\<not> is_local_file_path uri"
  using assms by (auto simp: is_local_file_path_def)

text \<open>The first field of a qvod address has no separator.\<close>

lemma split_on_no_sep: "p \<in> set (split_on c s) \<Longrightarrow> c \<notin> set p"
  by (induction s arbitrary: p) (auto split: list.splits if_splits)

lemma extract_hash_no_sep:
  assumes "extract_hash uri = Some h" and "starts_with ''qvod://'' uri"
  shows "CHR ''|'' \<notin> set h"
proof -
  have "\<not> starts_with ''http://'' uri" "\<not> starts_with ''https://'' uri"
    using assms(2) by (cases uri; simp add: starts_with_def)+
  then obtain s where "h = hd (split_on CHR ''|'' s)"
    using assms(1) by (auto simp: extract_hash_def Let_def bind_eq_Some_conv split: if_splits)
  then show ?thesis using split_on_no_sep [of h "CHR ''|''" s] by simp
qed


section \<open>From the address to the screen\<close>

text \<open>
  C38: a qvod address never plays through the server. What the player sends for it is its bare hash; whatever the
  engine has, the server refuses the call and the engine is unchanged; the player gets an error and shows it.
\<close>

theorem qvod_address_never_plays:
  assumes "starts_with ''qvod://'' uri" and "extract_hash uri = Some h" and "\<not> is_url h"
    and "qa_server_client a = Some base" and "se_server_url (qa_settings a) = None \<or> \<not> is_ok (dec uri)"
  shows "ServerCall (CcPlay h) \<in> set (snd (send_pending (app_play_uri dec uri title a))) \<and>
    fst (remote_call de sha1 su up txt base (CcPlay h) e) = e \<and>
    (\<exists>msg. run_command de (\<lambda>req. snd (route_request sha1 su up txt base req e)) base (ServerCall (CcPlay h)) = ([msg], []) \<and>
       (\<forall>a'. qa_player_state (receive_error msg a') = PsError msg))"
proof -
  have "\<not> is_local_file_path uri" using assms(1) by (simp add: remote_prefix)
  note f = entered_address [where dec = dec and title = title, OF assms(4,5) this]
  have "ServerCall (CcPlay h) \<in> set (snd (send_pending (app_play_uri dec uri title a)))"
    by (simp add: send_pending_def f assms(2))
  moreover have "handle_control sha1 su (call_params (CcPlay h)) e = (e, Panic) \<or>
      (\<exists>r. handle_control sha1 su (call_params (CcPlay h)) e = (e, Ok r) \<and> \<not> cr_success r)"
    using bare_hash_refused [OF extract_hash_no_sep [OF assms(2,1)], of sha1 su e] assms(3)
    by (auto simp: handle_control_def control_play_def answer_def)
  then have "fst (remote_call de sha1 su up txt base (CcPlay h) e) = e \<and>
      (\<exists>er. client_control de (\<lambda>req. snd (route_request sha1 su up txt base req e)) base (CcPlay h) = Err er)"
    by (auto simp: remote_call_def client_control_def route_request_def decode_call_body decode_encode_control simp del: call_body.simps call_params.simps)
  ultimately show ?thesis by (auto simp: run_command_def receive_error_def set_playing_def)
qed

theorem qvod_address_never_plays_witness:
  "let a = app_init (settings_default None None) (Some ''http://s'') 0; e = engine_new engine_config_default False Map.empty
   in ServerCall (CcPlay ''h'') \<in> set (snd (send_pending (app_play_uri (\<lambda>_. Err Cancelled) ''qvod://h|n|1|mp4|'' ''n'' a))) \<and>
      fst (remote_call (\<lambda>_. []) (\<lambda>bs. bs) quiet_surroundings 0 [] ''http://s'' (CcPlay ''h'') e) = e"
proof -
  have "starts_with ''qvod://'' ''qvod://h|n|1|mp4|''" "extract_hash ''qvod://h|n|1|mp4|'' = Some ''h''" "\<not> is_url ''h''"
    by (simp_all add: starts_with_def extract_hash_def strip_prefix_def is_url_def)
  from qvod_address_never_plays [OF this, of "app_init (settings_default None None) (Some ''http://s'') 0" "''http://s''" "\<lambda>_. Err Cancelled"]
  show ?thesis unfolding Let_def by (auto simp: app_init_def)
qed

text \<open>
  C3: an http address the engine can play goes all the way, unless the player is in remote mode and decodes the address
  itself: the player sends it to its server; where the call is let through the engine ends as if it had been told to play
  the address, and no error comes back. The next poll is for this address and returns, field by field, what the engine
  then says of the stream of this address; and the player leaves its buffering state exactly when that stream is playing,
  has ended or has failed.
\<close>

theorem url_plays_end_to_end:
  assumes "starts_with ''http://'' uri \<or> starts_with ''https://'' uri"
    and "qa_server_client a = Some base" and "se_server_url (qa_settings a) = None \<or> \<not> is_ok (dec uri)"
    and "engine_play sha1 su uri e = (e1, Ok m)" and "\<forall>h st. engine_status e1 h = Some st \<longrightarrow> st_peer_count st < 2 ^ 64"
  shows "ServerCall (CcPlay uri) \<in> set (snd (send_pending (app_play_uri dec uri title a))) \<and>
    fst (remote_call de sha1 su up txt base (CcPlay uri) e) = e1 \<and>
    run_command de (\<lambda>req. snd (route_request sha1 su up txt base req e)) base (ServerCall (CcPlay uri)) = ([], []) \<and>
    set (poll_status now (app_play_uri dec uri title a)) = (if needs_update now (qa_status a) then {PollStatus uri} else {}) \<and>
    (\<exists>st s. engine_status e1 (InfoHash (sha1 (as_bytes uri))) = Some st \<and>
       s = \<lparr>sr_state = debug_state (st_state st), sr_position_ms = st_position_ms st, sr_duration_ms = st_duration_ms st,
         sr_buffered_seconds = st_buffered_seconds st, sr_download_progress = st_download_progress st, sr_peer_count = st_peer_count st\<rparr> \<and>
       run_command de (\<lambda>req. snd (route_request sha1 su up txt base req e1)) base (PollStatus uri) = ([], [Some s]) \<and>
       qa_player_state (receive_status now (Some s) (app_play_uri dec uri title a)) =
         (case st_state st of Playing \<Rightarrow> PsPlaying | Ended \<Rightarrow> PsEnded | Error \<Rightarrow> PsError stream_error | _ \<Rightarrow> PsBuffering))"
proof -
  have l: "\<not> is_local_file_path uri" using assms(1) by (auto simp: remote_prefix)
  have x: "extract_hash uri = Some uri" "is_url uri" "uri \<noteq> []" using assms(1) by (auto simp: extract_hash_def is_url_def starts_with_def)
  note f = entered_address [where dec = dec and title = title, OF assms(2,3) l]
  have k: "stream_key sha1 uri = Ok (InfoHash (sha1 (as_bytes uri)))" using x(2) by (simp add: stream_key_def)
  have c: "handle_control sha1 su (call_params (CcPlay uri)) e = (e1, Ok (answer True (''playing '' @ uri)))"
    using x(2) assms(4) by (simp add: handle_control_def control_play_def)
  then have call: "fst (remote_call de sha1 su up txt base (CcPlay uri) e) = e1"
      "client_control de (\<lambda>req. snd (route_request sha1 su up txt base req e)) base (CcPlay uri) = Ok ()"
    by (auto simp: remote_call_def client_control_def route_request_def decode_call_body decode_encode_control answer_def
        simp del: call_body.simps call_params.simps)
  obtain st where st: "engine_status e1 (InfoHash (sha1 (as_bytes uri))) = Some st"
    using play_url_registers [OF x(2) assms(4)] by (auto simp: engine_status_def)
  define s where "s = \<lparr>sr_state = debug_state (st_state st), sr_position_ms = st_position_ms st, sr_duration_ms = st_duration_ms st,
    sr_buffered_seconds = st_buffered_seconds st, sr_download_progress = st_download_progress st, sr_peer_count = st_peer_count st\<rparr>"
  have s: "client_get_status de (\<lambda>req. snd (route_request sha1 su up txt base req e1)) base uri = Ok s"
    using decode_status_fields [OF assms(5) [rule_format, OF st]] st by (simp add: s_def client_get_status_def route_request_def handle_status_def k x(3))
  have "qa_player_state (receive_status now (Some s) (app_play_uri dec uri title a)) =
         (case st_state st of Playing \<Rightarrow> PsPlaying | Ended \<Rightarrow> PsEnded | Error \<Rightarrow> PsError stream_error | _ \<Rightarrow> PsBuffering)"
    by (cases "st_state st") (simp_all add: s_def receive_status_def Let_def follow_state_def f set_playing_def)
  with call s st show ?thesis
    by (intro conjI exI [of _ st] exI [of _ s])
      (auto simp: send_pending_def f x(1) run_command_def poll_status_def s_def)
qed

text \<open>A server of which a HEAD request returns a length of three bytes.\<close>

definition web_surroundings :: surroundings where
  "web_surroundings = quiet_surroundings\<lparr>su_client := Ok (), su_head := Ok (Some (show_u64 3), None), su_early := []\<rparr>"

theorem url_plays_end_to_end_witness:
  "\<exists>e1 m s. engine_play (\<lambda>bs. bs) web_surroundings ''http://x'' (engine_new engine_config_default False Map.empty) = (e1, Ok m) \<and>
     client_get_status (\<lambda>_. []) (\<lambda>req. snd (route_request (\<lambda>bs. bs) web_surroundings 0 [] ''http://s'' req e1)) ''http://s'' ''http://x'' = Ok s \<and>
     qa_player_state (receive_status 7 (Some s)
       (app_play_uri (\<lambda>_. Err Cancelled) ''http://x'' ''x'' (app_init (settings_default None None) (Some ''http://s'') 0))) = PsPlaying"
proof -
  let ?e = "engine_new engine_config_default False Map.empty"
  let ?h = "InfoHash (as_bytes ''http://x'')"
  let ?a = "app_init (settings_default None None) (Some ''http://s'') 0"
  have u: "starts_with ''http://'' ''http://x'' \<or> starts_with ''https://'' ''http://x''" by (simp add: starts_with_def)
  have url: "is_url ''http://x''" by (simp add: is_url_def starts_with_def)
  have nf: "''http://x'' \<noteq> file_uri p" for p by (simp add: file_uri_def)
  obtain hu where hu: "parse_media_uri ''http://x'' = Ok (HttpAddr hu)" "hu_url hu = ''http://x''"
    using is_url_parse [OF url]
  proof (elim disjE exE conjE)
    fix u assume "parse_media_uri ''http://x'' = Ok (HttpAddr u)" "hu_url u = ''http://x''"
    then show thesis by (rule that)
  next
    fix p assume "''http://x'' = file_uri p"
    then show thesis by (rule notE [OF nf])
  qed
  have "parse_u64 (show_u64 3) = Ok 3" by (rule parse_u64_show_u64)
  then have probe: "probe_http_source (su_client web_surroundings) (su_head web_surroundings) = Ok (3, ''video/mp4'')"
    by (simp add: probe_http_source_def web_surroundings_def)
  have w: "su_now web_surroundings = 0" "su_early web_surroundings = []" by (simp_all add: web_surroundings_def quiet_surroundings_def)
  have "\<exists>m' task m. play_http (\<lambda>bs. bs) web_surroundings hu ?e = (start_stream ?h (new_active 0 ?e ?h m' task) [] ?e, Ok m)"
    unfolding play_http_def probe hu(2) w Let_def result.case prod.case by blast
  then obtain e1 m m' task where p: "engine_play (\<lambda>bs. bs) web_surroundings ''http://x'' ?e = (e1, Ok m)"
    and e1: "e1 = start_stream ?h (new_active 0 ?e ?h m' task) [] ?e"
    by (simp only: engine_play_def hu(1) result.case media_uri.case) blast
  then have st: "engine_status e1 h = Some st \<Longrightarrow> st_peer_count st = 0 \<and> st_state st = Playing" for h st
    by (auto simp: engine_status_def start_stream_def on_stream_def register_stream_def engine_new_def Let_def new_active_def stream_event_def
        dl_event_def dl_start_def ms_new_def ss_new_def ms_play_def set_state_def split: if_splits)
  have a: "qa_server_client ?a = Some ''http://s''" "se_server_url (qa_settings ?a) = None \<or> \<not> is_ok (Err Cancelled)"
    by (simp_all add: app_init_def)
  have b: "\<forall>h st. engine_status e1 h = Some st \<longrightarrow> st_peer_count st < 2 ^ 64" using st by auto
  note t = url_plays_end_to_end [where dec = "\<lambda>_. Err Cancelled" and title = "''x''" and de = "\<lambda>_. []" and up = 0 and now = 7, OF u a(1) a(2) p b]
  from t [where ?txt = "[]"]
  obtain sst s where s: "engine_status e1 ?h = Some sst"
    "run_command (\<lambda>_. []) (\<lambda>req. snd (route_request (\<lambda>bs. bs) web_surroundings 0 [] ''http://s'' req e1)) ''http://s'' (PollStatus ''http://x'') = ([], [Some s])"
    "qa_player_state (receive_status 7 (Some s) (app_play_uri (\<lambda>_. Err Cancelled) ''http://x'' ''x'' ?a)) =
         (case st_state sst of Playing \<Rightarrow> PsPlaying | Ended \<Rightarrow> PsEnded | Error \<Rightarrow> PsError stream_error | _ \<Rightarrow> PsBuffering)"
    by blast
  then have c: "client_get_status (\<lambda>_. []) (\<lambda>req. snd (route_request (\<lambda>bs. bs) web_surroundings 0 [] ''http://s'' req e1)) ''http://s'' ''http://x'' = Ok s"
    by (simp add: run_command_def split: result.splits)
  have "st_state sst = Playing" using st [OF s(1)] by simp
  with p c s(3) show ?thesis by auto
qed

end
