(* ===== verification/Probe_Report.thy ===== *)
theory Probe_Report
  imports Media_Probe
begin

text \<open>
  A report of ffmpeg as the media probe reads it (\<open>parse_ffmpeg_stderr\<close> in \<open>qvs-core/src/media_probe.rs\<close>). The
  form of the reports is that of the samples in the source: a line about the duration, one about the first video
  stream and one about the first audio stream, among other lines. The probe recovers the names, the sizes and the rates
  exactly, and the duration up to one millisecond, which the truncation of a product of floats can lose.
\<close>

section \<open>Texts without special characters\<close>

definition plain_char :: "char \<Rightarrow> bool" where
  "plain_char c \<longleftrightarrow> (let n = of_char c :: nat in 97 \<le> n \<and> n \<le> 122 \<or> 48 \<le> n \<and> n \<le> 57 \<or> n = 95)"

definition plain :: "string \<Rightarrow> bool" where
  "plain s \<longleftrightarrow> s \<noteq> [] \<and> list_all plain_char s"

lemma plain_char_neq:
  "plain_char c \<Longrightarrow> c \<noteq> CHR '','' \<and> c \<noteq> CHR '' '' \<and> c \<noteq> CHR ''('' \<and> c \<noteq> CHR '':'' \<and> c \<noteq> CHR ''V'' \<and> c \<noteq> CHR ''A'' \<and>
     c \<noteq> CHR 0x0A \<and> c \<noteq> CHR 0x0D \<and> \<not> is_ws c"
  by (auto simp: plain_char_def is_ws_def Let_def)

lemma plain_notin:
  assumes "plain s"
  shows "CHR '','' \<notin> set s" "CHR '' '' \<notin> set s" "CHR ''('' \<notin> set s" "CHR '':'' \<notin> set s" "CHR ''V'' \<notin> set s" "CHR ''A'' \<notin> set s"
    "CHR 0x0A \<notin> set s" "CHR 0x0D \<notin> set s"
  using assms plain_char_neq by (auto simp: plain_def list_all_iff)

lemma is_ascii_digit_iff: "is_ascii_digit c \<longleftrightarrow> is_digit c"
  by (simp add: is_ascii_digit_def is_digit_def)

lemma digit_plain_char: "is_digit c \<Longrightarrow> plain_char c \<and> c \<noteq> CHR ''x'' \<and> c \<noteq> CHR ''s'' \<and> c \<noteq> CHR ''.''"
  by (auto simp: is_digit_def plain_char_def Let_def)

lemma plain_show_nat: "plain (show_nat n)"
  using show_nat_digits digit_plain_char by (auto simp: plain_def list_all_iff)

lemma plain_pad2: "plain (pad2 n)"
  using plain_show_nat [of n] by (auto simp: pad2_def plain_def plain_char_def)

lemma digits_notin: "CHR ''x'' \<notin> set (show_nat n)" "CHR ''x'' \<notin> set (pad2 n)"
  using show_nat_digits digit_plain_char by (auto simp: pad2_def split: if_splits)

lemmas number_notin = digits_notin plain_show_nat [THEN plain_notin(1)] plain_show_nat [THEN plain_notin(4)] plain_show_nat [THEN plain_notin(7)]
  plain_pad2 [THEN plain_notin(1)] plain_pad2 [THEN plain_notin(4)] plain_pad2 [THEN plain_notin(7)]

section \<open>Searching and trimming\<close>

lemma find_sub_none: "c \<in> set p \<Longrightarrow> c \<notin> set s \<Longrightarrow> find_sub p s = None"
proof (induction s)
  case (Cons x xs)
  have "\<not> starts_with p (x # xs)"
    using Cons.prems unfolding starts_with_def by (metis in_set_takeD)
  with Cons show ?case by simp
qed auto

lemma find_sub_here: "p \<noteq> [] \<Longrightarrow> find_sub p (p @ s) = Some 0"
  by (cases p) (simp_all add: starts_with_def)

lemma trim_ends:
  assumes "s \<noteq> []" and "\<not> is_ws (hd s)" and "\<not> is_ws (last s)"
  shows "trim s = s" and "trim (CHR '' '' # s) = s"
proof -
  have d: "dropWhile is_ws s = s" "dropWhile is_ws (rev s) = rev s"
    using assms by (cases s, simp_all) (cases "rev s", simp_all add: last_rev hd_rev [symmetric])
  then show "trim s = s" "trim (CHR '' '' # s) = s" by (simp_all add: trim_def is_ws_def [of "CHR '' ''"])
qed

lemma plain_ends: "plain s \<Longrightarrow> s \<noteq> [] \<and> \<not> is_ws (hd s) \<and> \<not> is_ws (last s)"
  using plain_char_neq by (auto simp: plain_def list_all_iff)

lemma before_append: "c \<notin> set s \<Longrightarrow> before c (s @ c # t) = s"
  by (induction s) (auto simp: before_def)

lemma after_append: "c \<notin> set s \<Longrightarrow> after c (s @ c # t) = Some t"
  by (induction s) (auto simp: after_def)

lemma before_none: "c \<notin> set s \<Longrightarrow> before c s = s"
  by (induction s) (auto simp: before_def)

lemma takeWhile_digits: "takeWhile is_ascii_digit (show_nat n @ t) = show_nat n @ takeWhile is_ascii_digit t"
  using show_nat_digits is_ascii_digit_iff by (simp add: takeWhile_append2)

section \<open>Numbers\<close>

lemma parse_u32_show: "n < 2 ^ 32 \<Longrightarrow> parse_u32 (show_nat n) = Some (of_nat n)"
  by (simp add: parse_u32_def parse_uint_show_nat)

lemma parse_u64_pad2: "n < 2 ^ 64 \<Longrightarrow> parse_u64 (pad2 n) = Ok (of_nat n)"
proof -
  assume n: "n < 2 ^ 64"
  have z: "parse_uint 10 m (CHR ''0'' # s) = parse_digits 10 m PosOverflow 0 s" if "s \<noteq> []" for m s
    using that by (simp add: parse_uint_def to_digit_def)
  show ?thesis
    using n by (simp add: pad2_def parse_u64_def z parse_digits_show_nat parse_uint_show_nat)
qed

lemma digits_value_snoc: "digits_value (s @ [c]) = 10 * digits_value s + (of_char c - 48)"
  by (simp add: digits_value_def)

lemma digits_value_show: "digits_value (show_nat n) = n"
proof (induction n rule: show_nat.induct)
  case (1 n)
  show ?case
  proof (cases "n < 10")
    case True
    then show ?thesis by (subst show_nat.simps) (simp add: digits_value_def of_char_digit_char)
  next
    case False
    with "1" show ?thesis by (subst show_nat.simps) (simp add: digits_value_snoc of_char_digit_char)
  qed
qed

lemma digits_value_pad2: "digits_value (pad2 n) = n"
  using digits_value_show [of n] by (simp add: pad2_def) (simp add: digits_value_def)

lemma pad2_digits: "c \<in> set (pad2 n) \<Longrightarrow> is_digit c"
  using show_nat_digits by (auto simp: pad2_def is_digit_def split: if_splits)

lemma plain_no_sign: "list_all is_ascii_digit s \<Longrightarrow> \<not> starts_with ''-'' (s @ t) \<and> \<not> starts_with ''+'' (s @ t)" if "s \<noteq> []"
  using that by (cases s) (auto simp: starts_with_def is_ascii_digit_def Let_def)

lemma parse_f64_whole: "parse_f64 (show_nat n) = Some (f64_round (of_nat n))"
proof -
  have d: "list_all is_ascii_digit (show_nat n)" using show_nat_digits is_ascii_digit_iff by (auto simp: list_all_iff)
  then have w: "takeWhile is_ascii_digit (show_nat n) = show_nat n" "dropWhile is_ascii_digit (show_nat n) = []"
    by (simp_all add: takeWhile_eq_all_conv list_all_iff)
  show ?thesis
    using plain_no_sign [OF show_nat_neq_Nil d, of "[]"]
    by (simp add: parse_f64_def Let_def w starts_with_def [of "''.''"] parse_exponent_def digits_value_show)
qed

lemma digits_value_append: "digits_value (s @ t) = digits_value s * 10 ^ length t + digits_value t"
  by (induction t rule: rev_induct) (simp_all add: digits_value_snoc digits_value_def [of "[]"] algebra_simps flip: append_assoc)

lemma parse_f64_decimal:
  assumes "u \<noteq> []" and "\<forall>c \<in> set u. is_digit c" and "\<forall>c \<in> set fr. is_digit c"
  shows "parse_f64 (u @ CHR ''.'' # fr) =
    Some (f64_round (of_nat (digits_value u * 10 ^ length fr + digits_value fr) / 10 ^ length fr))"
proof -
  have d: "\<forall>c \<in> set u. is_ascii_digit c" "\<forall>c \<in> set fr. is_ascii_digit c" using assms is_ascii_digit_iff by auto
  have p: "\<not> is_ascii_digit CHR ''.''" by (simp add: is_ascii_digit_def)
  have w: "takeWhile is_ascii_digit (u @ CHR ''.'' # fr) = u" "dropWhile is_ascii_digit (u @ CHR ''.'' # fr) = CHR ''.'' # fr"
    "takeWhile is_ascii_digit fr = fr" "dropWhile is_ascii_digit fr = []"
    using d p by (simp_all add: takeWhile_append2 dropWhile_append2 takeWhile_eq_all_conv)
  have n: "\<not> starts_with ''-'' (u @ CHR ''.'' # fr) \<and> \<not> starts_with ''+'' (u @ CHR ''.'' # fr)"
    using plain_no_sign [OF assms(1), of "CHR ''.'' # fr"] d(1) by (simp add: list_all_iff)
  show ?thesis
    using n assms(1) by (simp add: parse_f64_def Let_def w starts_with_def [of "''.''"] parse_exponent_def power_int_minus
        digits_value_append divide_inverse)
qed

lemma length_pad2: "n < 100 \<Longrightarrow> length (pad2 n) = 2"
  by (subst pad2_def, cases "n < 10") (simp_all add: show_nat.simps [of n] show_nat.simps [of "n div 10"])

lemma parse_f64_hundredths:
  assumes "cs < 100"
  shows "parse_f64 (pad2 s @ CHR ''.'' # pad2 cs) = Some (f64_round (of_nat (s * 100 + cs) / 100))"
    and "parse_f64 (show_nat n @ CHR ''.'' # pad2 cs) = Some (f64_round (of_nat (n * 100 + cs) / 100))"
  using parse_f64_decimal [of "pad2 s" "pad2 cs"] parse_f64_decimal [of "show_nat n" "pad2 cs"] pad2_digits show_nat_digits
  by (simp_all add: length_pad2 [OF assms] digits_value_pad2 digits_value_show) (simp_all add: pad2_def)

section \<open>The time of a report\<close>

text \<open>The count of milliseconds, and what the truncated product of floats makes of it.\<close>

definition time_ms :: "nat \<times> nat \<times> nat \<times> nat \<Rightarrow> nat" where
  "time_ms t = (case t of (h, m, s, cs) \<Rightarrow> ((h * 60 + m) * 60 + s) * 1000 + cs * 10)"

lemma error_sum:
  assumes "\<bar>x - c\<bar> \<le> (1 / 2) ^ 48" and "\<bar>y - (t + x)\<bar> \<le> (1 / 2) ^ 21" and "\<bar>z - y * 1000\<bar> \<le> (1 / 2) ^ 11"
  shows "\<bar>z - (t + c) * 1000\<bar> < (1::rat)"
proof -
  have "\<bar>x - c\<bar> \<le> 1 / 10000" "\<bar>y - (t + x)\<bar> \<le> 1 / 10000" "\<bar>z - y * 1000\<bar> \<le> 1 / 1000"
    using assms by (auto elim!: order_trans simp: power_one_over)
  then have d: "x - c \<le> 1 / 10000" "c - x \<le> 1 / 10000" "y - (t + x) \<le> 1 / 10000" "t + x - y \<le> 1 / 10000"
    "z - y * 1000 \<le> 1 / 1000" "y * 1000 - z \<le> 1 / 1000"
    by (simp_all only: abs_le_iff minus_diff_eq)
  from d have "z - (t + c) * 1000 < 1" by (simp add: field_simps)
  moreover from d have "(t + c) * 1000 - z < 1" by (simp add: field_simps)
  ultimately show ?thesis by (simp only: abs_less_iff minus_diff_eq)
qed

lemma hms_near:
  assumes "h < 2 ^ 20" and "m < 60" and "s < 60" and "cs < 100"
  shows "\<exists>ms. hms_to_ms (pad2 h) (pad2 m) (pad2 s @ CHR ''.'' # pad2 cs) = of_nat ms \<and> ms \<le> time_ms (h, m, s, cs) \<and>
    time_ms (h, m, s, cs) \<le> ms + 1 \<and> (cs = 0 \<longrightarrow> ms = time_ms (h, m, s, cs))"
proof -
  define x where "x = f64_round (rat_of_nat (s * 100 + cs) / 100)"
  define t where "t = (h * 60 + m) * 60"
  define y where "y = f64_round (of_nat t + x)"
  define z where "z = f64_round (y * 1000)"
  let ?n = "time_ms (h, m, s, cs)"
  have exact: "f64_round (of_nat n) = of_nat n" if "n \<le> 2 ^ 53" for n using f64_of_nat_exact [OF that] by (simp add: f64_of_nat_def)
  have hu: "unat (of_nat h :: u64) = h" and mu: "unat (of_nat m :: u64) = m" using assms(1,2) by (simp_all add: unat_of_nat take_bit_nat_eq_self)
  have tb: "t < 2 ^ 32" using assms(1,2) unfolding t_def by simp
  have bounds: "h * 3600 \<le> 2 ^ 53" "m * 60 \<le> 2 ^ 53" "h * 3600 + m * 60 \<le> 2 ^ 53" using assms by simp_all
  have a: "f64_mul (f64_of_nat h) 3600 = of_nat (h * 3600)" "f64_mul (f64_of_nat m) 60 = of_nat (m * 60)"
    using exact [OF bounds(1)] exact [OF bounds(2)] f64_of_nat_exact [of h] f64_of_nat_exact [of m] assms by (simp_all add: f64_mul_def)
  have b: "f64_add (of_nat (h * 3600)) (of_nat (m * 60)) = of_nat t"
    using exact [OF bounds(3)] by (simp add: f64_add_def t_def algebra_simps)
  have p: "parse_u64 (pad2 h) = Ok (of_nat h)" "parse_u64 (pad2 m) = Ok (of_nat m)"
    using assms by (simp_all add: parse_u64_pad2)
  have z: "hms_to_ms (pad2 h) (pad2 m) (pad2 s @ CHR ''.'' # pad2 cs) = f64_to_u64 z"
    unfolding hms_to_ms_def p parse_f64_hundredths(1) [OF assms(4)] x_def [symmetric]
    by (simp only: res_ok.simps unwrap_or_def option.case Let_def hu mu a b seconds_to_ms_def) (simp add: f64_add_def f64_mul_def y_def z_def)
  have "rat_of_nat (s * 100 + cs) < of_nat 6400" using assms unfolding of_nat_less_iff by simp
  then have "0 \<le> rat_of_nat (s * 100 + cs) / 100" "rat_of_nat (s * 100 + cs) / 100 < 2 ^ 6" by simp_all
  from f64_round_dist [OF this] have dx: "\<bar>x - rat_of_nat (s * 100 + cs) / 100\<bar> \<le> (1 / 2) ^ 48" and "0 \<le> x" "x \<le> 64"
    unfolding x_def using f64_round_ge [of 0 "rat_of_nat (s * 100 + cs) / 100"] f64_round_le [of "rat_of_nat (s * 100 + cs) / 100" 64] \<open>_ < 2 ^ 6\<close>
    by (simp_all add: power_int_def)
  have "rat_of_nat t < 2 ^ 32" using tb by (metis of_nat_less_iff of_nat_numeral of_nat_power)
  then have "0 \<le> of_nat t + x" "of_nat t + x < 2 ^ 33" using \<open>0 \<le> x\<close> \<open>x \<le> 64\<close> by simp_all
  from f64_round_dist [OF this] have dy: "\<bar>y - (of_nat t + x)\<bar> \<le> (1 / 2) ^ 21" and "0 \<le> y" "y \<le> 2 ^ 33"
    unfolding y_def using f64_round_ge [of 0 "of_nat t + x"] f64_round_le [of "of_nat t + x" "2 ^ 33"] \<open>of_nat t + x < 2 ^ 33\<close> \<open>0 \<le> of_nat t + x\<close>
    by (simp_all add: power_int_def)
  from \<open>0 \<le> y\<close> \<open>y \<le> 2 ^ 33\<close> have "0 \<le> y * 1000" "y * 1000 < 2 ^ 43" by simp_all
  from f64_round_dist [OF this] have dz: "\<bar>z - y * 1000\<bar> \<le> (1 / 2) ^ 11" unfolding z_def by (simp add: power_int_def)
  have n: "rat_of_nat ?n = (of_nat t + rat_of_nat (s * 100 + cs) / 100) * 1000"
    by (simp add: time_ms_def t_def algebra_simps)
  have near: "\<bar>z - rat_of_nat ?n\<bar> < 1" unfolding n by (rule error_sum [OF dx dy dz])
  then have fl: "\<lfloor>z\<rfloor> = int ?n \<or> \<lfloor>z\<rfloor> = int ?n - 1" unfolding abs_less_iff by linarith
  have nb: "?n < 2 ^ 53" using assms unfolding time_ms_def by simp
  have z0: "0 \<le> z" unfolding z_def using f64_round_ge [of 0 "y * 1000"] \<open>0 \<le> y\<close> by simp
  then have f0: "0 \<le> \<lfloor>z\<rfloor>" by simp
  have "min (max \<lfloor>z\<rfloor> 0) (2 ^ 64 - 1) = int (nat \<lfloor>z\<rfloor>)" using fl nb f0 by auto
  then have "f64_to_u64 z = of_nat (nat \<lfloor>z\<rfloor>)" unfolding f64_to_u64_def by simp
  moreover have "nat \<lfloor>z\<rfloor> = ?n" if "cs = 0"
  proof -
    have "s \<le> 2 ^ 53" "t + s \<le> 2 ^ 53" "(t + s) * 1000 \<le> 2 ^ 53" using tb assms(3) by simp_all
    from exact [OF this(1)] exact [OF this(2)] exact [OF this(3)] have "z = of_nat ((t + s) * 1000)"
      by (simp add: z_def y_def x_def that)
    then have "\<lfloor>z\<rfloor> = int ((t + s) * 1000)" by (simp only: floor_of_nat)
    then show ?thesis by (simp add: time_ms_def t_def that)
  qed
  ultimately show ?thesis unfolding z using fl f0 by (intro exI [of _ "nat \<lfloor>z\<rfloor>"]) auto
qed

section \<open>The lines of a report\<close>

text \<open>
  A text without comma and line break in which no colon stands before a space or at the end, and one that stands between two
  commas of a line. The tokens that say nothing of the dimensions and the frame rate are idle.
\<close>

fun tight :: "string \<Rightarrow> bool" where
  "tight [] = True"
| "tight (c # s) = ((c = CHR '':'' \<longrightarrow> s \<noteq> [] \<and> hd s \<noteq> CHR '' '') \<and> tight s)"

definition text_ok :: "string \<Rightarrow> bool" where
  "text_ok s \<longleftrightarrow> CHR '','' \<notin> set s \<and> CHR 0x0A \<notin> set s \<and> tight s"

definition token_ok :: "string \<Rightarrow> bool" where
  "token_ok t \<longleftrightarrow> text_ok t \<and> t \<noteq> [] \<and> \<not> is_ws (hd t) \<and> \<not> is_ws (last t)"

definition idle :: "string \<Rightarrow> bool" where
  "idle t \<longleftrightarrow> token_ok t \<and> \<not> ends_with '' fps'' t \<and> (is_digit (hd t) \<longrightarrow> CHR ''x'' \<notin> set t)"

text \<open>
  The duration \<open>h:m:s\<close> with hundredths, the start and the rate; a stream with its label, its codec, what stands in
  parentheses behind it, and the tokens after it; the dimensions with the aspect ratio in brackets, and the frame rate, given in
  hundredths and printed without them when it is whole.
\<close>

definition duration_text :: "nat \<times> nat \<times> nat \<times> nat \<Rightarrow> string \<Rightarrow> nat \<Rightarrow> string" where
  "duration_text t start kbps =
     (case t of (h, m, s, cs) \<Rightarrow>
        ''  Duration: '' @ pad2 h @ '':'' @ pad2 m @ '':'' @ pad2 s @ ''.'' @ pad2 cs @ '', start: '' @ start @ '', bitrate: '' @
        show_nat kbps @ '' kb/s'')"

definition parens :: "string list \<Rightarrow> string" where
  "parens ps = concat (map (\<lambda>p. '' ('' @ p @ '')'') ps)"

definition token_list :: "string list \<Rightarrow> string" where
  "token_list ts = concat (map (\<lambda>t. '', '' @ t) ts)"

definition stream_text :: "string \<Rightarrow> string \<Rightarrow> string \<Rightarrow> string list \<Rightarrow> string list \<Rightarrow> string" where
  "stream_text label kind codec ps ts = ''  Stream #'' @ label @ kind @ codec @ parens ps @ token_list ts"

definition size_text :: "nat \<Rightarrow> nat \<Rightarrow> string option \<Rightarrow> string" where
  "size_text w h aspect = show_nat w @ ''x'' @ show_nat h @ (case aspect of None \<Rightarrow> [] | Some a \<Rightarrow> '' ['' @ a @ '']'')"

definition rate_text :: "nat \<Rightarrow> string" where
  "rate_text v = show_nat (v div 100) @ (if v mod 100 = 0 then [] else ''.'' @ pad2 (v mod 100)) @ '' fps''"

record stream_line =
  sl_label :: string
  sl_codec :: string
  sl_parens :: "string list"

record report =
  rp_head :: "string list"
  rp_time :: "nat \<times> nat \<times> nat \<times> nat"
  rp_start :: string
  rp_kbps :: nat
  rp_middle :: "string list"
  rp_video :: stream_line
  rp_pixels :: "string list"
  rp_size :: "nat \<times> nat"
  rp_aspect :: "string option"
  rp_more :: "string list"
  rp_rate :: nat
  rp_rest :: "string list"
  rp_between :: "string list"
  rp_audio :: stream_line
  rp_sound :: "string list"
  rp_tail :: "string list"

definition video_text :: "report \<Rightarrow> string" where
  "video_text r =
     stream_text (sl_label (rp_video r)) '': Video: '' (sl_codec (rp_video r)) (sl_parens (rp_video r))
       (rp_pixels r @ size_text (fst (rp_size r)) (snd (rp_size r)) (rp_aspect r) # rp_more r @ rate_text (rp_rate r) # rp_rest r)"

definition audio_text :: "report \<Rightarrow> string" where
  "audio_text r = stream_text (sl_label (rp_audio r)) '': Audio: '' (sl_codec (rp_audio r)) (sl_parens (rp_audio r)) (rp_sound r)"

definition report_text :: "report \<Rightarrow> string" where
  "report_text r =
     concat (map (\<lambda>l. l @ [CHR 0x0A])
       (rp_head r @ duration_text (rp_time r) (rp_start r) (rp_kbps r) # rp_middle r @ video_text r # rp_between r @ audio_text r # rp_tail r))"

text \<open>
  A line, which says nothing of the duration; before the streams the other lines are not about streams, and between the first
  video stream and the first audio stream there may be more video streams.
\<close>

definition line_ok :: "string \<Rightarrow> bool" where
  "line_ok l \<longleftrightarrow> CHR 0x0A \<notin> set l \<and> \<not> ends_with [CHR 0x0D] l \<and> \<not> starts_with ''Duration: '' (trim_start l)"

definition no_stream :: "string \<Rightarrow> string \<Rightarrow> bool" where
  "no_stream kind l \<longleftrightarrow> \<not> contains kind (trim_start l)"

definition stream_ok :: "stream_line \<Rightarrow> bool" where
  "stream_ok s \<longleftrightarrow> text_ok (sl_label s) \<and> plain (sl_codec s) \<and> list_all text_ok (sl_parens s)"

definition report_ok :: "report \<Rightarrow> bool" where
  "report_ok r \<longleftrightarrow>
     (case rp_time r of (h, m, s, cs) \<Rightarrow> h < 2 ^ 20 \<and> m < 60 \<and> s < 60 \<and> cs < 100) \<and> rp_kbps r < 2 ^ 64 \<and>
     list_all (\<lambda>c. is_digit c \<or> c = CHR ''.'' \<or> c = CHR ''-'') (rp_start r) \<and>
     stream_ok (rp_video r) \<and> stream_ok (rp_audio r) \<and> fst (rp_size r) < 2 ^ 32 \<and> snd (rp_size r) < 2 ^ 32 \<and>
     list_all text_ok (case rp_aspect r of None \<Rightarrow> [] | Some a \<Rightarrow> [a]) \<and>
     list_all idle (rp_pixels r @ rp_more r @ rp_rest r) \<and> list_all token_ok (rp_sound r) \<and>
     list_all line_ok (rp_head r @ rp_middle r @ rp_between r @ rp_tail r) \<and>
     list_all (no_stream '': Video: '') (rp_head r @ rp_middle r) \<and>
     list_all (no_stream '': Audio: '') (rp_head r @ rp_middle r @ rp_between r)"

section \<open>Searching a line\<close>

lemma find_sub_skip: "p \<noteq> [] \<Longrightarrow> hd p \<notin> set a \<Longrightarrow> find_sub p (a @ s) = map_option ((+) (length a)) (find_sub p s)"
proof (induction a)
  case Nil
  have "(+) 0 = (\<lambda>n::nat. n)" by auto
  then show ?case by (simp add: option.map_ident)
next
  case (Cons c a)
  then have "\<not> starts_with p ((c # a) @ s)" by (cases p) (auto simp: starts_with_def)
  with Cons show ?case by (simp add: option.map_comp comp_def)
qed

lemma tight_skip: "tight a \<Longrightarrow> find_sub (CHR '':'' # CHR '' '' # q) (a @ s) =
  map_option ((+) (length a)) (find_sub (CHR '':'' # CHR '' '' # q) s)"
proof (induction a)
  case Nil
  have "(+) 0 = (\<lambda>n::nat. n)" by auto
  then show ?case by (simp add: option.map_ident)
next
  case (Cons c a)
  then have "\<not> starts_with (CHR '':'' # CHR '' '' # q) ((c # a) @ s)" by (cases a) (auto simp: starts_with_def)
  with Cons show ?case by (simp add: option.map_comp comp_def)
qed

lemma tight_none: "tight a \<Longrightarrow> find_sub (CHR '':'' # CHR '' '' # q) a = None"
  using tight_skip [of a q "[]"] by simp

lemma tight_append: "tight a \<Longrightarrow> tight b \<Longrightarrow> tight (a @ b)"
  by (induction a) auto

lemma tight_no_colon: "CHR '':'' \<notin> set a \<Longrightarrow> tight a"
  by (induction a) auto

lemma tight_parens: "list_all text_ok ps \<Longrightarrow> tight (parens ps)"
  by (induction ps) (auto simp: parens_def text_ok_def tight_append)

lemma tight_tokens: "list_all token_ok ts \<Longrightarrow> tight (token_list ts)"
  by (induction ts) (auto simp: token_list_def token_ok_def text_ok_def tight_append)

lemma parens_chars: "list_all text_ok ps \<Longrightarrow> CHR '','' \<notin> set (parens ps) \<and> CHR 0x0A \<notin> set (parens ps)"
  by (induction ps) (auto simp: parens_def text_ok_def)

lemma tokens_no_newline: "list_all token_ok ts \<Longrightarrow> CHR 0x0A \<notin> set (token_list ts)"
  by (induction ts) (auto simp: token_list_def token_ok_def text_ok_def)

lemma parens_last: "ps \<noteq> [] \<Longrightarrow> parens ps \<noteq> [] \<and> last (parens ps) = CHR '')''"
  by (induction ps rule: rev_induct) (auto simp: parens_def)

lemma split_tokens:
  "CHR '','' \<notin> set a \<Longrightarrow> list_all token_ok ts \<Longrightarrow> split_on CHR '','' (a @ token_list ts) = a # map (\<lambda>t. CHR '' '' # t) ts"
proof (induction ts arbitrary: a)
  case (Cons t ts)
  then have "CHR '','' \<notin> set (CHR '' '' # t)" by (simp add: token_ok_def text_ok_def)
  with Cons have "split_on CHR '','' ((CHR '' '' # t) @ token_list ts) = (CHR '' '' # t) # map (\<lambda>t. CHR '' '' # t) ts" by simp
  then show ?case using split_on_append [OF Cons.prems(1), of "(CHR '' '' # t) @ token_list ts"] by (simp add: token_list_def)
qed (simp add: token_list_def split_on_none)

text \<open>The three kinds of lines of a report.\<close>

lemma probe_line_duration:
  assumes "trim_start l = line" and "strip_prefix ''Duration: '' line = Some d"
    and "find_sub '': Video: '' line = None" and "find_sub '': Audio: '' line = None"
  shows "probe_line l (r, False) = (duration_line d r, False)"
  using assms by (simp add: probe_line_def contains_def Let_def)

lemma probe_line_video:
  assumes "trim_start l = line" and "strip_prefix ''Duration: '' line = None"
    and "find_sub '': Video: '' line = Some i" and "find_sub '': Audio: '' line = None"
  shows "probe_line l (r, False) = (video_line line r, True)"
  using assms by (simp add: probe_line_def contains_def Let_def)

lemma probe_line_audio:
  assumes "trim_start l = line" and "strip_prefix ''Duration: '' line = None"
    and "find_sub '': Video: '' line = None" and "find_sub '': Audio: '' line = Some i" and "mp_audio_codec r = []"
  shows "probe_line l (r, True) = (audio_line line r, True)"
  using assms by (simp add: probe_line_def contains_def Let_def)

lemma probe_line_quiet:
  assumes "line_ok l" and "found \<or> no_stream '': Video: '' l" and "mp_audio_codec r \<noteq> [] \<or> no_stream '': Audio: '' l"
  shows "probe_line l (r, found) = (r, found)"
  using assms by (auto simp: probe_line_def Let_def line_ok_def no_stream_def strip_prefix_def)

lemma probe_lines_quiet:
  assumes "list_all line_ok ls" and "found \<or> list_all (no_stream '': Video: '') ls"
    and "mp_audio_codec r \<noteq> [] \<or> list_all (no_stream '': Audio: '') ls"
  shows "fold probe_line ls (r, found) = (r, found)"
  using assms by (induction ls) (auto simp: probe_line_quiet)

section \<open>The duration line\<close>

lemma bitrate_exact:
  assumes "kbps < 2 ^ 64" and "list_all (\<lambda>c. is_digit c \<or> c = CHR ''.'' \<or> c = CHR ''-'') start"
  shows "bitrate_of ('' start: '' @ start @ '', bitrate: '' @ show_nat kbps @ '' kb/s'') = Some (of_nat kbps * 1000)"
proof -
  let ?a = "'' start: '' @ start @ '', ''"
  have b: "CHR ''b'' \<notin> set ?a" using assms(2) by (auto simp: list_all_iff is_digit_def)
  have f: "find_sub ''bitrate: '' (?a @ ''bitrate: '' @ t) = Some (length ?a)" for t
    using find_sub_skip [of "''bitrate: ''" ?a "''bitrate: '' @ t"] b find_sub_here [of "''bitrate: ''" t] by simp
  have dr: "drop (length a + 9) (a @ ''bitrate: '' @ t) = t" for a t :: string by simp
  have t: "takeWhile is_ascii_digit (show_nat kbps @ '' kb/s'') = show_nat kbps"
    by (subst takeWhile_digits) (simp add: is_ascii_digit_def)
  have p: "parse_u64 (show_nat kbps) = Ok (of_nat kbps)" using assms(1) by (simp add: parse_u64_def parse_uint_show_nat)
  have "bitrate_of (?a @ ''bitrate: '' @ show_nat kbps @ '' kb/s'') = Some (of_nat kbps * 1000)"
    unfolding bitrate_of_def f option.map dr t p by (simp add: unwrap_or_def)
  then show ?thesis by simp
qed

lemma duration_line_read:
  assumes "kbps < 2 ^ 64" and st: "list_all (\<lambda>c. is_digit c \<or> c = CHR ''.'' \<or> c = CHR ''-'') start"
  shows "probe_line (duration_text (h, m, s, cs) start kbps) (r, False) =
    (r\<lparr>mp_duration_ms := hms_to_ms (pad2 h) (pad2 m) (pad2 s @ CHR ''.'' # pad2 cs), mp_bitrate := of_nat kbps * 1000\<rparr>, False)"
proof -
  let ?sec = "pad2 s @ CHR ''.'' # pad2 cs"
  let ?time = "pad2 h @ '':'' @ pad2 m @ '':'' @ ?sec" and ?rest = "'' start: '' @ start @ '', bitrate: '' @ show_nat kbps @ '' kb/s''"
  note pl = plain_pad2 [THEN plain_notin(1)] plain_pad2 [THEN plain_notin(4)] plain_pad2 [THEN plain_notin(5)] plain_pad2 [THEN plain_notin(6)]
    plain_show_nat [THEN plain_notin(5)] plain_show_nat [THEN plain_notin(6)]
  have sc: "CHR ''V'' \<notin> set start" "CHR ''A'' \<notin> set start" using st by (auto simp: list_all_iff is_digit_def)
  let ?line = "''Duration: '' @ ?time @ CHR '','' # ?rest"
  have line: "trim_start (duration_text (h, m, s, cs) start kbps) = ?line" by (simp add: trim_start_def duration_text_def is_ws_def)
  have V: "find_sub '': Video: '' ?line = None" using pl sc by (intro find_sub_none [of "CHR ''V''"]) auto
  have A: "find_sub '': Audio: '' ?line = None" using pl sc by (intro find_sub_none [of "CHR ''A''"]) auto
  have b: "before CHR '','' (?time @ CHR '','' # ?rest) = ?time" "after CHR '','' (?time @ CHR '','' # ?rest) = Some ?rest"
    using pl by (intro before_append after_append; auto)+
  have "\<not> is_ws (hd ?time)" "\<not> is_ws (last ?time)"
    using plain_ends [OF plain_pad2 [of h]] plain_ends [OF plain_pad2 [of cs]] by auto
  then have t: "trim ?time = ?time" by (intro trim_ends) auto
  have sp: "split_on CHR '':'' ?time = [pad2 h, pad2 m, ?sec]"
    using pl by (simp add: split_on_append split_on_none)
  have d: "duration_line (?time @ CHR '','' # ?rest) r =
      r\<lparr>mp_duration_ms := hms_to_ms (pad2 h) (pad2 m) ?sec, mp_bitrate := of_nat kbps * 1000\<rparr>"
    unfolding duration_line_def b t sp bind.simps bitrate_exact [OF assms] by (simp only: list.case option.case Let_def)
  have "probe_line (duration_text (h, m, s, cs) start kbps) (r, False) = (duration_line (?time @ CHR '','' # ?rest) r, False)"
    by (rule probe_line_duration [OF line _ V A]) (rule strip_prefix_append)
  then show ?thesis unfolding d .
qed

section \<open>The stream lines\<close>

lemma codec_of_stream:
  assumes "plain codec" and "list_all text_ok ps"
  shows "codec_of (codec @ parens ps @ token_list ts) = codec"
proof -
  note cod = plain_notin [OF assms(1)] plain_ends [OF assms(1)]
  let ?c = "codec @ parens ps"
  have comma: "CHR '','' \<notin> set ?c" using cod parens_chars [OF assms(2)] by simp
  have b: "before CHR '','' (codec @ parens ps @ token_list ts) = ?c"
  proof (cases ts)
    case Nil
    then show ?thesis using before_none [OF comma] by (simp add: token_list_def)
  next
    case (Cons t ts')
    then show ?thesis using before_append [OF comma] by (simp add: token_list_def)
  qed
  have "\<not> is_ws (last ?c)"
    using cod parens_last [of ps] by (cases "ps = []") (simp_all add: parens_def [of "[]"] is_ws_def [of "CHR '')''"])
  then have "trim ?c = ?c" using cod by (intro trim_ends(1)) simp_all
  moreover have "find_sub '' ('' ?c = (if ps = [] then None else Some (length codec))"
  proof (cases ps)
    case Nil
    then show ?thesis using find_sub_none [of "CHR ''(''" "'' (''" codec] cod by (simp add: parens_def)
  next
    case (Cons p ps')
    then have "find_sub '' ('' (parens ps) = Some 0" using find_sub_here [of "'' (''"] by (simp add: parens_def starts_with_def)
    then show ?thesis using find_sub_skip [of "'' (''" codec "parens ps"] cod Cons by simp
  qed
  ultimately show ?thesis unfolding codec_of_def b by (simp add: parens_def)
qed

text \<open>A stream line holds the mark of its kind once, and not that of the other kind.\<close>

lemma stream_line_marks:
  assumes "text_ok label" and "plain codec" and "list_all text_ok ps" and "list_all token_ok ts"
  defines "sec \<equiv> codec @ parens ps @ token_list ts"
  shows "trim_start (stream_text label kind codec ps ts) = ''Stream #'' @ label @ kind @ sec"
    and "strip_prefix ''Duration: '' (''Stream #'' @ label @ kind @ sec) = None"
    and "find_sub '': Video: '' (''Stream #'' @ label @ '': Video: '' @ sec) = Some (8 + length label)"
    and "find_sub '': Audio: '' (''Stream #'' @ label @ '': Audio: '' @ sec) = Some (8 + length label)"
    and "find_sub '': Audio: '' (''Stream #'' @ label @ '': Video: '' @ sec) = None"
    and "find_sub '': Video: '' (''Stream #'' @ label @ '': Audio: '' @ sec) = None"
    and "second_part '': Video: '' (''Stream #'' @ label @ '': Video: '' @ sec) = Some sec"
    and "second_part '': Audio: '' (''Stream #'' @ label @ '': Audio: '' @ sec) = Some sec"
proof -
  have tl: "tight (''Stream #'' @ label)" using assms(1) by (simp add: text_ok_def)
  have ts: "tight sec" unfolding sec_def using plain_notin(4) [OF assms(2)] assms(3,4)
    by (intro tight_append tight_no_colon tight_parens tight_tokens) auto
  obtain c cs where c: "sec = c # cs" "c \<noteq> CHR ''V''" "c \<noteq> CHR ''A''"
    using plain_notin(5,6) [OF assms(2)] plain_ends [OF assms(2)] by (cases codec) (auto simp: sec_def)
  note skip = tight_skip [OF tl, unfolded append.assoc]
  show "trim_start (stream_text label kind codec ps ts) = ''Stream #'' @ label @ kind @ sec"
    by (simp add: trim_start_def stream_text_def sec_def is_ws_def)
  show "strip_prefix ''Duration: '' (''Stream #'' @ label @ kind @ sec) = None" by (simp add: strip_prefix_def starts_with_def)
  show V: "find_sub '': Video: '' (''Stream #'' @ label @ '': Video: '' @ sec) = Some (8 + length label)"
    unfolding skip by (simp add: starts_with_def)
  show A: "find_sub '': Audio: '' (''Stream #'' @ label @ '': Audio: '' @ sec) = Some (8 + length label)"
    unfolding skip by (simp add: starts_with_def)
  have nA: "find_sub '': Audio: '' sec = None" and nV: "find_sub '': Video: '' sec = None" by (rule tight_none [OF ts])+
  have "find_sub '': Audio: '' ('': Video: '' @ sec) = None" using nA c by (simp add: starts_with_def)
  then show "find_sub '': Audio: '' (''Stream #'' @ label @ '': Video: '' @ sec) = None" unfolding skip by (simp only: option.map)
  have "find_sub '': Video: '' ('': Audio: '' @ sec) = None" using nV c by (simp add: starts_with_def)
  then show "find_sub '': Video: '' (''Stream #'' @ label @ '': Audio: '' @ sec) = None" unfolding skip by (simp only: option.map)
  show "second_part '': Video: '' (''Stream #'' @ label @ '': Video: '' @ sec) = Some sec"
    unfolding second_part_def V by (simp add: nV)
  show "second_part '': Audio: '' (''Stream #'' @ label @ '': Audio: '' @ sec) = Some sec"
    unfolding second_part_def A by (simp add: nA)
qed

section \<open>The tokens of the video line\<close>

lemma resolution_of_size:
  assumes "w < 2 ^ 32" and "h < 2 ^ 32"
  shows "resolution_of (size_text w h aspect) = Some (of_nat w, of_nat h)"
proof -
  let ?s = "case aspect of None \<Rightarrow> [] | Some a \<Rightarrow> '' ['' @ a @ '']''"
  have x: "CHR ''x'' \<notin> set (show_nat w)" using show_nat_digits digit_plain_char by blast
  have "takeWhile is_ascii_digit ?s = []" by (simp add: is_ascii_digit_def split: option.split)
  then have t: "takeWhile is_ascii_digit (show_nat h @ ?s) = show_nat h" using takeWhile_digits [of h ?s] by simp
  have l: "list_all is_ascii_digit (show_nat w)" using show_nat_digits is_ascii_digit_iff by (auto simp: list_all_iff)
  have e: "size_text w h aspect = show_nat w @ CHR ''x'' # (show_nat h @ ?s)" by (simp add: size_text_def)
  show ?thesis
    unfolding resolution_of_def e after_append [OF x] before_append [OF x] option.case t Let_def
    using l by (simp add: parse_u32_show [OF assms(1)] parse_u32_show [OF assms(2)] unwrap_or_def)
qed

lemma resolution_of_none: "CHR ''x'' \<notin> set s \<Longrightarrow> resolution_of s = None"
  by (simp add: resolution_of_def after_def)

lemma resolution_of_letter: "s \<noteq> [] \<Longrightarrow> \<not> is_digit (hd s) \<Longrightarrow> resolution_of s = None"
  by (cases s) (auto simp: resolution_of_def after_def before_def is_ascii_digit_iff)

lemma fps_of_none: "s \<noteq> [] \<Longrightarrow> last s \<noteq> CHR ''s'' \<Longrightarrow> last s \<noteq> CHR '','' \<Longrightarrow> fps_of s = None"
  by (cases s rule: rev_cases) (simp_all add: fps_of_def ends_with_def starts_with_def)

lemma fps_of_idle: "\<not> ends_with '' fps'' s \<Longrightarrow> CHR '','' \<notin> set s \<Longrightarrow> fps_of s = None"
  by (cases s rule: rev_cases) (auto simp: fps_of_def ends_with_def starts_with_def)

lemma fps_of_text:
  assumes "u \<noteq> []" and "is_digit (hd u)" and "is_digit (last u)"
  shows "fps_of (u @ '' fps'') = Some (unwrap_or 0 (parse_f64 u))"
proof -
  have e: "\<not> ends_with '' fps'' u" "\<not> ends_with '' fps,'' u"
    using digit_plain_char [OF assms(3)] assms(1,3) by (cases u rule: rev_cases; auto simp: ends_with_def starts_with_def is_digit_def)+
  have "trim_end_matches '' fps'' (u @ '' fps'') = u"
    by (subst trim_end_matches.simps, simp only: ends_with_append) (simp add: trim_end_matches.simps [of "'' fps''" u] e)
  moreover have "trim_end_matches '' fps,'' u = u"
    by (subst trim_end_matches.simps) (simp add: e)
  moreover have "trim u = u" using assms digit_plain_char plain_char_neq by (intro trim_ends) auto
  ultimately show ?thesis unfolding fps_of_def by (simp only: ends_with_append simp_thms if_True)
qed

lemma token_ok_append:
  assumes "u \<noteq> []" and "\<forall>c \<in> set u. c \<noteq> CHR '':'' \<and> c \<noteq> CHR '','' \<and> c \<noteq> CHR 0x0A" and "\<not> is_ws (hd u)"
    and "text_ok s" and "\<not> is_ws (last (u @ s))"
  shows "token_ok (u @ s)"
proof -
  have "tight u" using assms(2) by (intro tight_no_colon) auto
  then have "tight (u @ s)" using assms(4) by (auto simp: text_ok_def intro: tight_append)
  with assms show ?thesis by (auto simp: token_ok_def text_ok_def)
qed

lemma rate_text_value:
  "fps_of (rate_text v) = Some (f64_round (of_nat v / 100))" "resolution_of (rate_text v) = None"
  "token_ok (rate_text v)"
proof -
  let ?u = "show_nat (v div 100) @ (if v mod 100 = 0 then [] else ''.'' @ pad2 (v mod 100))"
  have d: "is_digit (hd (show_nat n)) \<and> is_digit (last (show_nat n))" for n
    using show_nat_digits [of "hd (show_nat n)" n] show_nat_digits [of "last (show_nat n)" n] by simp
  have p: "pad2 n \<noteq> [] \<and> is_digit (last (pad2 n))" for n
    using pad2_digits [of "last (pad2 n)" n] by (simp add: pad2_def)
  have e: "rate_text v = ?u @ '' fps''" by (simp add: rate_text_def)
  have ends: "?u \<noteq> []" "is_digit (hd ?u)" "is_digit (last ?u)" using d p by auto
  have v: "of_nat v / (100::rat) = of_nat (v div 100) + of_nat (v mod 100) / 100"
    using arg_cong [OF div_mult_mod_eq [of v 100], of rat_of_nat] unfolding of_nat_add of_nat_mult by (simp add: field_simps)
  have "parse_f64 ?u = Some (f64_round (of_nat v / 100))"
  proof (cases "v mod 100 = 0")
    case True
    then show ?thesis unfolding v by (simp add: parse_f64_whole)
  next
    case False
    then show ?thesis using parse_f64_hundredths(2) [of "v mod 100" "v div 100"] by simp
  qed
  with fps_of_text [OF ends] show "fps_of (rate_text v) = Some (f64_round (of_nat v / 100))" unfolding e by (simp add: unwrap_or_def)
  have u: "\<forall>c \<in> set ?u. c \<noteq> CHR ''x'' \<and> c \<noteq> CHR '':'' \<and> c \<noteq> CHR '','' \<and> c \<noteq> CHR 0x0A"
    by (auto simp: number_notin split: if_splits)
  show "resolution_of (rate_text v) = None" unfolding e by (intro resolution_of_none) (simp add: number_notin)
  have w: "\<not> is_ws (hd ?u)" using ends(2) digit_plain_char plain_char_neq by blast
  have "\<forall>c \<in> set ?u. c \<noteq> CHR '':'' \<and> c \<noteq> CHR '','' \<and> c \<noteq> CHR 0x0A" using u by blast
  then show "token_ok (rate_text v)"
    unfolding e by (rule token_ok_append [OF ends(1) _ w]) (simp_all add: text_ok_def is_ws_def)
qed

lemma size_text_ok:
  assumes "list_all text_ok (case aspect of None \<Rightarrow> [] | Some a \<Rightarrow> [a])"
  shows "token_ok (size_text w h aspect)" and "fps_of (size_text w h aspect) = None"
proof -
  let ?s = "case aspect of None \<Rightarrow> [] | Some a \<Rightarrow> '' ['' @ a @ '']''" and ?u = "show_nat w @ ''x'' @ show_nat h"
  have e: "size_text w h aspect = ?u @ ?s" by (simp add: size_text_def)
  have dx: "is_digit c \<Longrightarrow> c \<noteq> CHR ''s'' \<and> c \<noteq> CHR '','' \<and> \<not> is_ws c" for c
    using digit_plain_char plain_char_neq by blast
  have u: "\<forall>c \<in> set ?u. c \<noteq> CHR '':'' \<and> c \<noteq> CHR '','' \<and> c \<noteq> CHR 0x0A" by (auto simp: number_notin)
  have s: "CHR '','' \<notin> set ?s \<and> CHR 0x0A \<notin> set ?s \<and> tight ?s"
    using assms by (auto simp: text_ok_def tight_append split: option.splits)
  have d: "is_digit (hd (show_nat w))" "is_digit (last (show_nat h))" using show_nat_digits by (metis hd_in_set show_nat_neq_Nil, metis last_in_set show_nat_neq_Nil)
  have l: "last (?u @ ?s) \<noteq> CHR ''s'' \<and> last (?u @ ?s) \<noteq> CHR '','' \<and> \<not> is_ws (last (?u @ ?s))"
    using d(2) dx by (auto simp: is_ws_def [of "CHR '']''"] split: option.split)
  have w: "?u \<noteq> []" "\<not> is_ws (hd ?u)" using d(1) dx by simp_all
  have "text_ok ?s" "\<not> is_ws (last (?u @ ?s))" using s l by (simp_all only: text_ok_def simp_thms)
  then show "token_ok (size_text w h aspect)" unfolding e by (rule token_ok_append [OF w(1) u w(2)])
  show "fps_of (size_text w h aspect) = None" unfolding e using w(1) l by (intro fps_of_none) simp_all
qed

lemma video_token_size:
  "trim tok = t \<Longrightarrow> resolution_of t = Some (w, h) \<Longrightarrow> fps_of t = None \<Longrightarrow> video_token tok r = r\<lparr>mp_width := w, mp_height := h\<rparr>"
  by (simp add: video_token_def Let_def)

lemma video_token_rate:
  "trim tok = t \<Longrightarrow> resolution_of t = None \<Longrightarrow> fps_of t = Some x \<Longrightarrow> video_token tok r = r\<lparr>mp_fps := x\<rparr>"
  by (simp add: video_token_def Let_def)

lemma trim_token: "token_ok t \<Longrightarrow> trim (CHR '' '' # t) = t"
  using trim_ends [of t] by (simp add: token_ok_def)

lemma video_token_idle: "idle t \<Longrightarrow> video_token (CHR '' '' # t) r = r"
proof -
  assume i: "idle t"
  then have "resolution_of t = None"
    using resolution_of_none [of t] resolution_of_letter [of t] by (auto simp: idle_def token_ok_def)
  moreover have "fps_of t = None" using i by (intro fps_of_idle) (auto simp: idle_def token_ok_def text_ok_def)
  ultimately show ?thesis using i by (simp add: video_token_def trim_token idle_def)
qed

lemma video_tokens_idle: "list_all idle ts \<Longrightarrow> fold video_token (map (\<lambda>t. CHR '' '' # t) ts) r = r"
  by (induction ts) (auto simp: video_token_idle)

text \<open>The token before the first comma: at most the frame rate is set, and set again by its own token.\<close>

lemma video_token_first:
  assumes "plain codec"
  obtains f where "\<And>s :: media_probe. video_token (''Stream #'' @ label @ kind @ codec @ parens ps) s = s\<lparr>mp_fps := f s\<rparr>"
proof -
  let ?t = "''Stream #'' @ label @ kind @ codec @ parens ps"
  have "\<not> is_ws (last ?t)"
    using plain_ends [OF assms] parens_last [of ps] by (cases "ps = []") (simp_all add: parens_def [of "[]"] is_ws_def [of "CHR '')''"])
  then have k: "trim ?t = ?t" by (intro trim_ends(1)) (simp_all add: is_ws_def [of "CHR ''S''"])
  have "resolution_of ?t = None" by (rule resolution_of_letter) (simp_all add: is_digit_def)
  then have "video_token ?t s = s\<lparr>mp_fps := case fps_of ?t of Some x \<Rightarrow> x | None \<Rightarrow> mp_fps s\<rparr>" for s :: media_probe
    unfolding video_token_def k Let_def by (cases "fps_of ?t") simp_all
  then show ?thesis by (rule that)
qed

lemma video_tokens_read:
  assumes "list_all idle ps" and "list_all idle ms" and "list_all idle rs" and "w < 2 ^ 32" and "h < 2 ^ 32"
    and "list_all text_ok (case aspect of None \<Rightarrow> [] | Some a \<Rightarrow> [a])"
  shows "fold video_token (map (\<lambda>t. CHR '' '' # t) (ps @ size_text w h aspect # ms @ rate_text v # rs)) r =
    r\<lparr>mp_width := of_nat w, mp_height := of_nat h, mp_fps := f64_round (of_nat v / 100)\<rparr>"
proof -
  have a: "video_token (CHR '' '' # size_text w h aspect) s = s\<lparr>mp_width := of_nat w, mp_height := of_nat h\<rparr>" for s :: media_probe
    by (rule video_token_size [OF trim_token [OF size_text_ok(1)] resolution_of_size size_text_ok(2)]) (rule assms)+
  have b: "video_token (CHR '' '' # rate_text v) s = s\<lparr>mp_fps := f64_round (of_nat v / 100)\<rparr>" for s :: media_probe
    by (rule video_token_rate [OF trim_token [OF rate_text_value(3)] rate_text_value(2,1)])
  show ?thesis
    unfolding map_append list.map fold_append fold_simps comp_def video_tokens_idle [OF assms(1)] video_tokens_idle [OF assms(2)]
      video_tokens_idle [OF assms(3)] a b by simp
qed

lemma video_line_read:
  assumes "report_ok r"
  shows "probe_line (video_text r) (p, False) =
    (p\<lparr>mp_video_codec := sl_codec (rp_video r), mp_width := of_nat (fst (rp_size r)), mp_height := of_nat (snd (rp_size r)),
       mp_fps := f64_round (of_nat (rp_rate r) / 100)\<rparr>, True)"
proof -
  let ?l = "sl_label (rp_video r)" and ?c = "sl_codec (rp_video r)" and ?ps = "sl_parens (rp_video r)"
    and ?z = "size_text (fst (rp_size r)) (snd (rp_size r)) (rp_aspect r)"
  let ?ts = "rp_pixels r @ ?z # rp_more r @ rate_text (rp_rate r) # rp_rest r"
  let ?sec = "?c @ parens ?ps @ token_list ?ts" and ?first = "''Stream #'' @ ?l @ '': Video: '' @ ?c @ parens ?ps"
  have ok: "text_ok ?l" "plain ?c" "list_all text_ok ?ps" "fst (rp_size r) < 2 ^ 32" "snd (rp_size r) < 2 ^ 32"
    "list_all idle (rp_pixels r)" "list_all idle (rp_more r)" "list_all idle (rp_rest r)"
    and asp: "list_all text_ok (case rp_aspect r of None \<Rightarrow> [] | Some a \<Rightarrow> [a])"
    using assms by (simp_all add: report_ok_def stream_ok_def)
  have "list_all token_ok ts" if "list_all idle ts" for ts using that by (simp add: list_all_iff idle_def)
  then have ts: "list_all token_ok ?ts" using ok(6-8) size_text_ok(1) [OF asp] rate_text_value(3) by simp
  note marks = stream_line_marks [OF ok(1-3) ts]
  have comma: "CHR '','' \<notin> set ?first" using ok(1) plain_notin(1) [OF ok(2)] parens_chars [OF ok(3)] by (simp add: text_ok_def)
  have split: "split_on CHR '','' (''Stream #'' @ ?l @ '': Video: '' @ ?sec) = ?first # map (\<lambda>t. CHR '' '' # t) ?ts"
    using split_tokens [OF comma ts] by simp
  obtain f where f: "\<And>s :: media_probe. video_token ?first s = s\<lparr>mp_fps := f s\<rparr>"
    using video_token_first [OF ok(2), of ?l "'': Video: ''" ?ps] by blast
  have line: "video_line (''Stream #'' @ ?l @ '': Video: '' @ ?sec) p = p\<lparr>mp_video_codec := ?c, mp_width := of_nat (fst (rp_size r)),
      mp_height := of_nat (snd (rp_size r)), mp_fps := f64_round (of_nat (rp_rate r) / 100)\<rparr>"
    unfolding video_line_def marks(7) split option.case codec_of_stream [OF ok(2,3)] Let_def fold_simps comp_def f
      video_tokens_read [OF ok(6-8) ok(4,5) asp] by simp
  show ?thesis
    unfolding video_text_def line [symmetric] by (rule probe_line_video [OF marks(1,2,3,5)])
qed

lemma audio_line_read:
  assumes "report_ok r" and "mp_audio_codec p = []"
  shows "probe_line (audio_text r) (p, True) = (p\<lparr>mp_audio_codec := sl_codec (rp_audio r)\<rparr>, True)"
proof -
  have ok: "text_ok (sl_label (rp_audio r))" "plain (sl_codec (rp_audio r))" "list_all text_ok (sl_parens (rp_audio r))"
    "list_all token_ok (rp_sound r)"
    using assms(1) by (simp_all add: report_ok_def stream_ok_def)
  note marks = stream_line_marks [OF ok]
  show ?thesis
    unfolding audio_text_def using probe_line_audio [OF marks(1,2,6,4) assms(2)]
    by (simp only: audio_line_def marks(8) option.case codec_of_stream [OF ok(2,3)])
qed

section \<open>The report\<close>

lemma str_lines_concat:
  assumes "\<forall>l \<in> set ls. CHR 0x0A \<notin> set l \<and> \<not> ends_with [CHR 0x0D] l"
  shows "str_lines (concat (map (\<lambda>l. l @ [CHR 0x0A]) ls)) = ls"
proof -
  have "split_on CHR 0x0A (concat (map (\<lambda>l. l @ [CHR 0x0A]) ls)) = ls @ [[]]"
    using assms by (induction ls) (simp_all add: split_on_append)
  moreover have "map (\<lambda>l. case strip_suffix [CHR 0x0D] l of Some l' \<Rightarrow> l' | None \<Rightarrow> l) ls = ls"
    using assms by (intro map_idI) (simp add: strip_suffix_def)
  ultimately show ?thesis by (simp add: str_lines_def)
qed

lemma no_return: "s \<noteq> [] \<Longrightarrow> last s \<noteq> CHR 0x0D \<Longrightarrow> \<not> ends_with [CHR 0x0D] s"
  by (cases s rule: rev_cases) (simp_all add: ends_with_def starts_with_def)

lemma token_last: "token_ok t \<Longrightarrow> last t \<noteq> CHR 0x0D"
  by (auto simp: token_ok_def is_ws_def [of "last t"])

lemma tokens_last:
  assumes "list_all token_ok ts" and "ts \<noteq> []"
  shows "token_list ts \<noteq> [] \<and> last (token_list ts) \<noteq> CHR 0x0D"
  using assms token_last by (cases ts rule: rev_cases) (auto simp: token_list_def token_ok_def)

lemma stream_text_line:
  assumes "text_ok label" and "kind \<in> {'': Video: '', '': Audio: ''}" and "plain codec" and "list_all text_ok ps" and "list_all token_ok ts"
  shows "CHR 0x0A \<notin> set (stream_text label kind codec ps ts) \<and> \<not> ends_with [CHR 0x0D] (stream_text label kind codec ps ts)"
proof
  show "CHR 0x0A \<notin> set (stream_text label kind codec ps ts)"
    using assms plain_notin(7) [OF assms(3)] parens_chars [OF assms(4)] tokens_no_newline [OF assms(5)]
    by (auto simp: stream_text_def text_ok_def)
  have c: "codec \<noteq> []" "last codec \<noteq> CHR 0x0D" using plain_ends [OF assms(3)] plain_notin(8) [OF assms(3)] by (auto dest: last_in_set)
  have "last (codec @ parens ps @ token_list ts) \<noteq> CHR 0x0D"
    using c tokens_last [OF assms(5)] parens_last [of ps]
    by (cases "ts = []"; cases "ps = []") (simp_all add: parens_def [of "[]"] token_list_def [of "[]"])
  then show "\<not> ends_with [CHR 0x0D] (stream_text label kind codec ps ts)"
    using c(1) by (intro no_return) (simp_all add: stream_text_def)
qed

lemma duration_text_line:
  assumes "list_all (\<lambda>c. is_digit c \<or> c = CHR ''.'' \<or> c = CHR ''-'') start"
  shows "CHR 0x0A \<notin> set (duration_text t start kbps) \<and> \<not> ends_with [CHR 0x0D] (duration_text t start kbps)"
proof
  have "CHR 0x0A \<notin> set start" using assms by (auto simp: list_all_iff is_digit_def)
  then show "CHR 0x0A \<notin> set (duration_text t start kbps)" by (simp add: duration_text_def number_notin split: prod.split)
  show "\<not> ends_with [CHR 0x0D] (duration_text t start kbps)" by (rule no_return) (simp_all add: duration_text_def split: prod.split)
qed

lemma report_lines:
  assumes "report_ok r"
  shows "str_lines (report_text r) = rp_head r @ duration_text (rp_time r) (rp_start r) (rp_kbps r) # rp_middle r @ video_text r #
    rp_between r @ audio_text r # rp_tail r"
proof -
  have idle: "list_all idle ts \<Longrightarrow> list_all token_ok ts" for ts by (simp add: list_all_iff idle_def)
  have v: "CHR 0x0A \<notin> set (video_text r) \<and> \<not> ends_with [CHR 0x0D] (video_text r)"
    unfolding video_text_def using assms idle size_text_ok(1) rate_text_value(3)
    by (intro stream_text_line) (simp_all add: report_ok_def stream_ok_def)
  have a: "CHR 0x0A \<notin> set (audio_text r) \<and> \<not> ends_with [CHR 0x0D] (audio_text r)"
    unfolding audio_text_def using assms by (intro stream_text_line) (simp_all add: report_ok_def stream_ok_def)
  have d: "CHR 0x0A \<notin> set (duration_text (rp_time r) (rp_start r) (rp_kbps r)) \<and>
      \<not> ends_with [CHR 0x0D] (duration_text (rp_time r) (rp_start r) (rp_kbps r))"
    using assms by (intro duration_text_line) (simp add: report_ok_def)
  have q: "\<forall>l \<in> set (rp_head r @ rp_middle r @ rp_between r @ rp_tail r). CHR 0x0A \<notin> set l \<and> \<not> ends_with [CHR 0x0D] l"
    using assms by (simp add: report_ok_def list_all_iff line_ok_def)
  show ?thesis unfolding report_text_def by (rule str_lines_concat) (use v a d q in auto)
qed

text \<open>
  C24: a report of ffmpeg in the form of the source's samples is read back: lines with the duration in hundredths of a second and the
  bit rate, with the first video stream (codec, dimensions, frame rate in hundredths), and with the first audio stream. The codecs
  are words of lower case letters, digits and underscores, followed by texts in parentheses or not; the other tokens of the video line are
  neither dimensions nor a rate in fps; other lines have no duration, and name streams only after the first of their kind. The
  codecs and dimensions are returned as they are, the frame rate as the \<open>f64\<close> nearest to it, the bit rate times 1000 (modulo
  \<open>2 ^ 64\<close>). The duration, of less than \<open>2 ^ 20\<close> hours, is the count of milliseconds or one less, since a product of floats is cut
  off; it is exact for whole seconds.
\<close>

theorem ffmpeg_report_read:
  assumes "report_ok r"
  shows "\<exists>ms. parse_ffmpeg_stderr (report_text r) =
      Some \<lparr>mp_duration_ms = of_nat ms, mp_width = of_nat (fst (rp_size r)), mp_height = of_nat (snd (rp_size r)),
        mp_video_codec = sl_codec (rp_video r), mp_audio_codec = sl_codec (rp_audio r), mp_bitrate = of_nat (rp_kbps r) * 1000,
        mp_fps = f64_round (of_nat (rp_rate r) / 100)\<rparr> \<and>
    ms \<le> time_ms (rp_time r) \<and> time_ms (rp_time r) \<le> ms + 1 \<and>
    (snd (snd (snd (rp_time r))) = 0 \<longrightarrow> ms = time_ms (rp_time r))"
proof -
  obtain h m s cs where t: "rp_time r = (h, m, s, cs)" by (cases "rp_time r") auto
  have ok: "h < 2 ^ 20" "m < 60" "s < 60" "cs < 100" "rp_kbps r < 2 ^ 64"
    "list_all (\<lambda>c. is_digit c \<or> c = CHR ''.'' \<or> c = CHR ''-'') (rp_start r)"
    using assms by (simp_all add: report_ok_def t)
  have lines: "list_all line_ok (rp_head r)" "list_all line_ok (rp_middle r)" "list_all line_ok (rp_between r)" "list_all line_ok (rp_tail r)"
    "list_all (no_stream '': Video: '') (rp_head r)" "list_all (no_stream '': Video: '') (rp_middle r)"
    "list_all (no_stream '': Audio: '') (rp_head r)" "list_all (no_stream '': Audio: '') (rp_middle r)" "list_all (no_stream '': Audio: '') (rp_between r)"
    using assms by (simp_all add: report_ok_def)
  have names: "sl_codec (rp_video r) \<noteq> []" "sl_codec (rp_audio r) \<noteq> []" using assms by (simp_all add: report_ok_def stream_ok_def plain_def)
  obtain ms where ms: "hms_to_ms (pad2 h) (pad2 m) (pad2 s @ CHR ''.'' # pad2 cs) = of_nat ms" "ms \<le> time_ms (rp_time r)"
    "time_ms (rp_time r) \<le> ms + 1" "snd (snd (snd (rp_time r))) = 0 \<longrightarrow> ms = time_ms (rp_time r)"
    using hms_near [OF ok(1-4)] by (auto simp: t)
  let ?d = "media_probe_default\<lparr>mp_duration_ms := of_nat ms, mp_bitrate := of_nat (rp_kbps r) * 1000\<rparr>"
  let ?v = "?d\<lparr>mp_video_codec := sl_codec (rp_video r), mp_width := of_nat (fst (rp_size r)), mp_height := of_nat (snd (rp_size r)),
    mp_fps := f64_round (of_nat (rp_rate r) / 100)\<rparr>"
  let ?a = "?v\<lparr>mp_audio_codec := sl_codec (rp_audio r)\<rparr>"
  have head: "fold probe_line (rp_head r) (media_probe_default, False) = (media_probe_default, False)"
    by (rule probe_lines_quiet) (simp_all add: lines)
  have d: "probe_line (duration_text (rp_time r) (rp_start r) (rp_kbps r)) (media_probe_default, False) = (?d, False)"
    unfolding t duration_line_read [OF ok(5,6)] ms(1) ..
  have middle: "fold probe_line (rp_middle r) (?d, False) = (?d, False)" by (rule probe_lines_quiet) (simp_all add: lines)
  have between: "fold probe_line (rp_between r) (?v, True) = (?v, True)" by (rule probe_lines_quiet) (simp_all add: lines)
  have a: "probe_line (audio_text r) (?v, True) = (?a, True)"
    by (rule audio_line_read [OF assms]) (simp add: media_probe_default_def)
  have tail: "fold probe_line (rp_tail r) (?a, True) = (?a, True)" by (rule probe_lines_quiet) (simp_all add: lines names)
  have run: "fold probe_line (str_lines (report_text r)) (media_probe_default, False) = (?a, True)"
    unfolding report_lines [OF assms] fold_append fold_simps comp_def head d middle video_line_read [OF assms] between a tail ..
  have "parse_ffmpeg_stderr (report_text r) =
      Some \<lparr>mp_duration_ms = of_nat ms, mp_width = of_nat (fst (rp_size r)), mp_height = of_nat (snd (rp_size r)),
        mp_video_codec = sl_codec (rp_video r), mp_audio_codec = sl_codec (rp_audio r), mp_bitrate = of_nat (rp_kbps r) * 1000,
        mp_fps = f64_round (of_nat (rp_rate r) / 100)\<rparr>"
    unfolding parse_ffmpeg_stderr_def run Let_def fst_conv by (simp add: names media_probe_default_def)
  then show ?thesis by (intro exI [of _ ms] conjI ms(2-4))
qed

text \<open>The report of the test \<open>test_parse_ffmpeg_stderr_full\<close>.\<close>

definition sample_report :: report where
  "sample_report = \<lparr>rp_head = [], rp_time = (0, 0, 37, 41), rp_start = ''0.000000'', rp_kbps = 2123, rp_middle = [],
     rp_video = \<lparr>sl_label = ''0:0[0x1](und)'', sl_codec = ''h264'', sl_parens = [''High'', ''avc1 / 0x31637661'']\<rparr>,
     rp_pixels = [''yuv420p(tv'', ''bt709'', ''progressive)''], rp_size = (1080, 1920), rp_aspect = None, rp_more = [''1995 kb/s''],
     rp_rate = 1345, rp_rest = [''10 tbr'', ''1000k tbn (default)''], rp_between = [],
     rp_audio = \<lparr>sl_label = ''0:1[0x2](und)'', sl_codec = ''aac'', sl_parens = [''LC'', ''mp4a / 0x6134706D'']\<rparr>,
     rp_sound = [''44100 Hz'', ''stereo'', ''fltp'', ''128 kb/s (default)''], rp_tail = []\<rparr>"

lemma ffmpeg_report_read_witness:
  "\<exists>ms \<in> {37409, 37410}. parse_ffmpeg_stderr
     (''  Duration: 00:00:37.41, start: 0.000000, bitrate: 2123 kb/s'' @ [CHR 0x0A] @
      ''  Stream #0:0[0x1](und): Video: h264 (High) (avc1 / 0x31637661), yuv420p(tv, bt709, progressive), 1080x1920, 1995 kb/s, 13.45 fps, 10 tbr, 1000k tbn (default)'' @ [CHR 0x0A] @
      ''  Stream #0:1[0x2](und): Audio: aac (LC) (mp4a / 0x6134706D), 44100 Hz, stereo, fltp, 128 kb/s (default)'' @ [CHR 0x0A]) =
    Some \<lparr>mp_duration_ms = ms, mp_width = 1080, mp_height = 1920, mp_video_codec = ''h264'', mp_audio_codec = ''aac'',
      mp_bitrate = 2123000, mp_fps = f64_round (1345 / 100)\<rparr>"
proof -
  have ok: "report_ok sample_report"
    by (simp add: report_ok_def sample_report_def stream_ok_def text_ok_def idle_def token_ok_def plain_def plain_char_def is_digit_def
        is_ws_def ends_with_def starts_with_def)
  have n: "show_nat 37 = ''37''" "show_nat 41 = ''41''" "show_nat 0 = ''0''" "show_nat 2123 = ''2123''" "show_nat 1080 = ''1080''"
    "show_nat 1920 = ''1920''" "show_nat 13 = ''13''" "show_nat 45 = ''45''"
    by code_simp+
  have e: "report_text sample_report = 
     ''  Duration: 00:00:37.41, start: 0.000000, bitrate: 2123 kb/s'' @ [CHR 0x0A] @
      ''  Stream #0:0[0x1](und): Video: h264 (High) (avc1 / 0x31637661), yuv420p(tv, bt709, progressive), 1080x1920, 1995 kb/s, 13.45 fps, 10 tbr, 1000k tbn (default)'' @ [CHR 0x0A] @
      ''  Stream #0:1[0x2](und): Audio: aac (LC) (mp4a / 0x6134706D), 44100 Hz, stereo, fltp, 128 kb/s (default)'' @ [CHR 0x0A]"
    by (simp add: report_text_def sample_report_def duration_text_def video_text_def audio_text_def stream_text_def parens_def token_list_def
        size_text_def rate_text_def pad2_def n)
  obtain ms where ms: "parse_ffmpeg_stderr (report_text sample_report) =
      Some \<lparr>mp_duration_ms = of_nat ms, mp_width = 1080, mp_height = 1920, mp_video_codec = ''h264'', mp_audio_codec = ''aac'',
        mp_bitrate = 2123000, mp_fps = f64_round (1345 / 100)\<rparr>" "ms \<le> 37410" "37410 \<le> ms + 1"
    using ffmpeg_report_read [OF ok] by (auto simp: sample_report_def time_ms_def)
  then have "ms = 37409 \<or> ms = 37410" by linarith
  with ms(1) show ?thesis unfolding e by auto
qed

end
