(* ===== verification/Skin.thy ===== *)
theory Skin
  imports App
begin

text \<open>
  The skin of the desktop player (\<open>qvs-gui/src/skin/qvod6.rs\<close> with the colours of \<open>palette.rs\<close>) and the overlays
  (\<open>overlay.rs\<close>): what is drawn, as the list of shapes given to the painter, and what the title bar answers. What
  \<open>egui\<close> reports of the pointer is an argument, as are its rectangles; a painter cuts off what lies outside its rectangle.
\<close>

section \<open>Shapes\<close>

type_synonym color = "u8 \<times> u8 \<times> u8 \<times> u8"

definition rgb :: "u8 \<Rightarrow> u8 \<Rightarrow> u8 \<Rightarrow> color" where "rgb r g b = (r, g, b, 255)"

datatype align = LeftTop | LeftCenter | CenterCenter

datatype shape =
    RectFilled rect f32 color
  | RectStroke rect f32 f32 color
  | LineSegment vec2 vec2 f32 color
  | CircleFilled vec2 f32 color
  | CircleStroke vec2 f32 f32 color
  | Polygon "vec2 list" color
  | ImageAt rect
  | TextAt vec2 align string f32 color

definition col_progress_bg :: color where "col_progress_bg = rgb 0x4A 0x4A 0x6A"
definition col_progress_fill :: color where "col_progress_fill = rgb 0x00 0xBC 0xD4"
definition col_progress_buffered :: color where "col_progress_buffered = rgb 0x3A 0x3A 0x5A"
definition col_control_bar_bg :: color where "col_control_bar_bg = rgb 0x0F 0x0F 0x23"
definition col_title_bar_bg :: color where "col_title_bar_bg = rgb 0x12 0x12 0x2A"
definition col_title_bar_separator :: color where "col_title_bar_separator = rgb 0x2A 0x2A 0x44"
definition col_btn_default :: color where "col_btn_default = rgb 0xE8 0xE8 0xE8"
definition col_btn_hover :: color where "col_btn_hover = rgb 0x4F 0xC3 0xF7"
definition col_volume_slider_bg :: color where "col_volume_slider_bg = rgb 0x4A 0x4A 0x6A"
definition col_volume_slider_fill :: color where "col_volume_slider_fill = rgb 0x00 0xBC 0xD4"
definition col_text_primary :: color where "col_text_primary = rgb 0xE0 0xE0 0xE0"
definition col_text_secondary :: color where "col_text_secondary = rgb 0x90 0x90 0x90"
definition col_error :: color where "col_error = rgb 0xFF 0x52 0x52"
definition col_success :: color where "col_success = rgb 0x69 0xF0 0xAE"
definition col_tab_active_bg :: color where "col_tab_active_bg = rgb 0x2A 0x2A 0x44"
definition col_tab_inactive_bg :: color where "col_tab_inactive_bg = rgb 0x16 0x16 0x28"
definition col_list_entry_hover :: color where "col_list_entry_hover = rgb 0x2A 0x2A 0x44"
definition col_list_entry_selected :: color where "col_list_entry_selected = rgb 0x33 0x33 0x55"
definition col_sidebar_bg :: color where "col_sidebar_bg = rgb 0x1E 0x1E 0x30"
definition col_bg_gradient_top :: color where "col_bg_gradient_top = rgb 0x1A 0x1A 0x2E"
definition col_bg_gradient_bottom :: color where "col_bg_gradient_bottom = rgb 0x16 0x21 0x3E"
definition col_overlay_bg :: color where "col_overlay_bg = (0, 0, 0, 160)"

definition col_white :: color where "col_white = rgb 255 255 255"

text \<open>The style the skin sets on top of the dark one: the fills it replaces and the colour of text.\<close>

record skin_style =
  sk_noninteractive :: color
  sk_inactive :: color
  sk_active :: color
  sk_text :: color
  sk_window :: color
  sk_panel :: color

definition apply_style :: skin_style where
  "apply_style = \<lparr>sk_noninteractive = col_sidebar_bg, sk_inactive = col_list_entry_selected, sk_active = col_tab_active_bg,
     sk_text = col_text_primary, sk_window = col_bg_gradient_top, sk_panel = col_bg_gradient_bottom\<rparr>"

text \<open>Every theme is the same style.\<close>

definition theme_apply :: "qvod_theme \<Rightarrow> skin_style" where
  "theme_apply theme = apply_style"

text \<open>The rectangles of \<open>egui\<close>, further to those of the video panel.\<close>

record drawing = geometry +
  dg_from_min_size :: "vec2 \<Rightarrow> vec2 \<Rightarrow> rect"
  dg_contains :: "rect \<Rightarrow> vec2 \<Rightarrow> bool"
  dg_width :: "rect \<Rightarrow> f32"

abbreviation left_of :: "rect \<Rightarrow> f32" where "left_of r \<equiv> fst (rt_min r)"
abbreviation top_of :: "rect \<Rightarrow> f32" where "top_of r \<equiv> snd (rt_min r)"
abbreviation right_of :: "rect \<Rightarrow> f32" where "right_of r \<equiv> fst (rt_max r)"
abbreviation bottom_of :: "rect \<Rightarrow> f32" where "bottom_of r \<equiv> snd (rt_max r)"

definition at_offset :: "vec2 \<Rightarrow> f32 \<Rightarrow> f32 \<Rightarrow> vec2" where
  "at_offset p dx dy = (f32_add (fst p) dx, f32_add (snd p) dy)"

section \<open>The title bar\<close>

datatype title_bar_action = TbNone | TbMinimize | TbMaximize | TbClose | TbDrag

record title_input =
  ti_close :: bool
  ti_max :: bool
  ti_min :: bool
  ti_hover_close :: bool
  ti_hover_max :: bool
  ti_hover_min :: bool
  ti_pointer :: "vec2 option"
  ti_any_down :: bool

text \<open>A button is 34 by 24, \<open>n\<close> the distance of its left edge from the right end of the bar.\<close>

definition title_button :: "'a drawing_scheme \<Rightarrow> f32 \<Rightarrow> rect \<Rightarrow> rect" where
  "title_button g n r = dg_from_min_size g (f32_sub (right_of r) n, f32_sub (snd (geo_center g r)) 12) (34, 24)"

definition title_bar_shapes :: "'a drawing_scheme \<Rightarrow> title_input \<Rightarrow> rect \<Rightarrow> string \<Rightarrow> shape list" where
  "title_bar_shapes g u r title =
     (let half = 11 / 2; button = (\<lambda>hover. if hover then col_btn_hover else col_btn_default);
          close_rect = title_button g 34 r; max_rect = title_button g 68 r; min_rect = title_button g 102 r;
          c = geo_center g close_rect; m = geo_center g max_rect; n = geo_center g min_rect;
          close_color = (if ti_hover_close u then col_white else col_btn_default)
      in [RectFilled r 0 col_title_bar_bg,
          LineSegment (left_of r, bottom_of r) (right_of r, bottom_of r) 1 col_title_bar_separator,
          ImageAt (geo_from_center_size g (f32_add (left_of r) 12, snd (geo_center g r)) (16, 16)),
          TextAt (f32_add (left_of r) 24, snd (geo_center g r)) LeftCenter title 13 col_text_primary] @
         (if ti_hover_close u then [RectFilled close_rect 0 (0xE8, 0x11, 0x23, 200)] else []) @
         [LineSegment (at_offset c (- half) (- half)) (at_offset c half half) (3 / 2) close_color,
          LineSegment (at_offset c half (- half)) (at_offset c (- half) half) (3 / 2) close_color] @
         (if ti_hover_max u then [RectFilled max_rect 0 (255, 255, 255, 20)] else []) @
         [RectStroke (geo_from_center_size g m (11, 11)) 1 (3 / 2) (button (ti_hover_max u))] @
         (if ti_hover_min u then [RectFilled min_rect 0 (255, 255, 255, 20)] else []) @
         [LineSegment (at_offset n (- 13 / 2) 0) (at_offset n (13 / 2) 0) (3 / 2) (button (ti_hover_min u))])"

text \<open>A pointer that is nowhere counts as one at \<open>(- 1, - 1)\<close>.\<close>

definition title_bar_answer :: "'a drawing_scheme \<Rightarrow> title_input \<Rightarrow> rect \<Rightarrow> title_bar_action" where
  "title_bar_answer g u r =
     (if ti_close u then TbClose
      else if ti_max u then TbMaximize
      else if ti_min u then TbMinimize
      else if dg_contains g r (case ti_pointer u of Some p \<Rightarrow> p | None \<Rightarrow> (- 1, - 1)) \<and> ti_any_down u then TbDrag
      else TbNone)"

text \<open>
  The commands a frame gives to the window: the resize at an edge of the screen, within 8 points, when the primary button was
  clicked, and what the title bar asks for.
\<close>

datatype viewport_command = VcClose | VcMaximized bool | VcMinimized bool | VcStartDrag | VcBeginResize resize_direction

fun title_command :: "title_bar_action \<Rightarrow> viewport_command list" where
  "title_command TbClose = [VcClose]"
| "title_command TbMaximize = [VcMaximized True]"
| "title_command TbMinimize = [VcMinimized True]"
| "title_command TbDrag = [VcStartDrag]"
| "title_command TbNone = []"

definition edge_resize :: "rect \<Rightarrow> vec2 option \<Rightarrow> bool \<Rightarrow> viewport_command list" where
  "edge_resize screen hover_pos primary_clicked =
     (case hover_pos of
        None \<Rightarrow> []
      | Some (x, y) \<Rightarrow>
          (case resize_dir (x \<le> f32_add (left_of screen) 8) (f32_sub (right_of screen) 8 \<le> x)
             (y \<le> f32_add (top_of screen) 8) (f32_sub (bottom_of screen) 8 \<le> y) of
             Some dir \<Rightarrow> if primary_clicked then [VcBeginResize dir] else []
           | None \<Rightarrow> []))"

definition window_commands :: "'a drawing_scheme \<Rightarrow> title_input \<Rightarrow> rect \<Rightarrow> rect \<Rightarrow> bool \<Rightarrow> viewport_command list" where
  "window_commands g u screen bar primary_clicked =
     edge_resize screen (ti_pointer u) primary_clicked @ title_command (title_bar_answer g u bar)"

section \<open>Buttons\<close>

definition play_button_shapes :: "'a drawing_scheme \<Rightarrow> bool \<Rightarrow> bool \<Rightarrow> rect \<Rightarrow> shape list" where
  "play_button_shapes g hovered playing r =
     (let c = geo_center g r; cx = fst c; cy = snd c; bar_w = 3; bar_h = 9
      in CircleFilled c 16 (if hovered then col_btn_hover else col_btn_default) #
         (if playing then
            [RectFilled (geo_from_center_size g (f32_sub (f32_sub cx (5 / 4)) (3 / 2), cy) (bar_w, bar_h)) 1 col_control_bar_bg,
             RectFilled (geo_from_center_size g (f32_add (f32_add cx (5 / 4)) (3 / 2), cy) (bar_w, bar_h)) 1 col_control_bar_bg]
          else
            [Polygon [at_offset c (- 7 / 2) (- 11 / 2), at_offset c (- 7 / 2) (11 / 2), at_offset c (11 / 2) 0] col_control_bar_bg]))"

definition stop_button_shapes :: "'a drawing_scheme \<Rightarrow> bool \<Rightarrow> rect \<Rightarrow> shape list" where
  "stop_button_shapes g hovered r =
     [RectFilled (geo_from_center_size g (geo_center g r) (8, 8)) (3 / 2) (if hovered then col_btn_hover else col_btn_default)]"

definition fullscreen_button_shapes :: "'a drawing_scheme \<Rightarrow> bool \<Rightarrow> rect \<Rightarrow> shape list" where
  "fullscreen_button_shapes g hovered r =
     (let c = (if hovered then col_btn_hover else col_btn_default); s = geo_from_center_size g (geo_center g r) (9, 9); p = rt_min s
      in [RectStroke s 0 (3 / 2) c,
          LineSegment (at_offset p (- 2) 0) (at_offset p (- 2) (- 2)) (3 / 2) c,
          LineSegment (at_offset p 0 (- 2)) (at_offset p (- 2) (- 2)) (3 / 2) c])"

section \<open>Times, progress and volume\<close>

definition clock_text :: "u64 \<Rightarrow> string" where
  "clock_text ms = pad2 (unat (ms div 60000)) @ '':'' @ pad2 (unat (ms div 1000 mod 60))"

definition time_display :: "u64 \<Rightarrow> u64 \<Rightarrow> string" where
  "time_display position_ms duration_ms = clock_text position_ms @ '' / '' @ clock_text duration_ms"

definition progress_bar_shapes :: "'a drawing_scheme \<Rightarrow> f32 \<Rightarrow> f32 \<Rightarrow> rect \<Rightarrow> shape list" where
  "progress_bar_shapes g share buffered r =
     (let part = (\<lambda>x. dg_from_min_size g (rt_min r) (f32_mul (dg_width g r) (min x 1), 8))
      in [RectFilled r 4 col_progress_bg] @
         (if 0 < buffered then [RectFilled (part buffered) 4 col_progress_buffered] else []) @
         [RectFilled (part share) 4 col_progress_fill,
          CircleFilled (f32_add (left_of r) (f32_mul (dg_width g r) share), snd (geo_center g r)) 5 col_btn_hover])"

definition f32_to_u8 :: "f32 \<Rightarrow> u8" where
  "f32_to_u8 x = of_int (min (max \<lfloor>x\<rfloor> 0) 255)"

definition u8_sat_sub :: "u8 \<Rightarrow> u8 \<Rightarrow> u8" where
  "u8_sat_sub x y = (if x < y then 0 else x - y)"

definition speaker_shapes :: "'a drawing_scheme \<Rightarrow> f32 \<Rightarrow> bool \<Rightarrow> rect \<Rightarrow> shape list" where
  "speaker_shapes g volume muted r =
     (let p = geo_center g r; c = (if muted then col_text_secondary else col_btn_hover);
          alpha_base = f32_to_u8 (f32_add 40 (f32_mul volume 180)); (red, green, blue, _) = c
      in [RectFilled (geo_from_center_size g (f32_sub (fst p) 3, snd p) (4, 7)) 1 c,
          Polygon [at_offset p (- 1) (- 7 / 2), at_offset p (- 1) (7 / 2), at_offset p 4 0] c] @
         (if \<not> muted \<and> 0 < volume then
            map (\<lambda>i. CircleStroke (f32_add (fst p) 4, snd p) (f32_add 5 (f32_mul (of_nat i) (5 / 2))) (f32_round (6 / 5))
              (red, green, blue, u8_sat_sub alpha_base (of_nat i * 60))) [0..<3]
          else []))"

definition slider_shapes :: "'a drawing_scheme \<Rightarrow> f32 \<Rightarrow> bool \<Rightarrow> rect \<Rightarrow> shape list" where
  "slider_shapes g volume muted r =
     (let effective = (if muted then 0 else volume);
          thumb = (f32_add (left_of r) (f32_mul (dg_width g r) effective), snd (geo_center g r))
      in [RectFilled r 3 col_volume_slider_bg] @
         (if 0 < effective then
            [RectFilled (dg_from_min_size g (rt_min r) (f32_mul (dg_width g r) effective, 6)) 3 col_volume_slider_fill]
          else []) @
         [CircleFilled thumb 5 col_btn_hover,
          CircleStroke thumb 5 (3 / 2) (if muted then col_text_secondary else col_btn_hover)])"

section \<open>The task list\<close>

definition tab_bar_texts :: "string list \<Rightarrow> nat \<Rightarrow> (string \<times> color) list" where
  "tab_bar_texts tabs active =
     map (\<lambda>(i, tab). (tab, if i = active then col_tab_active_bg else col_tab_inactive_bg)) (List.enumerate 0 tabs)"

text \<open>The format \<open>{:.0}\<close> of a non-negative number.\<close>

definition fixed0 :: "f64 \<Rightarrow> string" where
  "fixed0 x = show_nat (nat (round_even x))"

fun status_icon :: "task_status \<Rightarrow> string \<times> color" where
  "status_icon TsDownloading = (utf8_text [0xE2, 0x96, 0xB6], col_btn_hover)"
| "status_icon TsPaused = (utf8_text [0xE2, 0x8F, 0xB8], col_btn_hover)"
| "status_icon TsCompleted = (utf8_text [0xE2, 0x9C, 0x93], col_success)"
| "status_icon (TsError e) = (utf8_text [0xE2, 0x9A, 0xA0], col_error)"

definition entry_info :: "task_entry \<Rightarrow> string" where
  "entry_info entry =
     (let mb = (\<lambda>n. fixed1 (f64_div (f64_of_nat (unat n)) 1048576))
      in case te_status entry of
           TsDownloading \<Rightarrow> mb (te_downloaded entry) @ ''/'' @ mb (te_total entry) @ ''MB '' @ (utf8_text [0xE2, 0x86, 0x93]) @
             fixed0 (f64_div (te_speed_down entry) 1024) @ ''KB/s''
         | TsCompleted \<Rightarrow> utf8_text [0xE5, 0xB7, 0xB2, 0xE4, 0xB8, 0x8B, 0xE8, 0xBD, 0xBD, 0x20, 0x20, 0xE2, 0x9C, 0x93]
         | TsPaused \<Rightarrow> utf8_text [0xE5, 0xB7, 0xB2, 0xE6, 0x9A, 0x82, 0xE5, 0x81, 0x9C]
         | TsError e \<Rightarrow> (utf8_text [0xE9, 0x94, 0x99, 0xE8, 0xAF, 0xAF, 0x3A, 0x20]) @ e)"

definition task_entry_shapes :: "'a drawing_scheme \<Rightarrow> bool \<Rightarrow> vec2 option \<Rightarrow> rect \<Rightarrow> task_entry \<Rightarrow> shape list" where
  "task_entry_shapes g selected pointer r entry =
     (let bg = (if selected then col_list_entry_selected
                else if dg_contains g r (case pointer of Some p \<Rightarrow> p | None \<Rightarrow> (- 1, - 1)) then col_list_entry_hover
                else (0, 0, 0, 0));
          bar = dg_from_min_size g (f32_add (left_of r) 8, f32_sub (bottom_of r) 8) (f32_sub (dg_width g r) 16, 4)
      in [RectFilled r 0 bg,
          TextAt (at_offset (rt_min r) 8 10) LeftTop (fst (status_icon (te_status entry))) 14 (snd (status_icon (te_status entry))),
          TextAt (at_offset (rt_min r) 28 8) LeftTop (te_title entry) 12 col_text_primary,
          TextAt (at_offset (rt_min r) 28 26) LeftTop (entry_info entry) 10 col_text_secondary,
          RectFilled bar 2 col_progress_bg] @
         (if 0 < te_progress entry then
            [RectFilled (dg_from_min_size g (rt_min bar) (f32_mul (dg_width g bar) (f32_of_f64 (te_progress entry)), 4)) 2 col_progress_fill]
          else []))"

fun menu_label :: "context_menu_action \<Rightarrow> string" where
  "menu_label CmPlay = utf8_text [0xE6, 0x92, 0xAD, 0xE6, 0x94, 0xBE]"
| "menu_label CmPause = utf8_text [0xE6, 0x9A, 0x82, 0xE5, 0x81, 0x9C]"
| "menu_label CmStop = utf8_text [0xE5, 0x81, 0x9C, 0xE6, 0xAD, 0xA2]"
| "menu_label CmRestart = utf8_text [0xE9, 0x87, 0x8D, 0xE6, 0x96, 0xB0, 0xE5, 0xBC, 0x80, 0xE5, 0xA7, 0x8B]"
| "menu_label CmRemove = utf8_text [0xE5, 0x88, 0xA0, 0xE9, 0x99, 0xA4]"
| "menu_label CmProperties = utf8_text [0xE5, 0xB1, 0x9E, 0xE6, 0x80, 0xA7]"
| "menu_label CmToggleFullscreen = utf8_text [0xE5, 0x85, 0xA8, 0xE5, 0xB1, 0x8F]"
| "menu_label CmAspectRatio4x3 = utf8_text [0xE7, 0x94, 0xBB, 0xE9, 0x9D, 0xA2, 0xE6, 0xAF, 0x94, 0xE4, 0xBE, 0x8B, 0x20, 0x34, 0x3A, 0x33]"
| "menu_label CmAspectRatio16x9 = utf8_text [0xE7, 0x94, 0xBB, 0xE9, 0x9D, 0xA2, 0xE6, 0xAF, 0x94, 0xE4, 0xBE, 0x8B, 0x20, 0x31, 0x36, 0x3A, 0x39]"
| "menu_label CmAspectRatioOriginal = utf8_text [0xE7, 0x94, 0xBB, 0xE9, 0x9D, 0xA2, 0xE6, 0xAF, 0x94, 0xE4, 0xBE, 0x8B, 0x20, 0xE5, 0x8E, 0x9F, 0xE5, 0xA7, 0x8B]"
| "menu_label CmOpenSettings = utf8_text [0xE8, 0xAE, 0xBE, 0xE7, 0xBD, 0xAE]"
| "menu_label CmAbout = utf8_text [0xE5, 0x85, 0xB3, 0xE4, 0xBA, 0x8E]"
| "menu_label CmPriorityHigh = utf8_text [0xE4, 0xBC, 0x98, 0xE5, 0x85, 0x88, 0xE4, 0xB8, 0x8B, 0xE8, 0xBD, 0xBD, 0x20, 0x2D, 0x20, 0xE9, 0xAB, 0x98]"
| "menu_label CmPriorityNormal = utf8_text [0xE4, 0xBC, 0x98, 0xE5, 0x85, 0x88, 0xE4, 0xB8, 0x8B, 0xE8, 0xBD, 0xBD, 0x20, 0x2D, 0x20, 0xE6, 0x99, 0xAE, 0xE9, 0x80, 0x9A]"
| "menu_label CmPriorityLow = utf8_text [0xE4, 0xBC, 0x98, 0xE5, 0x85, 0x88, 0xE4, 0xB8, 0x8B, 0xE8, 0xBD, 0xBD, 0x20, 0x2D, 0x20, 0xE4, 0xBD, 0x8E]"

text \<open>Of the items clicked in a frame the last one counts.\<close>

definition context_menu_choice :: "(context_menu_action \<times> bool) list \<Rightarrow> context_menu_action option" where
  "context_menu_choice items = fold (\<lambda>(action, clicked) res. if clicked then Some action else res) items None"

section \<open>Overlays\<close>

text \<open>The sine and cosine of \<open>f32\<close> are those of the platform.\<close>

definition tau :: f64 where
  "tau = f64_round (628318530717958647692528676655900577 / 10 ^ 35)"

text \<open>The remainder, of a dividend that is not negative, is exact.\<close>

definition f64_rem :: "f64 \<Rightarrow> f64 \<Rightarrow> f64" where
  "f64_rem x y = x - of_int \<lfloor>x / y\<rfloor> * y"

definition spinner_segment :: "(f32 \<Rightarrow> f32) \<Rightarrow> (f32 \<Rightarrow> f32) \<Rightarrow> vec2 \<Rightarrow> f64 \<Rightarrow> nat \<Rightarrow> shape" where
  "spinner_segment cs sn c offset i =
     (let a = f32_of_f64 (f64_add offset (f64_div (f64_mul (of_nat i) tau) 8)); alpha = f32_div (of_nat (8 - i)) 8;
          place = (\<lambda>r. (f32_add (fst c) (f32_mul r (cs a)), f32_add (snd c) (f32_mul r (sn a))))
      in LineSegment (place 20) (place 26) 3 (0x4F, 0xC3, 0xF7, f32_to_u8 (f32_mul alpha 200)))"

definition buffering_overlay :: "'a drawing_scheme \<Rightarrow> (f32 \<Rightarrow> f32) \<Rightarrow> (f32 \<Rightarrow> f32) \<Rightarrow> rect \<Rightarrow> f64 \<Rightarrow> shape list" where
  "buffering_overlay g cs sn r time =
     (let c = geo_center g r
      in RectFilled r 0 col_overlay_bg #
         map (spinner_segment cs sn c (f64_rem (f64_mul time 3) tau)) [0..<8] @
         [TextAt (fst c, f32_add (snd c) 35) CenterCenter (utf8_text [0xE7, 0xBC, 0x93, 0xE5, 0x86, 0xB2, 0xE4, 0xB8, 0xAD, 0x2E, 0x2E, 0x2E]) 14 col_text_primary])"

definition error_overlay :: "'a drawing_scheme \<Rightarrow> rect \<Rightarrow> string \<Rightarrow> shape list" where
  "error_overlay g r msg =
     [RectFilled r 0 (0, 0, 0, 180), TextAt (geo_center g r) CenterCenter ((utf8_text [0xE2, 0x9A, 0xA0, 0x20]) @ msg) 18 col_error]"

definition info_overlay :: "rect \<Rightarrow> string \<Rightarrow> shape list" where
  "info_overlay r info = [TextAt (at_offset (rt_min r) 8 8) LeftTop info 12 col_text_secondary]"

definition overlay_draw :: "'a drawing_scheme \<Rightarrow> (f32 \<Rightarrow> f32) \<Rightarrow> (f32 \<Rightarrow> f32) \<Rightarrow> player_state \<Rightarrow> rect \<Rightarrow> f64 \<Rightarrow> shape list" where
  "overlay_draw g cs sn st video_area time =
     (case st of
        PsBuffering \<Rightarrow> buffering_overlay g cs sn video_area time
      | PsError msg \<Rightarrow> error_overlay g video_area msg
      | PsPaused \<Rightarrow> info_overlay video_area (utf8_text [0xE2, 0x8F, 0xB8, 0x20, 0xE5, 0xB7, 0xB2, 0xE6, 0x9A, 0x82, 0xE5, 0x81, 0x9C])
      | _ \<Rightarrow> [])"

section \<open>What is inside what\<close>

text \<open>
  With corners on whole pixels and the rectangles of \<open>egui\<close> as documented, everything the progress bar draws lies between
  its ends, and the knob moves to the right with the position.
\<close>

definition pixel_rect :: "'a drawing_scheme \<Rightarrow> rect \<Rightarrow> bool" where
  "pixel_rect g r \<longleftrightarrow> (\<exists>a b :: int. left_of r = of_int a \<and> right_of r = of_int b \<and> a \<le> b \<and> \<bar>a\<bar> \<le> 2 ^ 20 \<and> \<bar>b\<bar> \<le> 2 ^ 20) \<and>
     dg_width g r = f32_sub (right_of r) (left_of r)"

lemma share_of_width:
  assumes "pixel_rect g r" and "0 \<le> x" and "x \<le> 1"
  shows "left_of r \<le> f32_add (left_of r) (f32_mul (dg_width g r) x)" and "f32_add (left_of r) (f32_mul (dg_width g r) x) \<le> right_of r"
proof -
  obtain a b :: int where ab: "left_of r = of_int a" "right_of r = of_int b" "a \<le> b" "\<bar>a\<bar> \<le> 2 ^ 20" "\<bar>b\<bar> \<le> 2 ^ 20"
    and w: "dg_width g r = f32_sub (right_of r) (left_of r)" using assms(1) by (auto simp: pixel_rect_def)
  have width: "dg_width g r = of_int (b - a)" using f32_round_int [of "b - a"] ab by (simp add: w f32_sub_def)
  have "0 \<le> of_int (b - a) * x" "of_int (b - a) * x \<le> of_int (b - a)"
    using assms(2,3) ab(3) mult_left_le [of x "of_int (b - a)"] by simp_all
  then have m: "0 \<le> f32_mul (dg_width g r) x" "f32_mul (dg_width g r) x \<le> of_int (b - a)"
    using f32_round_mono f32_round_int [of "b - a"] ab f32_round_nonneg unfolding width f32_mul_def by (auto simp: abs_le_iff) force
  then have "of_int a \<le> of_int a + f32_mul (dg_width g r) x" "of_int a + f32_mul (dg_width g r) x \<le> of_int b" by simp_all
  note le = this [THEN f32_round_mono]
  have "f32_round (of_int a) = of_int a" "f32_round (of_int b) = of_int b" using ab by (simp_all add: f32_round_int)
  with le show "left_of r \<le> f32_add (left_of r) (f32_mul (dg_width g r) x)" "f32_add (left_of r) (f32_mul (dg_width g r) x) \<le> right_of r"
    by (simp_all add: f32_add_def ab(1,2))
qed

lemma knob_inside:
  assumes "pixel_rect g r" and "controls_ok c" and "CircleFilled p w col \<in> set (progress_bar_shapes g (progress c) buffered r)"
  shows "left_of r \<le> fst p \<and> fst p \<le> right_of r"
proof -
  have "0 \<le> progress c \<and> progress c \<le> 1"
    using assms(2) f32_ratio_bounds [of "unat (pc_position_ms c)" "unat (pc_duration_ms c)"]
    by (auto simp: progress_def controls_ok_def word_le_nat_alt unat_gt_0)
  moreover have "fst p = f32_add (left_of r) (f32_mul (dg_width g r) (progress c))"
    using assms(3) by (auto simp: progress_bar_shapes_def Let_def split: if_splits)
  ultimately show ?thesis using share_of_width [OF assms(1)] by simp
qed

text \<open>
  In the frame in which a button of the title bar is pressed, which is before it counts as clicked, the bar reports a drag of
  the window; the click comes when the button is let go.
\<close>

lemma press_is_drag:
  assumes "\<not> ti_close u" "\<not> ti_max u" "\<not> ti_min u" and "ti_pointer u = Some p" and "dg_contains g r p" and "ti_any_down u"
  shows "title_bar_answer g u r = TbDrag"
  using assms by (simp add: title_bar_answer_def)

text \<open>A window that is maximised is never restored: every command of a frame that concerns its size makes it large again.\<close>

lemma never_restored: "VcMaximized b \<in> set (window_commands g u screen bar clicked) \<Longrightarrow> b"
  by (cases "title_bar_answer g u bar") (auto simp: window_commands_def edge_resize_def split: option.splits if_splits)

text \<open>Every item of the context menu has a name of its own.\<close>

lemma menu_label_inj: "menu_label a = menu_label b \<Longrightarrow> a = b"
  by (cases a; cases b) (simp_all add: utf8_text_def)

end
