(* ===== verification/Startup.thy ===== *)
theory Startup
  imports Skin Media_Sync
begin

text \<open>
  The start of the desktop player: the command line (\<open>qvs-gui/src/main.rs\<close>) and the search for a font with Chinese
  glyphs (\<open>fonts.rs\<close>); and the rows of the status page (\<open>status.rs\<close>). The file system is an argument.
\<close>

section \<open>The command line\<close>

datatype cli_command = CliPlay string | CliStatus | CliList | CliCache bool "u64 option" | CliSettings

text \<open>The program prints a line and ends, or it runs the player with an address to play and the address of a server.\<close>

datatype started = Printed string | RunsPlayer "string option" "string option"

definition main_program :: "string option \<Rightarrow> string option \<Rightarrow> cli_command option \<Rightarrow> started" where
  "main_program server_url env_server_url command =
     (let url = (case server_url of Some s \<Rightarrow> Some s | None \<Rightarrow> env_server_url)
      in case command of
           Some (CliPlay uri) \<Rightarrow> RunsPlayer (Some uri) url
         | Some CliStatus \<Rightarrow> Printed ''Status: not yet implemented''
         | Some CliList \<Rightarrow> Printed ''Playlist: not yet implemented''
         | Some (CliCache clean size_limit) \<Rightarrow> Printed ''Cache: not yet implemented''
         | Some CliSettings \<Rightarrow> RunsPlayer None url
         | None \<Rightarrow> RunsPlayer None url)"

text \<open>The command to open the settings is the one to open nothing.\<close>

lemma settings_command_ignored: "main_program server_url env (Some CliSettings) = main_program server_url env None"
  by (simp add: main_program_def Let_def)

section \<open>Fonts\<close>

datatype platform = Windows | MacOs | Linux | OtherPlatform

definition font_candidates :: "platform \<Rightarrow> string list" where
  "font_candidates p =
     (case p of
        Windows \<Rightarrow> [''C:'' @ [CHR 0x5C] @ ''Windows'' @ [CHR 0x5C] @ ''Fonts'' @ [CHR 0x5C] @ ''msyh.ttc'',
      ''C:'' @ [CHR 0x5C] @ ''Windows'' @ [CHR 0x5C] @ ''Fonts'' @ [CHR 0x5C] @ ''msyhbd.ttc'',
      ''C:'' @ [CHR 0x5C] @ ''Windows'' @ [CHR 0x5C] @ ''Fonts'' @ [CHR 0x5C] @ ''msyhl.ttc'',
      ''C:'' @ [CHR 0x5C] @ ''Windows'' @ [CHR 0x5C] @ ''Fonts'' @ [CHR 0x5C] @ ''simsun.ttc'']
    | MacOs \<Rightarrow> [''/System/Library/Fonts/PingFang.ttc'',
      ''/System/Library/Fonts/STHeiti Light.ttc'',
      ''/System/Library/Fonts/Apple LiGothic.ttf'',
      ''/Library/Fonts/Arial Unicode.ttf'']
    | Linux \<Rightarrow> [''/usr/share/fonts/noto-cjk/NotoSansCJK-Regular.ttc'',
      ''/usr/share/fonts/opentype/noto/NotoSansCJK-Regular.ttc'',
      ''/usr/share/fonts/truetype/noto/NotoSansCJK-Regular.ttc'',
      ''/usr/share/fonts/google-noto-cjk/NotoSansCJK-Regular.ttc'',
      ''/usr/share/fonts/google-noto/NotoSansCJK-Regular.ttc'',
      ''/usr/share/fonts/noto/NotoSansCJK-Regular.ttc'',
      ''/usr/share/fonts/truetype/wqy/wqy-microhei.ttc'',
      ''/usr/share/fonts/truetype/wqy/wqy-zenhei.ttc'',
      ''/usr/share/fonts/wqy-microhei/wqy-microhei.ttc'',
      ''/usr/share/fonts/truetype/droid/DroidSansFallbackFull.ttf'',
      ''/usr/share/fonts/opentype/source-han-sans/SourceHanSansSC-Regular.otf'',
      ''/usr/share/fonts/truetype/source-han-sans/SourceHanSansSC-Regular.otf'']
    | OtherPlatform \<Rightarrow> [])"

text \<open>What there is at a path: nothing, a file that cannot be read, a file.\<close>

datatype font_file = Missing | Unreadable | FontData bytes

fun first_readable :: "(string \<Rightarrow> font_file) \<Rightarrow> string list \<Rightarrow> bytes option" where
  "first_readable fs [] = None"
| "first_readable fs (path # paths) = (case fs path of FontData data \<Rightarrow> Some data | _ \<Rightarrow> first_readable fs paths)"

text \<open>Names in lower case, of ASCII; the extension is the one of the path.\<close>

definition is_cjk_font :: "string \<Rightarrow> bool" where
  "is_cjk_font file_name =
     (let name = map ascii_lower file_name; has = (\<lambda>p. contains p name);
          ext = map_option (map ascii_lower) (path_extension file_name)
      in has ''noto'' \<and> has ''cjk'' \<and> has ''regular'' \<or> has ''wqy'' \<or> has ''wenquanyi'' \<or> has ''droid'' \<and> has ''fallback'' \<or>
         has ''sourcehan'' \<or> has ''noto'' \<and> (has ''sc'' \<or> has ''cn'') \<and> (ext = Some ''ttf'' \<or> ext = Some ''otf''))"

text \<open>A directory that can be read gives its entries: the name, and whether it is a file.\<close>

definition scan_directory :: "(string \<Rightarrow> font_file) \<Rightarrow> (string \<Rightarrow> (string \<times> bool) list option) \<Rightarrow> string \<Rightarrow> bytes option" where
  "scan_directory fs dirs dir =
     (case dirs dir of
        None \<Rightarrow> None
      | Some entries \<Rightarrow>
          first_readable fs (map (\<lambda>e. dir @ ''/'' @ fst e) (filter (\<lambda>e. snd e \<and> is_cjk_font (fst e)) entries)))"

definition or_else :: "'a option \<Rightarrow> 'a option \<Rightarrow> 'a option" where
  "or_else x y = (case x of Some a \<Rightarrow> Some a | None \<Rightarrow> y)"

definition load_system_cjk_font :: "platform \<Rightarrow> (string \<Rightarrow> font_file) \<Rightarrow> (string \<Rightarrow> (string \<times> bool) list option) \<Rightarrow> bytes option" where
  "load_system_cjk_font p fs dirs =
     or_else (first_readable fs (font_candidates p))
       (if p = Linux then or_else (scan_directory fs dirs ''/usr/share/fonts'') (scan_directory fs dirs ''/usr/local/share/fonts'') else None)"

datatype font_family = Proportional | Monospace

record font_definitions =
  fd_data :: "string \<Rightarrow> bytes option"
  fd_families :: "font_family \<Rightarrow> string list option"

text \<open>The font becomes the last choice of both families; without one, the fonts stay as they are.\<close>

definition setup_cjk_fonts :: "bytes option \<Rightarrow> font_definitions \<Rightarrow> font_definitions option" where
  "setup_cjk_fonts font defaults =
     map_option (\<lambda>data. defaults\<lparr>fd_data := (fd_data defaults)(''cjk'' \<mapsto> data),
       fd_families := (\<lambda>f. map_option (\<lambda>names. names @ [''cjk'']) (fd_families defaults f))\<rparr>) font"

text \<open>The font found is a readable file of the list or of one of the two directories themselves.\<close>

lemma first_readable_Some: "first_readable fs paths = Some data \<Longrightarrow> \<exists>path \<in> set paths. fs path = FontData data"
  by (induction paths) (auto split: font_file.splits)

lemma first_readable_None: "first_readable fs paths = None \<longleftrightarrow> (\<forall>path \<in> set paths. \<forall>data. fs path \<noteq> FontData data)"
  by (induction paths) (auto split: font_file.splits)

text \<open>The scan of the directories does not descend: a font in a directory below them, where most systems have it, is not found.\<close>

lemma scan_not_recursive:
  assumes "dirs d = Some entries" and "\<forall>e \<in> set entries. \<not> snd e"
  shows "scan_directory fs dirs d = None"
proof -
  have "filter (\<lambda>e. snd e \<and> is_cjk_font (fst e)) entries = []" using assms(2) by (simp add: filter_empty_conv)
  then show ?thesis by (simp add: scan_directory_def assms(1))
qed

section \<open>The status page\<close>

text \<open>A row: its label, its text, and the colour of the text where it has one.\<close>

definition col_green :: color where "col_green = rgb 0 255 0"
definition col_red :: color where "col_red = rgb 255 0 0"

definition status_rows :: "network_status \<Rightarrow> (string \<times> string \<times> color option) list" where
  "status_rows n =
     (let speed = (\<lambda>limit x. (fixed1 (f64_div x 1024) @ '' KB/s'', Some (if limit < x then col_green else col_white)));
          percent = (\<lambda>x. (fixed1 (f64_mul x 100) @ CHR 0x25 # [], None))
      in [case ns_server_url n of
            Some url \<Rightarrow> (''Server Mode:'', url @ '' '' @ (if ns_server_connected n then utf8_text [0xE2, 0x9C, 0x93] else utf8_text [0xE2, 0x9C, 0x97]),
              Some (if ns_server_connected n then col_green else col_red))
          | None \<Rightarrow> (''Mode:'', ''Local Engine'', None),
          (''Download Speed:'', speed 1000000 (ns_download_speed n)),
          (''Upload Speed:'', speed 100000 (ns_upload_speed n)),
          (''Connected Peers:'', show_nat (ns_connected_peers n), None),
          (''Buffer:'', percent (ns_buffer_progress n)),
          (''Download Progress:'', percent (ns_download_progress n)),
          (''DHT Table Size:'', show_nat (ns_dht_table_size n), None),
          (''Active Connections:'', show_nat (length (ns_active_connections n)), None)])"

end
