(* ===== verification/Programs.thy ===== *)
theory Programs
  imports Local_Server
begin

text \<open>
  The programs without a window: the command line client (\<open>client/src/main.rs\<close>), which prints lines and ends, and
  the headless server (\<open>server/src/main.rs\<close>), which runs until it is interrupted. Parsing of the command line is that of
  \<open>clap\<close>; the log is left out.
\<close>

section \<open>The command line client\<close>

datatype client_command = ClPlay string | ClStatus | ClList | ClCache bool "u64 option"

datatype printed = Out string | ErrOut string

text \<open>A call that panics ends the program before it prints.\<close>

definition cmd_play :: "(bytes \<Rightarrow> bytes) \<Rightarrow> surroundings \<Rightarrow> bool \<Rightarrow> files \<Rightarrow> string \<Rightarrow> printed list option" where
  "cmd_play sha1 su dht_ok fs uri =
     (case snd (engine_play sha1 su uri (engine_new engine_config_default dht_ok fs)) of
        Ok stream \<Rightarrow> Some [Out (''Playing: '' @ uri), Out (''File: '' @ fm_filename (cm_metadata stream)),
          Out (''Duration: '' @ show_u64 (fm_duration_ms (cm_metadata stream)) @ '' ms'')]
      | Err e \<Rightarrow> Some [ErrOut (''Error: '' @ show_error e)]
      | Panic \<Rightarrow> None)"

definition cmd_cache :: "bool \<Rightarrow> u64 option \<Rightarrow> printed list" where
  "cmd_cache clean size_mb =
     (if clean then [Out ''Cache cleaned.''] else []) @
     (case size_mb of Some s \<Rightarrow> [Out (''Cache size limit: '' @ show_u64 s @ '' MB'')] | None \<Rightarrow> []) @
     [Out ''Cache: not yet implemented'']"

fun client_main :: "(bytes \<Rightarrow> bytes) \<Rightarrow> surroundings \<Rightarrow> bool \<Rightarrow> files \<Rightarrow> client_command \<Rightarrow> printed list option" where
  "client_main sha1 su dht_ok fs (ClPlay uri) = cmd_play sha1 su dht_ok fs uri"
| "client_main sha1 su dht_ok fs ClStatus = Some [Out ''QVOD Engine: running'']"
| "client_main sha1 su dht_ok fs ClList = Some [Out ''No active streams.'']"
| "client_main sha1 su dht_ok fs (ClCache clean size_mb) = Some (cmd_cache clean size_mb)"

section \<open>The headless server\<close>

record server_cli =
  sc_config :: string
  sc_port :: u16
  sc_bind :: ip_addr
  sc_dht :: bool

definition server_cli_default :: server_cli where
  "server_cli_default = \<lparr>sc_config = [], sc_port = 8621, sc_bind = V4 [127, 0, 0, 1], sc_dht = False\<rparr>"

text \<open>A configuration that cannot be loaded counts as the default one.\<close>

definition server_engine_config :: "server_cli \<Rightarrow> engine_config" where
  "server_engine_config cli =
     (let c = (if sc_config cli = [] then engine_config_default
               else (case engine_config_load (sc_config cli) of Ok c \<Rightarrow> c | _ \<Rightarrow> engine_config_default));
          c1 = c\<lparr>ec_listen_port := sc_port cli\<rparr>
      in if sc_dht cli then c1\<lparr>ec_dht_enabled := True\<rparr> else c1)"

text \<open>The server runs and waits for an interrupt. A server that cannot be started panics.\<close>

record server_program =
  sp_server :: local_server
  sp_running :: bool

definition server_start :: "(ip_addr \<Rightarrow> u16 \<Rightarrow> bool) \<Rightarrow> bool \<Rightarrow> nat \<Rightarrow> bool \<Rightarrow> files \<Rightarrow> server_cli \<Rightarrow> (server_program, qvod_error) result" where
  "server_start free bound now dht_ok fs cli =
     (case local_server_new free bound now (with_bind_address (sc_bind cli) (local_server_config_new (sc_port cli)))
        (engine_new (server_engine_config cli) dht_ok fs) of
        Ok s \<Rightarrow> Ok \<lparr>sp_server = s, sp_running = True\<rparr>
      | _ \<Rightarrow> Panic)"

text \<open>
  Both signals reach the server, which then takes no more connections; the program waits for the interrupt only. That the
  server has asked for the other signal keeps the operating system from ending the program.
\<close>

datatype os_signal = Interrupt | Terminate

datatype program_event = PeServer server_event | PeSignal os_signal

fun program_step :: "(string \<Rightarrow> ip_addr option) \<Rightarrow> (bytes \<Rightarrow> bytes) \<Rightarrow> string \<Rightarrow> program_event \<Rightarrow> server_program \<Rightarrow>
    server_program \<times> server_response option" where
  "program_step pip sha1 txt (PeServer ev) p =
     (if sp_running p
      then (case server_step pip sha1 txt ev (sp_server p) of (s, r) \<Rightarrow> (p\<lparr>sp_server := s\<rparr>, r))
      else (p, None))"
| "program_step pip sha1 txt (PeSignal sig) p =
     (if \<not> sp_running p then (p, None)
      else let s = fst (server_step pip sha1 txt SeSignal (sp_server p))
           in case sig of
                Terminate \<Rightarrow> (p\<lparr>sp_server := s\<rparr>, None)
              | Interrupt \<Rightarrow> (p\<lparr>sp_server := fst (server_step pip sha1 txt SeDrop (local_server_stop s)), sp_running := False\<rparr>, None))"

fun program_run :: "(string \<Rightarrow> ip_addr option) \<Rightarrow> (bytes \<Rightarrow> bytes) \<Rightarrow> string \<Rightarrow> program_event list \<Rightarrow> server_program \<Rightarrow>
    server_program \<times> server_response option list" where
  "program_run pip sha1 txt [] p = (p, [])"
| "program_run pip sha1 txt (ev # evs) p =
     (let (p1, r) = program_step pip sha1 txt ev p; (p2, rs) = program_run pip sha1 txt evs p1 in (p2, r # rs))"

lemma program_run_Cons:
  "fst (program_run pip sha1 txt (ev # evs) p) = fst (program_run pip sha1 txt evs (fst (program_step pip sha1 txt ev p)))"
  "snd (program_run pip sha1 txt (ev # evs) p) =
     snd (program_step pip sha1 txt ev p) # snd (program_run pip sha1 txt evs (fst (program_step pip sha1 txt ev p)))"
  by (simp_all split: prod.split)

declare program_run.simps(2) [simp del]

text \<open>The file of a configuration is never read.\<close>

lemma config_file_not_read:
  "server_start free bound now dht_ok fs (cli\<lparr>sc_config := path\<rparr>) = server_start free bound now dht_ok fs cli"
  by (simp add: server_start_def server_engine_config_def engine_config_load_def Let_def)

text \<open>A server that has started asks for the port it was given, or one of the ten after it, or a free one of the system.\<close>

lemma server_start_port:
  assumes "server_start free bound now dht_ok fs cli = Ok p"
  shows "find_available_port_async free (with_bind_address (sc_bind cli) (local_server_config_new (sc_port cli))) = Some (ls_port (sp_server p)) \<and>
    sp_running p \<and> ls_serving (sp_server p) = bound \<and> ec_listen_port (en_config (ls_engine (sp_server p))) = sc_port cli"
  using assms
  by (auto simp: server_start_def local_server_new_def engine_new_def server_engine_config_def Let_def split: option.splits result.splits)

text \<open>Once it serves no more, a server never serves again, whatever happens; nothing is answered.\<close>

lemma server_step_not_serving:
  assumes "\<not> ls_serving s"
  shows "\<not> ls_serving (fst (server_step pip sha1 txt ev s)) \<and> snd (server_step pip sha1 txt ev s) = None"
  using assms by (cases ev) (auto simp: local_server_stop_def)

lemma program_step_not_serving:
  assumes "\<not> ls_serving (sp_server p)"
  shows "\<not> ls_serving (sp_server (fst (program_step pip sha1 txt ev p))) \<and> snd (program_step pip sha1 txt ev p) = None"
proof (cases ev)
  case (PeServer e)
  with server_step_not_serving [OF assms, of pip sha1 "txt" e] assms show ?thesis by (auto split: prod.split)
next
  case (PeSignal sig)
  with assms show ?thesis by (cases sig) (auto simp: Let_def)
qed

lemma program_run_not_serving:
  "\<not> ls_serving (sp_server p) \<Longrightarrow> \<not> ls_serving (sp_server (fst (program_run pip sha1 txt evs p))) \<and>
     set (snd (program_run pip sha1 txt evs p)) \<subseteq> {None}"
proof (induction evs arbitrary: p)
  case (Cons ev evs)
  from program_step_not_serving [OF Cons.prems, of pip sha1 "txt" ev] Cons.IH
  show ?case unfolding program_run_Cons by auto
qed simp

text \<open>
  A server that is told to terminate answers nobody any more, but the program runs on until it is interrupted: a supervisor
  that stops it by that signal has to kill it.
\<close>

lemma terminated_server_hangs:
  assumes "sp_running p" and "PeSignal Interrupt \<notin> set evs"
  shows "sp_running (fst (program_run pip sha1 txt (PeSignal Terminate # evs) p)) \<and>
    set (snd (program_run pip sha1 txt (PeSignal Terminate # evs) p)) \<subseteq> {None}"
proof -
  have keep: "sp_running (fst (program_run pip sha1 txt evs q))" if "sp_running q" "PeSignal Interrupt \<notin> set evs" for evs q
    using that
  proof (induction evs arbitrary: q)
    case (Cons ev evs)
    then have "sp_running (fst (program_step pip sha1 txt ev q))"
      by (cases ev) (auto simp: Let_def split: prod.split os_signal.split)
    with Cons show ?case unfolding program_run_Cons by simp
  qed simp
  let ?q = "fst (program_step pip sha1 txt (PeSignal Terminate) p)"
  have "sp_running ?q" "\<not> ls_serving (sp_server ?q)" "snd (program_step pip sha1 txt (PeSignal Terminate) p) = None"
    using assms(1) by (simp_all add: Let_def)
  with keep [OF _ assms(2)] program_run_not_serving [of ?q pip sha1 "txt" evs]
  show ?thesis unfolding program_run_Cons by auto
qed

lemma interrupted_program_ends:
  "sp_running p \<Longrightarrow> \<not> sp_running (fst (program_step pip sha1 txt (PeSignal Interrupt) p)) \<and>
     \<not> ls_serving (sp_server (fst (program_step pip sha1 txt (PeSignal Interrupt) p)))"
  by (simp add: Let_def)

end
