(* ===== verification/Spec2Isabelle.thy ===== *)
theory Spec2Isabelle
  imports Bitfield File_Meta Qvs_File Media_Uri Dht_Session Peer_Wire Scheduler Nat_Traversal Udp_Stream Cache Engine Tcp_Stream Pool P2sp Handlers Tracker
    Media_Sync Native_Reader Local_Server App_Playback Probe_Report Startup Programs
begin

text \<open>
  A model of qvod-player (\<open>qvs\<close>), a peer-to-peer streaming player in Rust, with its correctness theorems. The
  program is a workspace of crates: \<open>crates/qvs-core\<close> (basic data), \<open>qvs-format\<close> (files and addresses),
  \<open>qvs-dht\<close>, \<open>qvs-tracker\<close> and \<open>qvs-transport\<close> (finding peers and talking to them), \<open>qvs-stream\<close> (buffer, playback,
  engine), \<open>qvs-local-server\<close> (the HTTP interface of the engine), \<open>qvs-media\<close> (probing and decoding), \<open>qvs-gui\<close> (the
  desktop player), and the programs \<open>client\<close> and \<open>server\<close>.

  How the parts interact. The engine starts a stream from an address (a \<open>qvod://\<close> address, an HTTP address, a local
  file), with a background task that fills the buffer of the stream. The local server offers the engine over HTTP:
  \<open>/play\<close> sends what the buffer holds, \<open>/status\<close> and \<open>/control\<close> report and steer. The desktop player is a client
  of this server, which runs inside it or elsewhere; files and addresses that ffmpeg can open it decodes itself and only shows
  the frames. The DHT node, the tracker client and the peer transport are complete libraries beside the engine, which
  asks them for peers but never downloads a piece from one.
\<close>

section \<open>Conventions\<close>

text \<open>
  Machine integers are words of their width; where an addition, subtraction or multiplication leaves the range, the model
  wraps, as a release build does. What panics in every build (an index out of range, a division by zero, \<open>expect\<close>, a slice
  through a character) is the outcome \<open>Panic\<close>, the third one of \<open>result\<close> besides \<open>Ok\<close> and \<open>Err\<close>.
  A \<open>usize\<close> that only counts or indexes a list is a natural number. A \<open>String\<close> is the list of its UTF-8 bytes. \<open>f64\<close> and \<open>f32\<close> are rationals rounded after every operation
  (\<open>Float64\<close>, \<open>Float32\<close>); infinities and NaN are not in the model, and the components prove the bounds that keep them
  away. A \<open>HashMap\<close> is a partial function, or an association list where the order of its iteration matters, and
  then the lemmas hold for every order; a \<open>BTreeMap\<close> is a sorted association list (\<open>Ordered_Map\<close>).

  What the program asks of its surroundings is an argument: the clock (in nanoseconds), the outcome of every call of the
  network and of the file system, random bytes, what the user did in a frame. A task that runs beside the others
  is a step function, and a run is a list of steps and events in any order. SHA-1, the rectangles of \<open>egui\<close>, the TOML text
  of the settings, the words of the error messages of \<open>serde\<close> and what ffmpeg answers are parameters. JSON is modelled as values (so
  a float is taken to be read as it was printed), HTTP as parsed requests and answers; what \<open>axum\<close> answers by itself has its documented
  status.

  Every function is total. Loops of the code are recursions with a termination proof (the decoders consume input, the
  iterative search of the DHT has at most eight rounds and queries a node at most once). The background loops, which end only if
  the network lets them, are run on a list of outcomes; that enough outcomes end them is a theorem: for the HTTP loop ten outcomes
  for each byte of the file and ten more (each of them either advances, or is one of at most ten failures in a row), for the
  loop over a local file one step for each 64 KiB begun.
\<close>

section \<open>Theories and sources\<close>

text \<open>
  Basis. \<open>Prelude\<close> and \<open>Rust_Std\<close>: types, lists, integers, text of the standard library, with the rules
  \<open>codec\<close> and \<open>shape\<close> for encoders and parsers. \<open>Float64\<close>, \<open>Float32\<close>: rounding, its monotonicity and its exact cases.
  \<open>Ordered_Map\<close>: \<open>BTreeMap\<close>. \<open>Json\<close>: values and typed access.

  Core. \<open>Core_Types\<close> (\<open>types.rs\<close>, \<open>error.rs\<close>, \<open>constants.rs\<close>), \<open>Bitfield\<close> and \<open>File_Meta\<close> (the rest of
  \<open>types.rs\<close>), \<open>Core_Util\<close> (\<open>util.rs\<close>), \<open>Media_Probe\<close> and \<open>Probe_Report\<close> (\<open>media_probe.rs\<close>).
  Shown: the laws of the bitfield and that its count is the number of pieces, the search for key frames, the agreement of
  the two bencode decoders, and that a report of ffmpeg in the form of the source's samples is read back, its duration up to the
  millisecond that the truncation of a float can lose.

  Formats. \<open>Bencode_Format\<close>, \<open>Qvs_File\<close>, \<open>Media_Uri\<close>, \<open>Cache\<close> (files of \<open>qvs-format/src\<close> of the
  same names). Shown: round trips, normal forms, reading after writing in the cache once the write has landed (a
  write returns with its last part still in flight), and that cleaning up removes the least recently used entries.

  DHT (\<open>qvs-dht/src\<close>). \<open>Dht_Rpc\<close>: messages; \<open>Dht_Routing\<close>: the routing table; \<open>Dht_Token\<close>: tokens; \<open>Dht_Krpc\<close>:
  the server side and the search; \<open>Dht_Node\<close>: bootstrap and node; \<open>Dht_Session\<close>: runs of a node. Shown: the invariants of table
  and peer store over every sequence of messages, that only senders with a valid token are stored, the exactness of
  \<open>find_closest\<close>, and that a node, although each part is right, never gets another node into its table.

  Transport (\<open>qvs-transport/src\<close>). \<open>Peer_Message\<close> (\<open>message.rs\<close>, \<open>handshake.rs\<close>), \<open>Peer_Wire\<close>,
  \<open>Tcp_Stream\<close>, \<open>Udp_Stream\<close>, \<open>Congestion\<close>, \<open>Scheduler\<close>, \<open>Nat_Traversal\<close> (\<open>nat.rs\<close>), \<open>Pool\<close> (with
  \<open>stats.rs\<close>), \<open>P2sp\<close>. Shown: codecs as bijections, a session over a byte stream read back message by message, the state
  of a connection as a function of the messages, window bounds in rounded arithmetic (for round trips of at most
  \<open>10 ^ 18\<close> nanoseconds, some thirty years), the order of the download queue, the bound of the pool. \<open>Tracker\<close> is the crate \<open>qvs-tracker\<close>.

  Streams (\<open>qvs-stream/src\<close>). \<open>Ring_Buffer\<close> (\<open>buffer.rs\<close>), \<open>Playback\<close> (\<open>playback.rs\<close>,
  \<open>adaptive.rs\<close>), \<open>Seek_Hls\<close> (\<open>seek.rs\<close>, \<open>hls.rs\<close>, \<open>metadata.rs\<close>, \<open>config.rs\<close>), \<open>Download\<close> (the loops of
  \<open>engine.rs\<close>), \<open>Engine\<close> (the rest of it). Shown: the buffer refines a partially known file; the loops end and what they
  leave is the file; the engine serves a local file completely, whatever the user does meanwhile.

  Local server (\<open>qvs-local-server/src\<close>). \<open>Http_Server\<close> (\<open>range.rs\<close>, \<open>config.rs\<close>, \<open>middleware.rs\<close>), \<open>Handlers\<close>
  (\<open>handler.rs\<close>), \<open>Local_Server\<close> (\<open>server.rs\<close>: routes, layers, events, shutdown). Shown: the handlers against
  the engine, what of a body is sent, and that the server with its limiter answers as a server that looks back at every request it let
  through. \<open>Programs\<close> holds the two programs without a window.

  Media (\<open>qvs-media/src\<close>). \<open>Frame_Reader\<close> (\<open>subprocess.rs\<close>), \<open>Native_Reader\<close> (\<open>native.rs\<close> and the
  placeholders \<open>demuxer.rs\<close>, \<open>decoder.rs\<close>, \<open>renderer.rs\<close>, \<open>resampler.rs\<close>), \<open>Frame_Session\<close> (a decoder thread
  with the reader of its channel, for both), \<open>Media_Sync\<close> (\<open>sync.rs\<close>, \<open>format.rs\<close>). Shown: the frames are the consecutive
  pieces of what the decoder writes, and each reaches the player once, in order.

  Desktop player (\<open>qvs-gui/src\<close>). \<open>Gui_State\<close>, \<open>Settings_Page\<close> (\<open>settings.rs\<close>, \<open>status.rs\<close>), \<open>Playlist\<close>,
  \<open>Controls\<close> (\<open>controls.rs\<close>, \<open>player.rs\<close>), \<open>Server_Client\<close> (\<open>client.rs\<close>), \<open>App\<close> and \<open>App_Frame\<close> (\<open>app.rs\<close>: start,
  choice of the decoder, and a frame as the composition of its parts), \<open>App_Session\<close> (runs of frames), \<open>App_Playback\<close> (the
  player over client, server and engine), \<open>Skin\<close> (\<open>skin/\<close>, \<open>overlay.rs\<close>, \<open>theme.rs\<close>: what is drawn, as a list of
  shapes, and the commands to the window), \<open>Startup\<close> (\<open>main.rs\<close>, \<open>fonts.rs\<close>). Shown: a call over HTTP is the call of the
  handler; after every frame the controls agree with the state of the player; an HTTP address that the engine accepts plays from end to
  end where no limit of requests or failure of the network intervenes, a \<open>qvod\<close> address never does; bounds of what is drawn.
\<close>

section \<open>Interfaces\<close>

text \<open>
  Where a component relies on another by a contract, the contract is a locale, interpreted on the code's own operations:
  \<open>finite_map\<close> (a map with an invariant, on \<open>BTreeMap\<close>; the \<open>.qvs\<close> dictionary uses its laws), \<open>piece_set\<close> (a set of pieces
  with its count, on the bitfield), \<open>token_scheme\<close> (issue, verify, rotate, on the tokens of the DHT), \<open>frame_thread\<close> (a thread
  that sends frames one behind the other and ends, on both decoders). State machines are inductive relations with their reachable
  states: connections, congestion control, the UDP transport, routing table, engine, task list.
\<close>

section \<open>Not modelled\<close>

text \<open>
  The pixels of the icon (\<open>icon.rs\<close> calls a decoder of images), the build script, the traits of \<open>qvs-core/src/traits.rs\<close>
  (their implementations are modelled as the functions they forward to), module lists, log messages, the
  request logger, and the layout of \<open>egui\<close> (margins, cursors, repainting). The parsing of HTTP, JSON text, TOML and the command line is that of libraries.
  The desktop player is the Unix build.
\<close>

end
